(* ===== verification/Prelude.thy ===== *)
theory Prelude
  imports Main "HOL-Library.Word" "HOL-Library.Char_ord" "HOL-Library.List_Lexorder" "HOL-Library.Sublist"
begin

unbundle bit_operations_syntax

text \<open>
  Shared vocabulary of the development: the machine integers of the Rust code, byte strings
  with the parts of \<^verbatim>\<open>str\<close> the program uses (\<^verbatim>\<open>trim\<close>, \<^verbatim>\<open>to_uppercase\<close>, \<^verbatim>\<open>replace\<close>,
  \<^verbatim>\<open>split\<close>), and the generic list facts the component theories use.
\<close>

section \<open>Machine integers\<close>

text \<open>
  \<^verbatim>\<open>i32\<close> and \<^verbatim>\<open>i64\<close> are the same bit patterns as their unsigned counterparts; \<open>sint\<close> reads
  them as two's complement, and the Rust cast \<^verbatim>\<open>as u64\<close> is the identity on the bits.
\<close>

type_synonym u8 = "8 word"
type_synonym u16 = "16 word"
type_synonym u32 = "32 word"
type_synonym u64 = "64 word"
type_synonym i32 = "32 word"
type_synonym i64 = "64 word"

text \<open>Lemma collections: the operations of the stores and the facts about paths.\<close>

named_theorems store_simps
named_theorems path_simps

section \<open>Byte strings\<close>

text \<open>
  A Rust \<^verbatim>\<open>str\<close> is its UTF-8 byte sequence. \<open>ws_len s\<close> is the byte length of the Unicode
  white-space character at the head of \<open>s\<close>, 0 if there is none; \<open>ws_len_rev\<close> is the same at
  the end of a string, given in reverse.
\<close>

definition ascii_ws :: "char \<Rightarrow> bool" where
  "ascii_ws c \<longleftrightarrow> c \<in> set [CHR 0x20, CHR 0x09, CHR 0x0A, CHR 0x0B, CHR 0x0C, CHR 0x0D]"

definition ws2 :: "char \<Rightarrow> char \<Rightarrow> bool" where
  "ws2 a b \<longleftrightarrow> a = CHR 0xC2 \<and> (b = CHR 0x85 \<or> b = CHR 0xA0)"

definition ws3 :: "char \<Rightarrow> char \<Rightarrow> char \<Rightarrow> bool" where
  "ws3 a b c \<longleftrightarrow>
     a = CHR 0xE1 \<and> b = CHR 0x9A \<and> c = CHR 0x80
   \<or> a = CHR 0xE2 \<and> b = CHR 0x80 \<and>
       (c \<in> set [CHR 0x80, CHR 0x81, CHR 0x82, CHR 0x83, CHR 0x84, CHR 0x85, CHR 0x86,
                 CHR 0x87, CHR 0x88, CHR 0x89, CHR 0x8A, CHR 0xA8, CHR 0xA9, CHR 0xAF])
   \<or> a = CHR 0xE2 \<and> b = CHR 0x81 \<and> c = CHR 0x9F
   \<or> a = CHR 0xE3 \<and> b = CHR 0x80 \<and> c = CHR 0x80"

definition ws_len :: "string \<Rightarrow> nat" where
  "ws_len s =
     (case s of
        [] \<Rightarrow> 0
      | a # t \<Rightarrow>
          if ascii_ws a then 1
          else (case t of
                  [] \<Rightarrow> 0
                | b # u \<Rightarrow>
                    if ws2 a b then 2
                    else (case u of [] \<Rightarrow> 0 | c # _ \<Rightarrow> if ws3 a b c then 3 else 0)))"

definition ws_len_rev :: "string \<Rightarrow> nat" where
  "ws_len_rev s =
     (case s of
        [] \<Rightarrow> 0
      | c # t \<Rightarrow>
          if ascii_ws c then 1
          else (case t of
                  [] \<Rightarrow> 0
                | b # u \<Rightarrow>
                    if ws2 b c then 2
                    else (case u of [] \<Rightarrow> 0 | a # _ \<Rightarrow> if ws3 a b c then 3 else 0)))"

function trim_with :: "(string \<Rightarrow> nat) \<Rightarrow> string \<Rightarrow> string" where
  "trim_with f s = (if s = [] \<or> f s = 0 then s else trim_with f (drop (f s) s))"
  by pat_completeness auto
termination
  by (relation "measure (\<lambda>(f, s). length s)") auto

declare trim_with.simps [simp del]

definition str_trim :: "string \<Rightarrow> string" where
  "str_trim s = rev (trim_with ws_len_rev (rev (trim_with ws_len s)))"

lemma trim_with_Nil [simp]: "trim_with f [] = []"
  by (simp add: trim_with.simps)

lemma str_trim_Nil [simp]: "str_trim [] = []"
  by (simp add: str_trim_def)

lemma trim_with_stop: "f s = 0 \<Longrightarrow> trim_with f s = s"
  by (simp add: trim_with.simps)

lemma trim_with_suffix: "\<exists>n. trim_with f s = drop n s"
proof (induction f s rule: trim_with.induct)
  case (1 f s)
  show ?case
  proof (cases "s = [] \<or> f s = 0")
    case True
    then have "trim_with f s = drop 0 s" by (simp add: trim_with.simps [of f s])
    then show ?thesis by blast
  next
    case False
    then obtain n where "trim_with f (drop (f s) s) = drop n (drop (f s) s)"
      using "1.IH" [OF False] by blast
    with False have "trim_with f s = drop (n + f s) s"
      by (simp add: trim_with.simps [of f s])
    then show ?thesis by blast
  qed
qed

lemma trim_with_done: "f (trim_with f s) = 0 \<or> trim_with f s = []"
proof (induction f s rule: trim_with.induct)
  case (1 f s)
  show ?case
  proof (cases "s = [] \<or> f s = 0")
    case True
    then show ?thesis by (auto simp: trim_with.simps [of f s])
  next
    case False
    with "1.IH" show ?thesis by (simp add: trim_with.simps [of f s])
  qed
qed

lemma length_str_trim: "length (str_trim s) \<le> length s"
proof -
  obtain n where "trim_with ws_len s = drop n s" using trim_with_suffix by blast
  moreover obtain m where
    "trim_with ws_len_rev (rev (drop n s)) = drop m (rev (drop n s))"
    using trim_with_suffix by blast
  ultimately show ?thesis by (simp add: str_trim_def)
qed

text \<open>
  \<^verbatim>\<open>str::to_uppercase\<close>, exact for every comparison with an ASCII word: ASCII letters, and
  the non-ASCII characters whose Unicode upper case consists of ASCII letters (sharp s,
  dotless i, long s and the Latin ligatures). Any other character keeps a non-ASCII byte.
\<close>

definition ascii_upper :: "char \<Rightarrow> char" where
  "ascii_upper c =
     (if of_char c \<ge> (97::nat) \<and> of_char c \<le> (122::nat) then char_of (of_char c - (32::nat)) else c)"

fun str_upper :: "string \<Rightarrow> string" where
  "str_upper [] = []"
| "str_upper (a # s) =
     (case s of
        b # t \<Rightarrow>
          if a = CHR 0xC3 \<and> b = CHR 0x9F then ''SS'' @ str_upper t
          else if a = CHR 0xC4 \<and> b = CHR 0xB1 then ''I'' @ str_upper t
          else if a = CHR 0xC5 \<and> b = CHR 0xBF then ''S'' @ str_upper t
          else (case t of
                  c # u \<Rightarrow>
                    if a = CHR 0xEF \<and> b = CHR 0xAC then
                      (if c = CHR 0x80 then ''FF'' @ str_upper u
                       else if c = CHR 0x81 then ''FI'' @ str_upper u
                       else if c = CHR 0x82 then ''FL'' @ str_upper u
                       else if c = CHR 0x83 then ''FFI'' @ str_upper u
                       else if c = CHR 0x84 then ''FFL'' @ str_upper u
                       else if c = CHR 0x85 then ''ST'' @ str_upper u
                       else if c = CHR 0x86 then ''ST'' @ str_upper u
                       else ascii_upper a # str_upper s)
                    else ascii_upper a # str_upper s
                | [] \<Rightarrow> ascii_upper a # str_upper s)
      | [] \<Rightarrow> [ascii_upper a])"

definition str_replace_char :: "char \<Rightarrow> char \<Rightarrow> string \<Rightarrow> string" where
  "str_replace_char a b s = map (\<lambda>c. if c = a then b else c) s"

fun split_on :: "char \<Rightarrow> string \<Rightarrow> string list" where
  "split_on d [] = [[]]"
| "split_on d (c # s) =
     (if c = d then [] # split_on d s
      else (case split_on d s of [] \<Rightarrow> [[c]] | w # ws \<Rightarrow> (c # w) # ws))"

definition join_with :: "char \<Rightarrow> string list \<Rightarrow> string" where
  "join_with d ws = (case ws of [] \<Rightarrow> [] | w # vs \<Rightarrow> w @ concat (map (\<lambda>v. d # v) vs))"

lemma split_on_nonempty [simp]: "split_on d s \<noteq> []"
  by (induction s) (auto split: list.splits)

lemma split_on_no_sep: "w \<in> set (split_on d s) \<Longrightarrow> d \<notin> set w"
  by (induction s arbitrary: w) (auto split: list.splits if_splits)

lemma join_split: "join_with d (split_on d s) = s"
  by (induction s) (auto simp: join_with_def split: list.splits)

section \<open>Lists and options\<close>

fun position :: "('a \<Rightarrow> bool) \<Rightarrow> 'a list \<Rightarrow> nat option" where
  "position P [] = None"
| "position P (x # xs) = (if P x then Some 0 else map_option Suc (position P xs))"

fun rposition :: "('a \<Rightarrow> bool) \<Rightarrow> 'a list \<Rightarrow> nat option" where
  "rposition P [] = None"
| "rposition P (x # xs) =
     (case rposition P xs of
        Some i \<Rightarrow> Some (Suc i)
      | None \<Rightarrow> if P x then Some 0 else None)"

definition remove_at :: "nat \<Rightarrow> 'a list \<Rightarrow> 'a list" where
  "remove_at i xs = take i xs @ drop (Suc i) xs"

definition list_get :: "'a list \<Rightarrow> nat \<Rightarrow> 'a option" where
  "list_get xs i = (if i < length xs then Some (xs ! i) else None)"

lemma position_SomeD: "position P xs = Some i \<Longrightarrow> i < length xs \<and> P (xs ! i)"
  by (induction xs arbitrary: i) (auto split: if_splits)

lemma position_None_iff: "position P xs = None \<longleftrightarrow> (\<forall>x \<in> set xs. \<not> P x)"
  by (induction xs) auto

lemma position_least: "position P xs = Some i \<Longrightarrow> j < i \<Longrightarrow> \<not> P (xs ! j)"
  by (induction xs arbitrary: i j) (auto simp: nth_Cons' split: if_splits)

lemma rposition_SomeD: "rposition P xs = Some i \<Longrightarrow> i < length xs \<and> P (xs ! i)"
  by (induction xs arbitrary: i) (auto split: if_splits option.splits)

lemma rposition_None_iff: "rposition P xs = None \<longleftrightarrow> (\<forall>x \<in> set xs. \<not> P x)"
  by (induction xs) (auto split: option.splits)

lemma rposition_greatest:
  "rposition P xs = Some i \<Longrightarrow> i < j \<Longrightarrow> j < length xs \<Longrightarrow> \<not> P (xs ! j)"
proof (induction xs arbitrary: i j)
  case Nil
  then show ?case by simp
next
  case (Cons x xs)
  from Cons.prems(2) obtain j' where "j = Suc j'" by (cases j) auto
  with Cons show ?case
    by (auto simp: rposition_None_iff split: option.splits if_splits)
qed

lemma length_remove_at: "i < length xs \<Longrightarrow> length (remove_at i xs) = length xs - 1"
  by (simp add: remove_at_def)

lemma set_remove_at_subset: "set (remove_at i xs) \<subseteq> set xs"
  by (auto simp: remove_at_def dest: in_set_takeD in_set_dropD)

lemma set_remove_at_distinct:
  assumes "distinct xs" and "i < length xs"
  shows "set (remove_at i xs) = set xs - {xs ! i}"
proof -
  have "xs = take i xs @ xs ! i # drop (Suc i) xs"
    using assms(2) by (rule id_take_nth_drop)
  with assms(1) show ?thesis
    unfolding remove_at_def by (metis Diff_insert_absorb Un_insert_right distinct.simps(2)
      distinct_append list.set(2) set_append disjoint_iff insert_iff Un_iff)
qed

lemma distinct_remove_at: "distinct xs \<Longrightarrow> distinct (remove_at i xs)"
  by (auto simp: remove_at_def dest: set_take_disj_set_drop_if_distinct [of _ i "Suc i"])

lemma find_SomeD: "List.find P xs = Some x \<Longrightarrow> x \<in> set xs \<and> P x"
  by (auto simp: find_Some_iff)

section \<open>Runs that may stop\<close>

text \<open>A loop whose body may fail, and what a successful run guarantees of its result.\<close>

fun fold_opt :: "('a \<Rightarrow> 's \<Rightarrow> 's option) \<Rightarrow> 'a list \<Rightarrow> 's \<Rightarrow> 's option" where
  "fold_opt f [] s = Some s"
| "fold_opt f (x # xs) s = (case f x s of None \<Rightarrow> None | Some s' \<Rightarrow> fold_opt f xs s')"

definition returns :: "'s option \<Rightarrow> ('s \<Rightarrow> bool) \<Rightarrow> bool" where
  "returns r P \<longleftrightarrow> (case r of None \<Rightarrow> False | Some s \<Rightarrow> P s)"

lemma returns_Some [simp]: "returns (Some s) P \<longleftrightarrow> P s"
  and returns_None [simp]: "\<not> returns None P"
  by (simp_all add: returns_def)

lemma returns_iff: "returns r P \<longleftrightarrow> (\<exists>s. r = Some s \<and> P s)"
  by (cases r) simp_all

lemma returns_bind:
  "returns r Q \<Longrightarrow> (\<And>s. Q s \<Longrightarrow> returns (f s) P) \<Longrightarrow> returns (Option.bind r f) P"
  by (cases r) simp_all

lemma returns_mono: "returns r Q \<Longrightarrow> (\<And>s. Q s \<Longrightarrow> P s) \<Longrightarrow> returns r P"
  by (cases r) simp_all

lemma returns_conj: "returns r P \<Longrightarrow> returns r Q \<Longrightarrow> returns r (\<lambda>s. P s \<and> Q s)"
  by (cases r) simp_all

lemma returns_fold_opt:
  "P s \<Longrightarrow> (\<And>x s. x \<in> set xs \<Longrightarrow> P s \<Longrightarrow> returns (f x s) P) \<Longrightarrow> returns (fold_opt f xs s) P"
proof (induction xs arbitrary: s)
  case (Cons x xs)
  have "returns (f x s) P" by (rule Cons.prems(2)) (simp_all add: Cons.prems(1))
  then obtain s' where s': "f x s = Some s'" "P s'" by (auto simp: returns_iff)
  have "returns (fold_opt f xs s') P"
    by (rule Cons.IH [OF s'(2)], rule Cons.prems(2)) simp_all
  then show ?case by (simp add: s'(1))
qed simp

lemma fold_preserves: "P s \<Longrightarrow> (\<And>x s. x \<in> set xs \<Longrightarrow> P s \<Longrightarrow> P (f x s)) \<Longrightarrow> P (fold f xs s)"
proof (induction xs arbitrary: s)
  case (Cons x xs)
  have "P (f x s)" by (rule Cons.prems(2)) (simp_all add: Cons.prems(1))
  then have "P (fold f xs (f x s))"
    by (rule Cons.IH) (rule Cons.prems(2), simp_all)
  then show ?case by simp
qed simp

end
