(* ===== verification/Rust_Path.thy ===== *)
theory Rust_Path
  imports Prelude
begin

text \<open>
  \<^verbatim>\<open>std::path::Path\<close> on Unix, as far as the program uses it. Two paths are equal, ordered and
  prefixes of each other by their components, so a path is its component list; where the code
  reads the text of a path (\<^verbatim>\<open>to_string_lossy\<close>), the model takes the string itself.
\<close>

section \<open>Components\<close>

datatype component = RootDir | CurDir | ParentDir | Normal string

type_synonym path = "component list"

text \<open>The derived \<^verbatim>\<open>Ord\<close> of \<^verbatim>\<open>Component\<close>: declaration order, then the name.\<close>

fun comp_rank :: "component \<Rightarrow> nat" where
  "comp_rank RootDir = 0"
| "comp_rank CurDir = 1"
| "comp_rank ParentDir = 2"
| "comp_rank (Normal _) = 3"

fun comp_text :: "component \<Rightarrow> string" where
  "comp_text (Normal s) = s"
| "comp_text _ = []"

instantiation component :: linorder
begin

definition less_eq_component :: "component \<Rightarrow> component \<Rightarrow> bool" where
  "less_eq_component a b \<longleftrightarrow>
     comp_rank a < comp_rank b \<or> comp_rank a = comp_rank b \<and> comp_text a \<le> comp_text b"

definition less_component :: "component \<Rightarrow> component \<Rightarrow> bool" where
  "less_component a b \<longleftrightarrow>
     comp_rank a < comp_rank b \<or> comp_rank a = comp_rank b \<and> comp_text a < comp_text b"

instance
proof
  fix x y z :: component
  show "x < y \<longleftrightarrow> x \<le> y \<and> \<not> y \<le> x"
    by (auto simp: less_eq_component_def less_component_def)
  show "x \<le> x" by (simp add: less_eq_component_def)
  show "x \<le> y \<Longrightarrow> y \<le> z \<Longrightarrow> x \<le> z"
    by (auto simp: less_eq_component_def)
  show "x \<le> y \<Longrightarrow> y \<le> x \<Longrightarrow> x = y"
    by (cases x; cases y) (auto simp: less_eq_component_def)
  show "x \<le> y \<or> y \<le> x"
    by (auto simp: less_eq_component_def)
qed

end

section \<open>From text to components\<close>

definition component_of :: "string \<Rightarrow> component" where
  "component_of s = (if s = ''..'' then ParentDir else if s = ''.'' then CurDir else Normal s)"

text \<open>
  Repeated separators and \<^verbatim>\<open>.\<close> components vanish, except a leading \<^verbatim>\<open>.\<close> of a relative path.
\<close>

definition path_of :: "string \<Rightarrow> path" where
  "path_of s =
     (let ws = split_on CHR ''/'' s;
          rest = map component_of (filter (\<lambda>w. w \<noteq> [] \<and> w \<noteq> ''.'') ws)
      in if s \<noteq> [] \<and> hd s = CHR ''/'' then RootDir # rest
         else if hd ws = ''.'' then CurDir # rest
         else rest)"

fun comp_str :: "component \<Rightarrow> string" where
  "comp_str RootDir = []"
| "comp_str CurDir = ''.''"
| "comp_str ParentDir = ''..''"
| "comp_str (Normal s) = s"

definition path_str :: "path \<Rightarrow> string" where
  "path_str p = (if p = [RootDir] then ''/'' else join_with CHR ''/'' (map comp_str p))"

section \<open>Operations\<close>

definition starts_with :: "path \<Rightarrow> path \<Rightarrow> bool" where
  "starts_with p q \<longleftrightarrow> prefix q p"

definition parent :: "path \<Rightarrow> path option" where
  "parent p = (if p = [] \<or> last p = RootDir then None else Some (butlast p))"

definition file_name :: "path \<Rightarrow> string option" where
  "file_name p = (if p = [] then None else (case last p of Normal s \<Rightarrow> Some s | _ \<Rightarrow> None))"

definition is_absolute :: "path \<Rightarrow> bool" where
  "is_absolute p \<longleftrightarrow> p \<noteq> [] \<and> hd p = RootDir"

definition path_join :: "path \<Rightarrow> path \<Rightarrow> path" where
  "path_join p q =
     (if is_absolute q then q
      else if p \<noteq> [] \<and> q \<noteq> [] \<and> hd q = CurDir then p @ tl q
      else p @ q)"

lemma starts_with_refl [path_simps, simp]: "starts_with p p"
  by (simp add: starts_with_def)

lemma starts_with_trans: "starts_with p q \<Longrightarrow> starts_with q r \<Longrightarrow> starts_with p r"
  by (auto simp: starts_with_def)

lemma starts_with_append [path_simps]: "starts_with (p @ q) p"
  by (simp add: starts_with_def)

lemma parent_shorter: "parent p = Some q \<Longrightarrow> length q < length p"
  by (auto simp: parent_def split: if_splits)

lemma parent_starts_with: "parent p = Some q \<Longrightarrow> starts_with p q"
  by (auto simp: parent_def starts_with_def prefixeq_butlast split: if_splits)

lemma parent_snoc [path_simps, simp]: "c \<noteq> RootDir \<Longrightarrow> parent (p @ [c]) = Some p"
  by (simp add: parent_def)

lemma file_name_snoc [path_simps, simp]: "file_name (p @ [Normal s]) = Some s"
  by (simp add: file_name_def)

lemma starts_with_antisym: "starts_with p q \<Longrightarrow> starts_with q p \<Longrightarrow> p = q"
  by (auto simp: starts_with_def)

lemma starts_with_same_dir:
  "starts_with p q \<Longrightarrow> starts_with p r \<Longrightarrow> starts_with q r \<or> starts_with r q"
  by (auto simp: starts_with_def dest: prefix_same_cases)

text \<open>An extra separator or a dot changes the text of a path and not the path.\<close>

lemma path_of_examples:
  "path_of ''/proc//self/./fd'' = [RootDir, Normal ''proc'', Normal ''self'', Normal ''fd'']"
  "path_of ''./a'' = [CurDir, Normal ''a'']"
  "path_of ''a/../b'' = [Normal ''a'', ParentDir, Normal ''b'']"
  by code_simp+

end
