(* ===== verification/Ordered_Map.thy ===== *)
theory Ordered_Map
  imports Prelude
begin

text \<open>
  The key-value interface the stores of the program rely on, and its two providers:
  \<^verbatim>\<open>BTreeMap\<close>, an association list sorted by key, and \<^verbatim>\<open>HashMap\<close> where only lookups are used,
  a function. The clients' lemmas are proved once in the locales.
\<close>

section \<open>The interface\<close>

locale dict =
  fixes get :: "'m \<Rightarrow> 'k \<Rightarrow> 'v option"
    and put :: "'k \<Rightarrow> 'v \<Rightarrow> 'm \<Rightarrow> 'm"
    and del :: "'k \<Rightarrow> 'm \<Rightarrow> 'm"
    and ok :: "'m \<Rightarrow> bool"
  assumes get_put: "ok m \<Longrightarrow> get (put k v m) = (\<lambda>x. if x = k then Some v else get m x)"
    and get_del: "ok m \<Longrightarrow> get (del k m) = (\<lambda>x. if x = k then None else get m x)"
    and ok_put: "ok m \<Longrightarrow> ok (put k v m)"
    and ok_del: "ok m \<Longrightarrow> ok (del k m)"
begin

lemma get_put_same: "ok m \<Longrightarrow> get (put k v m) k = Some v"
  by (simp add: get_put)

lemma get_put_other: "ok m \<Longrightarrow> x \<noteq> k \<Longrightarrow> get (put k v m) x = get m x"
  by (simp add: get_put)

lemma get_del_same: "ok m \<Longrightarrow> get (del k m) k = None"
  by (simp add: get_del)

lemma put_put: "ok m \<Longrightarrow> get (put k v (put k w m)) = get (put k v m)"
  by (rule ext) (simp add: get_put ok_put)

lemma del_put: "ok m \<Longrightarrow> get (del k (put k v m)) = get (del k m)"
  by (rule ext) (simp add: get_put get_del ok_put)

lemma del_absent: "ok m \<Longrightarrow> get m k = None \<Longrightarrow> get (del k m) = get m"
  by (rule ext) (simp add: get_del)

end

text \<open>A map that can be walked: its entries are its bindings, each once.\<close>

locale entry_dict = dict get put del ok
  for get :: "'m \<Rightarrow> 'k \<Rightarrow> 'v option"
    and put :: "'k \<Rightarrow> 'v \<Rightarrow> 'm \<Rightarrow> 'm"
    and del :: "'k \<Rightarrow> 'm \<Rightarrow> 'm"
    and ok :: "'m \<Rightarrow> bool" +
  fixes entries :: "'m \<Rightarrow> ('k \<times> 'v) list"
  assumes entries_iff: "ok m \<Longrightarrow> (k, v) \<in> set (entries m) \<longleftrightarrow> get m k = Some v"
    and entries_distinct: "ok m \<Longrightarrow> distinct (map fst (entries m))"
begin

lemma keys_eq:
  assumes "ok m"
  shows "set (map fst (entries m)) = {k. get m k \<noteq> None}"
proof -
  have "set (map fst (entries m)) = {k. \<exists>v. (k, v) \<in> set (entries m)}" by force
  then show ?thesis by (simp add: entries_iff [OF assms])
qed

lemma size_eq: "ok m \<Longrightarrow> length (entries m) = card {k. get m k \<noteq> None}"
  using distinct_card [OF entries_distinct, of m] keys_eq [of m] by simp

lemma keys_finite: "ok m \<Longrightarrow> finite {k. get m k \<noteq> None}"
  using keys_eq [of m] by (metis finite_set)

lemma size_put_new:
  assumes "ok m" and "get m k = None"
  shows "length (entries (put k v m)) = Suc (length (entries m))"
proof -
  have "{x. get (put k v m) x \<noteq> None} = insert k {x. get m x \<noteq> None}"
    using assms by (auto simp: get_put)
  then show ?thesis
    using assms keys_finite [OF assms(1)] by (simp add: size_eq ok_put)
qed

lemma size_put_old:
  assumes "ok m" and "get m k = Some w"
  shows "length (entries (put k v m)) = length (entries m)"
proof -
  have "{x. get (put k v m) x \<noteq> None} = {x. get m x \<noteq> None}"
    using assms by (auto simp: get_put)
  then show ?thesis using assms by (simp add: size_eq ok_put)
qed

lemma size_del:
  assumes "ok m"
  shows "length (entries (del k m)) = length (entries m) - (if get m k = None then 0 else 1)"
proof -
  have "{x. get (del k m) x \<noteq> None} = {x. get m x \<noteq> None} - {k}"
    using assms by (auto simp: get_del)
  then show ?thesis
    using assms keys_finite [OF assms(1)] by (simp add: size_eq ok_del)
qed

lemma entries_empty_iff:
  assumes "ok m"
  shows "entries m = [] \<longleftrightarrow> (\<forall>k. get m k = None)"
proof -
  have "entries m = [] \<longleftrightarrow> set (map fst (entries m)) = {}" by simp
  then show ?thesis unfolding keys_eq [OF assms] by auto
qed

end

section \<open>BTreeMap\<close>

type_synonym ('k, 'v) btree = "('k \<times> 'v) list"

fun bt_insert :: "'k::linorder \<Rightarrow> 'v \<Rightarrow> ('k, 'v) btree \<Rightarrow> ('k, 'v) btree" where
  "bt_insert k v [] = [(k, v)]"
| "bt_insert k v ((a, w) # m) =
     (if k = a then (k, v) # m
      else if k < a then (k, v) # (a, w) # m
      else (a, w) # bt_insert k v m)"

definition bt_remove :: "'k \<Rightarrow> ('k, 'v) btree \<Rightarrow> ('k, 'v) btree" where
  "bt_remove k m = filter (\<lambda>(a, _). a \<noteq> k) m"

abbreviation bt_get :: "('k, 'v) btree \<Rightarrow> 'k \<Rightarrow> 'v option" where
  "bt_get \<equiv> map_of"

definition bt_ok :: "('k::linorder, 'v) btree \<Rightarrow> bool" where
  "bt_ok m \<longleftrightarrow> sorted_wrt (<) (map fst m)"

lemma bt_ok_Nil [simp]: "bt_ok []"
  by (simp add: bt_ok_def)

lemma bt_ok_distinct: "bt_ok m \<Longrightarrow> distinct (map fst m)"
  by (simp add: bt_ok_def strict_sorted_iff)

lemma keys_bt_insert: "set (map fst (bt_insert k v m)) = insert k (set (map fst m))"
  by (induction k v m rule: bt_insert.induct) auto

lemma bt_ok_insert: "bt_ok m \<Longrightarrow> bt_ok (bt_insert k v m)"
proof (induction k v m rule: bt_insert.induct)
  case (1 k v)
  then show ?case by (simp add: bt_ok_def)
next
  case (2 k v a w m)
  then show ?case
    using keys_bt_insert [of k v m] by (auto simp: bt_ok_def)
qed

lemma bt_get_insert:
  "bt_get (bt_insert k v m) = (\<lambda>x. if x = k then Some v else bt_get m x)"
  by (induction k v m rule: bt_insert.induct) (auto simp: fun_eq_iff)

lemma bt_ok_remove: "bt_ok m \<Longrightarrow> bt_ok (bt_remove k m)"
proof -
  have "map fst (bt_remove k m) = filter (\<lambda>a. a \<noteq> k) (map fst m)"
    by (induction m) (auto simp: bt_remove_def)
  moreover assume "bt_ok m"
  ultimately show ?thesis by (simp add: bt_ok_def sorted_wrt_filter)
qed

lemma bt_get_remove: "bt_get (bt_remove k m) = (\<lambda>x. if x = k then None else bt_get m x)"
  by (induction m) (auto simp: bt_remove_def fun_eq_iff)

interpretation bt: entry_dict bt_get bt_insert bt_remove bt_ok "\<lambda>m. m"
proof unfold_locales
  fix m :: "('a, 'b) btree" and k v
  assume "bt_ok m"
  then show "(k, v) \<in> set m \<longleftrightarrow> bt_get m k = Some v"
    using bt_ok_distinct by (metis map_of_eq_Some_iff)
qed (simp_all add: bt_get_insert bt_get_remove bt_ok_insert bt_ok_remove bt_ok_distinct)

section \<open>HashMap used through its lookups\<close>

definition hm_insert :: "'k \<Rightarrow> 'v \<Rightarrow> ('k \<rightharpoonup> 'v) \<Rightarrow> ('k \<rightharpoonup> 'v)" where
  "hm_insert k v m = m(k \<mapsto> v)"

definition hm_remove :: "'k \<Rightarrow> ('k \<rightharpoonup> 'v) \<Rightarrow> ('k \<rightharpoonup> 'v)" where
  "hm_remove k m = m(k := None)"

interpretation hm: dict "\<lambda>m. m" hm_insert hm_remove "\<lambda>_. True"
  by unfold_locales (auto simp: hm_insert_def hm_remove_def)

section \<open>HashMap walked in some order\<close>

text \<open>
  A list of bindings with distinct keys; the position of a new key is of no account, since the
  standard library promises no order.
\<close>

type_synonym ('k, 'v) hash = "('k \<times> 'v) list"

fun al_put :: "'k \<Rightarrow> 'v \<Rightarrow> ('k, 'v) hash \<Rightarrow> ('k, 'v) hash" where
  "al_put k v [] = [(k, v)]"
| "al_put k v ((a, w) # m) = (if a = k then (k, v) # m else (a, w) # al_put k v m)"

definition al_del :: "'k \<Rightarrow> ('k, 'v) hash \<Rightarrow> ('k, 'v) hash" where
  "al_del k m = filter (\<lambda>(a, _). a \<noteq> k) m"

definition al_ok :: "('k, 'v) hash \<Rightarrow> bool" where
  "al_ok m \<longleftrightarrow> distinct (map fst m)"

lemma al_get_put: "map_of (al_put k v m) = (\<lambda>x. if x = k then Some v else map_of m x)"
  by (induction k v m rule: al_put.induct) (auto simp: fun_eq_iff)

lemma al_get_del: "map_of (al_del k m) = (\<lambda>x. if x = k then None else map_of m x)"
  by (induction m) (auto simp: al_del_def fun_eq_iff)

lemma keys_al_put: "set (map fst (al_put k v m)) = insert k (set (map fst m))"
  by (induction k v m rule: al_put.induct) auto

lemma al_ok_put: "al_ok m \<Longrightarrow> al_ok (al_put k v m)"
proof (induction k v m rule: al_put.induct)
  case (2 k v a w m)
  then show ?case using keys_al_put [of k v m] by (auto simp: al_ok_def)
qed (simp add: al_ok_def)

lemma al_ok_filter: "al_ok m \<Longrightarrow> al_ok (filter P m)"
  by (simp add: al_ok_def distinct_map_filter)

lemma al_ok_del: "al_ok m \<Longrightarrow> al_ok (al_del k m)"
  by (simp add: al_del_def al_ok_filter)

lemma al_ok_Nil [simp]: "al_ok []"
  by (simp add: al_ok_def)

interpretation al: entry_dict map_of al_put al_del al_ok "\<lambda>m. m"
proof unfold_locales
  fix m :: "('a, 'b) hash" and k v
  assume "al_ok m"
  then show "(k, v) \<in> set m \<longleftrightarrow> map_of m k = Some v" by (simp add: al_ok_def)
qed (simp_all add: al_get_put al_get_del al_ok_put al_ok_del, simp add: al_ok_def)

lemmas bt_laws = bt.get_put bt.get_del bt.ok_put bt.ok_del

declare bt.ok_put [store_simps] bt.ok_del [store_simps]
  bt.get_put [store_simps] bt.get_del [store_simps]

end
