(* ===== verification/Fs_View.thy ===== *)
theory Fs_View
  imports Rust_Path Ordered_Map
begin

text \<open>
  What the program asks the filesystem, as a record of answers (the operating system is not
  under \<^verbatim>\<open>src/\<close>), and the path helpers of \<^verbatim>\<open>src/common/config.rs\<close> and \<^verbatim>\<open>filters.rs\<close> that
  depend on it.
\<close>

record fs_view =
  fs_exists :: "path \<Rightarrow> bool"
  fs_is_dir :: "path \<Rightarrow> bool"
  fs_canonicalize :: "path \<Rightarrow> path option"
  fs_is_symlink :: "path \<Rightarrow> bool option"
  fs_dev :: "path \<Rightarrow> u64 option"
  fs_open_dir :: "path \<Rightarrow> bool"
  fs_home :: "string option"

text \<open>The content of the regular files.\<close>

type_synonym files = "path \<rightharpoonup> string"

definition expand_tilde :: "string \<Rightarrow> string \<Rightarrow> string" where
  "expand_tilde s home =
     (if s \<noteq> [] \<and> hd s = CHR ''~'' then
        (let rest = tl s in
         if rest = [] \<or> hd rest = CHR ''/'' then home @ rest else s)
      else s)"

definition canonicalize_or :: "fs_view \<Rightarrow> path \<Rightarrow> path" where
  "canonicalize_or fs p = (case fs_canonicalize fs p of Some c \<Rightarrow> c | None \<Rightarrow> p)"

definition resolve_recursion_check :: "fs_view \<Rightarrow> path \<Rightarrow> path \<times> path" where
  "resolve_recursion_check fs p =
     (let home = (case fs_home fs of Some h \<Rightarrow> h | None \<Rightarrow> ''/root'');
          expanded = path_of (expand_tilde (path_str p) home)
      in (expanded, canonicalize_or fs expanded))"

text \<open>\<^verbatim>\<open>Path::with_extension\<close>: the part of the file name before its last dot, then the extension.\<close>

definition file_stem :: "string \<Rightarrow> string" where
  "file_stem s =
     (case rposition (\<lambda>c. c = CHR ''.'') s of
        None \<Rightarrow> s
      | Some i \<Rightarrow> if i = 0 then s else take i s)"

definition with_extension :: "path \<Rightarrow> string \<Rightarrow> path" where
  "with_extension p ext =
     (case file_name p of
        None \<Rightarrow> p
      | Some s \<Rightarrow> butlast p @ [Normal (file_stem s @ (if ext = [] then [] else CHR ''.'' # ext))])"

lemma parent_with_extension: "parent p \<noteq> None \<Longrightarrow> parent (with_extension p e) = parent p"
  by (auto simp: with_extension_def file_name_def parent_def
      split: option.splits if_splits component.splits)

text \<open>
  The deepest ancestor that is a directory (\<^verbatim>\<open>live_path.rs\<close>): the loop pops components until
  \<^verbatim>\<open>pop\<close> fails, so it ends after at most as many rounds as the path has components.
\<close>

function nearest_existing_ancestor :: "fs_view \<Rightarrow> path \<Rightarrow> path option" where
  "nearest_existing_ancestor fs p =
     (if fs_is_dir fs p then Some p
      else (case parent p of None \<Rightarrow> None | Some q \<Rightarrow> nearest_existing_ancestor fs q))"
  by pat_completeness auto
termination
  by (relation "measure (\<lambda>(fs, p). length p)") (auto dest: parent_shorter)

declare nearest_existing_ancestor.simps [simp del]

lemma nearest_existing_ancestor_sound:
  "nearest_existing_ancestor fs p = Some q \<Longrightarrow> fs_is_dir fs q \<and> starts_with p q"
proof (induction fs p rule: nearest_existing_ancestor.induct)
  case (1 fs p)
  show ?case
  proof (cases "fs_is_dir fs p")
    case True
    with "1.prems" show ?thesis by (simp add: nearest_existing_ancestor.simps [of fs p])
  next
    case False
    with "1.prems" obtain r where r: "parent p = Some r"
      and "nearest_existing_ancestor fs r = Some q"
      by (auto simp: nearest_existing_ancestor.simps [of fs p] split: option.splits)
    with "1.IH" [OF False r] show ?thesis
      using parent_starts_with [OF r] starts_with_trans by blast
  qed
qed

lemma nearest_existing_ancestor_deepest:
  assumes "nearest_existing_ancestor fs p = Some q"
    and "starts_with p r" and "fs_is_dir fs r" and "r \<noteq> [] \<Longrightarrow> RootDir \<notin> set (tl p)"
  shows "starts_with q r"
  using assms
proof (induction fs p rule: nearest_existing_ancestor.induct)
  case (1 fs p)
  show ?case
  proof (cases "fs_is_dir fs p")
    case True
    with "1.prems" show ?thesis by (simp add: nearest_existing_ancestor.simps [of fs p])
  next
    case False
    with "1.prems" obtain s where s: "parent p = Some s"
      and q: "nearest_existing_ancestor fs s = Some q"
      by (auto simp: nearest_existing_ancestor.simps [of fs p] split: option.splits)
    from s have bl: "s = butlast p" and "p \<noteq> []" by (auto simp: parent_def split: if_splits)
    have "r \<noteq> p" using False "1.prems"(3) by auto
    then have "starts_with s r"
      using "1.prems"(2) \<open>p \<noteq> []\<close> unfolding bl starts_with_def
      by (metis prefix_snoc append_butlast_last_id)
    moreover have "r \<noteq> [] \<Longrightarrow> RootDir \<notin> set (tl s)"
      using "1.prems"(4) unfolding bl by (metis butlast_tl in_set_butlastD)
    ultimately show ?thesis
      using "1.IH" [OF False s q] "1.prems"(3) by blast
  qed
qed

lemma nearest_existing_ancestor_None:
  "nearest_existing_ancestor fs p = None \<Longrightarrow> RootDir \<notin> set p \<or> \<not> fs_is_dir fs [RootDir] \<or>
     RootDir \<in> set (tl p)"
proof (induction fs p rule: nearest_existing_ancestor.induct)
  case (1 fs p)
  from "1.prems" have nd: "\<not> fs_is_dir fs p"
    by (auto simp: nearest_existing_ancestor.simps [of fs p] split: if_splits)
  show ?case
  proof (cases "parent p")
    case None
    then consider "p = []" | "p \<noteq> []" "last p = RootDir" by (auto simp: parent_def split: if_splits)
    then show ?thesis
    proof cases
      case 2
      show ?thesis
      proof (cases "tl p = []")
        case True
        with 2 nd show ?thesis by (cases p) auto
      next
        case False
        then have "last (tl p) = RootDir" using 2 by (simp add: last_tl)
        with False show ?thesis using last_in_set [OF False] by simp
      qed
    qed simp
  next
    case (Some s)
    with "1.prems" nd have "nearest_existing_ancestor fs s = None"
      by (simp add: nearest_existing_ancestor.simps [of fs p])
    with "1.IH" [OF nd Some] have ih: "RootDir \<notin> set s \<or> \<not> fs_is_dir fs [RootDir] \<or> RootDir \<in> set (tl s)"
      by blast
    from Some have p: "p = s @ [last p]" "last p \<noteq> RootDir"
      by (auto simp: parent_def split: if_splits)
    have "set p = insert (last p) (set s)" by (subst p(1)) simp
    moreover have "RootDir \<in> set (tl s) \<Longrightarrow> RootDir \<in> set (tl p)"
      by (subst p(1)) (cases s; simp)
    ultimately show ?thesis using ih p(2) by auto
  qed
qed

text \<open>
  The ancestor search always ends; what it returns is a directory on the way to the path,
  and no deeper one exists on the way.
\<close>

theorem nearest_ancestor_correct:
  assumes "nearest_existing_ancestor fs p = Some q" and "RootDir \<notin> set (tl p)"
  shows "fs_is_dir fs q \<and> starts_with p q \<and>
         (\<forall>r. starts_with p r \<and> fs_is_dir fs r \<longrightarrow> starts_with q r)"
  using nearest_existing_ancestor_sound [OF assms(1)] assms
    nearest_existing_ancestor_deepest [OF assms(1)] by blast

theorem nearest_ancestor_correct_witness:
  "nearest_existing_ancestor
     \<lparr>fs_exists = (\<lambda>_. True), fs_is_dir = (\<lambda>p. length p \<le> 2), fs_canonicalize = Some,
      fs_is_symlink = (\<lambda>_. None), fs_dev = (\<lambda>_. None), fs_open_dir = (\<lambda>_. True), fs_home = None\<rparr>
     [RootDir, Normal ''a'', Normal ''b'', Normal ''c''] = Some [RootDir, Normal ''a''] \<and>
   starts_with [RootDir, Normal ''a'', Normal ''b'', Normal ''c''] [RootDir, Normal ''a'']"
proof -
  let ?fs = "\<lparr>fs_exists = (\<lambda>_. True), fs_is_dir = (\<lambda>p. length p \<le> 2), fs_canonicalize = Some,
      fs_is_symlink = (\<lambda>_. None), fs_dev = (\<lambda>_. None), fs_open_dir = (\<lambda>_. True), fs_home = None\<rparr>"
  let ?p = "[RootDir, Normal ''a'', Normal ''b'', Normal ''c'']"
  have 1: "nearest_existing_ancestor ?fs ?p = Some [RootDir, Normal ''a'']"
    by (simp add: nearest_existing_ancestor.simps parent_def)
  from nearest_ancestor_correct [OF 1] 1 show ?thesis by simp
qed

end
