(* ===== verification/Text.thy ===== *)
theory Text
  imports Prelude
begin

text \<open>
  What the standard library does with the bytes of a log or store file: the UTF-8 check and the
  lossy decoding of \<^verbatim>\<open>String::from_utf8_lossy\<close>, \<^verbatim>\<open>BufRead::lines\<close> and \<^verbatim>\<open>BufRead::read_line\<close>.
  A string is a list of bytes.
\<close>

abbreviation NL :: char where "NL \<equiv> CHR 0x0A"

section \<open>UTF-8\<close>

definition byte :: "char \<Rightarrow> nat" where
  "byte c = of_char c"

definition in_range :: "nat \<Rightarrow> nat \<Rightarrow> string \<Rightarrow> nat \<Rightarrow> bool" where
  "in_range a b s i \<longleftrightarrow> i < length s \<and> a \<le> byte (s ! i) \<and> byte (s ! i) \<le> b"

text \<open>The head of a byte string: a character of so many bytes, or so many bytes that form none.\<close>

datatype utf8_chunk = Valid nat | Invalid nat

definition utf8_step :: "string \<Rightarrow> utf8_chunk" where
  "utf8_step s =
     (if in_range 0x00 0x7F s 0 then Valid 1
      else if in_range 0xC2 0xDF s 0 then
        (if in_range 0x80 0xBF s 1 then Valid 2 else Invalid 1)
      else if in_range 0xE0 0xEF s 0 then
        (if \<not> (in_range 0xE0 0xE0 s 0 \<and> in_range 0xA0 0xBF s 1 \<or>
               in_range 0xE1 0xEC s 0 \<and> in_range 0x80 0xBF s 1 \<or>
               in_range 0xED 0xED s 0 \<and> in_range 0x80 0x9F s 1 \<or>
               in_range 0xEE 0xEF s 0 \<and> in_range 0x80 0xBF s 1) then Invalid 1
         else if \<not> in_range 0x80 0xBF s 2 then Invalid 2
         else Valid 3)
      else if in_range 0xF0 0xF4 s 0 then
        (if \<not> (in_range 0xF0 0xF0 s 0 \<and> in_range 0x90 0xBF s 1 \<or>
               in_range 0xF1 0xF3 s 0 \<and> in_range 0x80 0xBF s 1 \<or>
               in_range 0xF4 0xF4 s 0 \<and> in_range 0x80 0x8F s 1) then Invalid 1
         else if \<not> in_range 0x80 0xBF s 2 then Invalid 2
         else if \<not> in_range 0x80 0xBF s 3 then Invalid 3
         else Valid 4)
      else Invalid 1)"

lemma utf8_step_Valid: "utf8_step s = Valid n \<Longrightarrow> 0 < n"
  by (auto simp: utf8_step_def split: if_splits)

lemma utf8_step_Invalid: "utf8_step s = Invalid n \<Longrightarrow> 0 < n"
  by (auto simp: utf8_step_def split: if_splits)

function utf8_ok :: "string \<Rightarrow> bool" where
  "utf8_ok s =
     (if s = [] then True
      else (case utf8_step s of Valid n \<Rightarrow> utf8_ok (drop n s) | Invalid _ \<Rightarrow> False))"
  by auto

termination
  by (relation "measure length") (auto dest: utf8_step_Valid)

function lossy :: "string \<Rightarrow> string" where
  "lossy s =
     (if s = [] then []
      else (case utf8_step s of
              Valid n \<Rightarrow> take n s @ lossy (drop n s)
            | Invalid n \<Rightarrow> [CHR 0xEF, CHR 0xBF, CHR 0xBD] @ lossy (drop n s)))"
  by auto

termination
  by (relation "measure length") (auto dest: utf8_step_Valid utf8_step_Invalid)

declare utf8_ok.simps [simp del] lossy.simps [simp del]

definition ascii :: "string \<Rightarrow> bool" where
  "ascii s \<longleftrightarrow> list_all (\<lambda>c. byte c < 128) s"

lemma ascii_append [simp]: "ascii (s @ t) \<longleftrightarrow> ascii s \<and> ascii t"
  by (simp add: ascii_def)

lemma ascii_Nil [simp]: "ascii []"
  by (simp add: ascii_def)

lemma ascii_Cons [simp]: "ascii (c # s) \<longleftrightarrow> byte c < 128 \<and> ascii s"
  by (simp add: ascii_def)

lemma ascii_take: "ascii s \<Longrightarrow> ascii (take n s)"
  by (auto simp: ascii_def list_all_iff dest: in_set_takeD)

lemma ascii_drop: "ascii s \<Longrightarrow> ascii (drop n s)"
  by (auto simp: ascii_def list_all_iff dest: in_set_dropD)

lemma utf8_step_ascii: "byte c < 128 \<Longrightarrow> utf8_step (c # s) = Valid 1"
  by (simp add: utf8_step_def in_range_def)

lemma utf8_ok_ascii: "ascii s \<Longrightarrow> utf8_ok s"
  by (induction s) (simp_all add: utf8_ok.simps utf8_step_ascii)

lemma lossy_ascii: "ascii s \<Longrightarrow> lossy s = s"
  by (induction s) (simp_all add: lossy.simps utf8_step_ascii)

text \<open>A buffer that starts inside a character decodes to more bytes than it has.\<close>

lemma lossy_grows: "lossy [CHR 0xA9, NL, CHR ''a''] = [CHR 0xEF, CHR 0xBF, CHR 0xBD, NL, CHR ''a'']"
  by code_simp

section \<open>Lines\<close>

text \<open>
  \<^verbatim>\<open>BufRead::lines\<close>: split after each newline, drop the newline and a carriage return before
  it; text after the last newline is a line of its own unless it is empty.
\<close>

definition chomp_cr :: "string \<Rightarrow> string" where
  "chomp_cr w = (if w \<noteq> [] \<and> last w = CHR 0x0D then butlast w else w)"

definition str_lines :: "string \<Rightarrow> string list" where
  "str_lines s =
     (let ws = split_on NL s
      in map chomp_cr (butlast ws) @ (if last ws = [] then [] else [last ws]))"

text \<open>\<^verbatim>\<open>read_line\<close> at the head of \<open>s\<close>: the line with its newline and the rest.\<close>

fun next_line :: "string \<Rightarrow> string \<times> string" where
  "next_line [] = ([], [])"
| "next_line (c # s) =
     (if c = NL then ([c], s) else (let (l, r) = next_line s in (c # l, r)))"

lemma next_line_append: "fst (next_line s) @ snd (next_line s) = s"
  by (induction s) (auto simp: case_prod_beta Let_def)

lemma next_line_shorter: "s \<noteq> [] \<Longrightarrow> length (snd (next_line s)) < length s"
proof (induction s)
  case (Cons c s)
  then show ?case by (cases s) (auto simp: case_prod_beta Let_def)
qed simp

lemma next_line_nonempty: "s \<noteq> [] \<Longrightarrow> fst (next_line s) \<noteq> []"
  by (cases s) (auto simp: case_prod_beta Let_def)

lemma next_line_line: "NL \<notin> set w \<Longrightarrow> next_line (w @ NL # s) = (w @ [NL], s)"
  by (induction w) auto

definition unlines :: "string list \<Rightarrow> string" where
  "unlines ls = concat (map (\<lambda>l. l @ [NL]) ls)"

lemma unlines_simps [simp]:
  "unlines [] = []" "unlines (l # ls) = l @ NL # unlines ls" "unlines (ks @ ls) = unlines ks @ unlines ls"
  by (simp_all add: unlines_def)

lemma split_on_line: "d \<notin> set w \<Longrightarrow> split_on d (w @ d # s) = w # split_on d s"
  by (induction w) auto

lemma str_lines_line:
  assumes "NL \<notin> set w"
  shows "str_lines (w @ NL # s) = chomp_cr w # str_lines s"
  using assms by (auto simp: str_lines_def split_on_line Let_def)

lemma str_lines_Nil [simp]: "str_lines [] = []"
  by (simp add: str_lines_def)

lemma chomp_cr_id: "w = [] \<or> last w \<noteq> CHR 0x0D \<Longrightarrow> chomp_cr w = w"
  by (auto simp: chomp_cr_def)

lemma str_lines_unlines:
  "(\<And>l. l \<in> set ls \<Longrightarrow> NL \<notin> set l) \<Longrightarrow> str_lines (unlines ls) = map chomp_cr ls"
  by (induction ls) (simp_all add: str_lines_line)

lemma str_lines_no_NL: "l \<in> set (str_lines s) \<Longrightarrow> NL \<notin> set l"
proof -
  assume "l \<in> set (str_lines s)"
  then have "(\<exists>w \<in> set (butlast (split_on NL s)). l = chomp_cr w) \<or> l = last (split_on NL s)"
    by (auto simp: str_lines_def Let_def split: if_splits)
  moreover have "NL \<notin> set (last (split_on NL s))"
    by (rule split_on_no_sep [OF last_in_set]) simp
  moreover have "NL \<notin> set (chomp_cr w)" if "w \<in> set (butlast (split_on NL s))" for w
    using split_on_no_sep [OF in_set_butlastD [OF that]]
    by (auto simp: chomp_cr_def dest: in_set_butlastD)
  ultimately show ?thesis by blast
qed

text \<open>A trimmed line: one that starts and ends with a byte that is no white space.\<close>

lemma str_trim_braces:
  assumes "w = CHR ''{'' # v" and "last w = CHR ''}''"
  shows "str_trim w = w"
proof -
  have "trim_with ws_len w = w"
    by (rule trim_with_stop) (auto simp: assms(1) ws_len_def ascii_ws_def ws2_def ws3_def split: list.splits)
  moreover obtain u where "rev w = CHR ''}'' # u"
    using assms last_rev [of "rev w"] by (cases "rev w") auto
  then have "ws_len_rev (rev w) = 0"
    by (auto simp: ws_len_rev_def ascii_ws_def ws2_def ws3_def split: list.splits)
  then have "trim_with ws_len_rev (rev w) = rev w" by (rule trim_with_stop)
  ultimately show ?thesis by (simp add: str_trim_def)
qed

end
