(* ===== verification/Config.thy ===== *)
theory Config
  imports Complex_Main Fs_View Text
begin

text \<open>
  \<^verbatim>\<open>src/common/config.rs\<close>, the disk threshold of \<^verbatim>\<open>src/common/utils.rs\<close> and \<^verbatim>\<open>live_path.rs\<close>, the
  timer of \<^verbatim>\<open>src/common/watchdog.rs\<close> and the merge of command line, configuration file and
  defaults in \<^verbatim>\<open>src/bin/fsmon/commands/daemon.rs\<close>. The TOML reader, the password database, the
  environment and the number parsers are parameters.
\<close>

section \<open>The configuration\<close>

record cache_config =
  cc_dir_capacity :: "u64 option"
  cc_dir_ttl_secs :: "u64 option"
  cc_file_size_capacity :: "nat option"
  cc_proc_ttl_secs :: "u64 option"
  cc_channel_capacity :: "nat option"
  cc_subscribe_buf :: "nat option"
  cc_buffer_size :: "nat option"

record cli_cache_override =
  co_dir_capacity :: "u64 option"
  co_dir_ttl_secs :: "u64 option"
  co_file_size_capacity :: "nat option"
  co_proc_ttl_secs :: "u64 option"
  co_buffer_size :: "nat option"
  co_channel_capacity :: "nat option"
  co_subscribe_buf :: "nat option"

record resolved_cache =
  rc_dir_capacity :: u64
  rc_dir_ttl_secs :: u64
  rc_file_size_capacity :: nat
  rc_proc_ttl_secs :: u64
  rc_buffer_size :: nat
  rc_channel_capacity :: "nat option"
  rc_subscribe_buf :: nat

record daemon_config =
  dc_debug :: "bool option"
  dc_metrics_interval :: "u64 option"

record watchdog_config =
  wc_interval_secs :: "u64 option"
  wc_multiplier :: "u64 option"

record logging_config =
  lc_path :: "path option"
  lc_keep_days :: "u32 option"
  lc_size :: "string option"
  lc_disk_min_free :: "string option"
  lc_local_time :: "bool option"

record config =
  cf_daemon :: "daemon_config option"
  cf_monitored_path :: path
  cf_logging :: logging_config
  cf_cache :: "cache_config option"
  cf_watchdog :: "watchdog_config option"

definition default_config :: config where
  "default_config =
     \<lparr>cf_daemon = None, cf_monitored_path = path_of ''~/.local/share/fsmon/monitored.jsonl'',
      cf_logging = \<lparr>lc_path = Some (path_of ''~/.local/state/fsmon''), lc_keep_days = None,
        lc_size = None, lc_disk_min_free = None, lc_local_time = None\<rparr>,
      cf_cache = None, cf_watchdog = None\<rparr>"

definition is_comment_only :: "string \<Rightarrow> bool" where
  "is_comment_only s = list_all (\<lambda>l. let t = str_trim l in t = [] \<or> prefix ''#'' t) (str_lines s)"

datatype config_error = ConfigUnreadable | ConfigInvalid string

text \<open>\<open>None\<close> is a missing file, \<open>Some None\<close> one that cannot be read.\<close>

definition load_config ::
  "(string \<Rightarrow> string + config) \<Rightarrow> string option option \<Rightarrow> config_error + config" where
  "load_config from_toml file =
     (case file of
        None \<Rightarrow> Inr default_config
      | Some None \<Rightarrow> Inl ConfigUnreadable
      | Some (Some content) \<Rightarrow>
          if \<not> utf8_ok content then Inl ConfigUnreadable
          else if is_comment_only content then Inr default_config
          else (case from_toml content of Inr cfg \<Rightarrow> Inr cfg | Inl e \<Rightarrow> Inl (ConfigInvalid e)))"

definition expand_path :: "string \<Rightarrow> path \<Rightarrow> path" where
  "expand_path home p = path_of (expand_tilde (path_str p) home)"

definition resolve_paths :: "string \<Rightarrow> config \<Rightarrow> config" where
  "resolve_paths home cfg =
     cfg\<lparr>cf_monitored_path := expand_path home (cf_monitored_path cfg),
         cf_logging := (cf_logging cfg)\<lparr>lc_path := map_option (expand_path home) (lc_path (cf_logging cfg))\<rparr>\<rparr>"

section \<open>Cache settings\<close>

definition default_cache :: resolved_cache where
  "default_cache =
     \<lparr>rc_dir_capacity = 100000, rc_dir_ttl_secs = 3600, rc_file_size_capacity = 10000,
      rc_proc_ttl_secs = 65536, rc_buffer_size = 4096 * 8, rc_channel_capacity = None,
      rc_subscribe_buf = 4096\<rparr>"

definition set_if :: "'a option \<Rightarrow> ('a \<Rightarrow> 'r \<Rightarrow> 'r) \<Rightarrow> 'r \<Rightarrow> 'r" where
  "set_if v f r = (case v of Some x \<Rightarrow> f x r | None \<Rightarrow> r)"

text \<open>The assignments in the order of the code; the configured buffer of subscribers comes twice.\<close>

definition resolve_with_cli :: "cache_config \<Rightarrow> cli_cache_override \<Rightarrow> resolved_cache" where
  "resolve_with_cli c cli =
     (let r = default_cache;
          r = set_if (cc_dir_capacity c) (\<lambda>v r. r\<lparr>rc_dir_capacity := v\<rparr>) r;
          r = set_if (cc_dir_ttl_secs c) (\<lambda>v r. r\<lparr>rc_dir_ttl_secs := v\<rparr>) r;
          r = set_if (cc_file_size_capacity c) (\<lambda>v r. r\<lparr>rc_file_size_capacity := v\<rparr>) r;
          r = set_if (cc_proc_ttl_secs c) (\<lambda>v r. r\<lparr>rc_proc_ttl_secs := v\<rparr>) r;
          r = set_if (cc_channel_capacity c) (\<lambda>v r. r\<lparr>rc_channel_capacity := Some v\<rparr>) r;
          r = set_if (cc_subscribe_buf c) (\<lambda>v r. r\<lparr>rc_subscribe_buf := v\<rparr>) r;
          r = set_if (cc_buffer_size c) (\<lambda>v r. r\<lparr>rc_buffer_size := v\<rparr>) r;
          r = set_if (co_dir_capacity cli) (\<lambda>v r. r\<lparr>rc_dir_capacity := v\<rparr>) r;
          r = set_if (co_dir_ttl_secs cli) (\<lambda>v r. r\<lparr>rc_dir_ttl_secs := v\<rparr>) r;
          r = set_if (co_file_size_capacity cli) (\<lambda>v r. r\<lparr>rc_file_size_capacity := v\<rparr>) r;
          r = set_if (co_proc_ttl_secs cli) (\<lambda>v r. r\<lparr>rc_proc_ttl_secs := v\<rparr>) r;
          r = set_if (co_buffer_size cli) (\<lambda>v r. r\<lparr>rc_buffer_size := v\<rparr>) r;
          r = set_if (co_channel_capacity cli) (\<lambda>v r. r\<lparr>rc_channel_capacity := Some v\<rparr>) r;
          r = set_if (cc_subscribe_buf c) (\<lambda>v r. r\<lparr>rc_subscribe_buf := v\<rparr>) r
      in set_if (co_subscribe_buf cli) (\<lambda>v r. r\<lparr>rc_subscribe_buf := v\<rparr>) r)"

definition empty_cache :: cache_config where
  "empty_cache =
     \<lparr>cc_dir_capacity = None, cc_dir_ttl_secs = None, cc_file_size_capacity = None,
      cc_proc_ttl_secs = None, cc_channel_capacity = None, cc_subscribe_buf = None,
      cc_buffer_size = None\<rparr>"

definition resolve_cache :: "config \<Rightarrow> cli_cache_override \<Rightarrow> resolved_cache" where
  "resolve_cache cfg cli =
     (case cf_cache cfg of Some c \<Rightarrow> resolve_with_cli c cli | None \<Rightarrow> resolve_with_cli empty_cache cli)"

section \<open>Whose files they are\<close>

record user_entry =
  ue_name :: string
  ue_gid :: u32
  ue_home :: string

record identity_env =
  ie_var :: "string \<Rightarrow> string option"
  ie_parse_u32 :: "string \<Rightarrow> u32 option"
  ie_user :: "u32 \<Rightarrow> user_entry option"
  ie_loginuid_text :: "string option"
  ie_owner :: "string \<Rightarrow> (u32 \<times> u32) option"
  ie_euid :: u32
  ie_egid :: u32

definition get_loginuid :: "identity_env \<Rightarrow> u32 option" where
  "get_loginuid env =
     (case ie_loginuid_text env of
        None \<Rightarrow> None
      | Some s \<Rightarrow>
          (case ie_parse_u32 env (str_trim s) of
             None \<Rightarrow> None | Some uid \<Rightarrow> if uid \<noteq> - 1 then Some uid else None))"

definition login_user :: "identity_env \<Rightarrow> (u32 \<times> user_entry) option" where
  "login_user env =
     (case get_loginuid env of
        None \<Rightarrow> None | Some uid \<Rightarrow> map_option (Pair uid) (ie_user env uid))"

definition sudo_uid :: "identity_env \<Rightarrow> u32 option" where
  "sudo_uid env = (case ie_var env ''SUDO_UID'' of None \<Rightarrow> None | Some s \<Rightarrow> ie_parse_u32 env s)"

definition sudo_gid :: "identity_env \<Rightarrow> user_entry \<Rightarrow> u32" where
  "sudo_gid env user =
     (case ie_var env ''SUDO_GID'' of
        None \<Rightarrow> ue_gid user
      | Some s \<Rightarrow> (case ie_parse_u32 env s of Some g \<Rightarrow> g | None \<Rightarrow> ue_gid user))"

text \<open>The steps after \<^verbatim>\<open>SUDO_UID\<close>.\<close>

definition resolve_rest :: "identity_env \<Rightarrow> u32 \<times> u32" where
  "resolve_rest env =
     (case (if ie_euid env = 0 then
              (case ie_var env ''HOME'' of
                 None \<Rightarrow> None | Some home \<Rightarrow> if home \<noteq> ''/root'' then ie_owner env home else None)
            else None) of
        Some owner \<Rightarrow> owner
      | None \<Rightarrow>
          (case login_user env of
             Some (uid, user) \<Rightarrow> (uid, ue_gid user)
           | None \<Rightarrow> (ie_euid env, ie_egid env)))"

definition resolve_uid_gid :: "identity_env \<Rightarrow> u32 \<times> u32" where
  "resolve_uid_gid env =
     (case sudo_uid env of
        None \<Rightarrow> resolve_rest env
      | Some uid \<Rightarrow>
          (case ie_user env uid of
             None \<Rightarrow> resolve_rest env
           | Some user \<Rightarrow>
               (case ie_var env ''SUDO_USER'' of
                  Some name \<Rightarrow>
                    if name = ue_name user then (uid, sudo_gid env user)
                    else
                      (case login_user env of
                         Some (login_uid, user') \<Rightarrow> (login_uid, ue_gid user')
                       | None \<Rightarrow> resolve_rest env)
                | None \<Rightarrow> (uid, sudo_gid env user))))"

datatype home_error = NoUser u32 | NoHome u32

definition resolve_home :: "identity_env \<Rightarrow> u32 \<Rightarrow> home_error + string" where
  "resolve_home env uid =
     (case ie_user env uid of
        None \<Rightarrow> Inl (NoUser uid)
      | Some user \<Rightarrow> if ue_home user = [] then Inl (NoHome uid) else Inr (ue_home user))"

definition home_var :: "identity_env \<Rightarrow> string" where
  "home_var env = (case ie_var env ''HOME'' of Some h \<Rightarrow> h | None \<Rightarrow> ''/root'')"

definition login_home :: "identity_env \<Rightarrow> string" where
  "login_home env =
     (case get_loginuid env of
        None \<Rightarrow> home_var env
      | Some uid \<Rightarrow> (case resolve_home env uid of Inr h \<Rightarrow> h | Inl _ \<Rightarrow> home_var env))"

definition guess_home :: "identity_env \<Rightarrow> string" where
  "guess_home env =
     (case sudo_uid env of
        None \<Rightarrow> home_var env
      | Some uid \<Rightarrow>
          if ie_euid env \<noteq> 0 then home_var env
          else
            (case ie_user env uid of
               None \<Rightarrow> login_home env
             | Some user \<Rightarrow>
                 (case ie_var env ''SUDO_USER'' of
                    Some name \<Rightarrow>
                      if name \<noteq> ue_name user then login_home env
                      else (case resolve_home env uid of Inr h \<Rightarrow> h | Inl _ \<Rightarrow> home_var env)
                  | None \<Rightarrow> (case resolve_home env uid of Inr h \<Rightarrow> h | Inl _ \<Rightarrow> home_var env))))"

definition user_path :: "identity_env \<Rightarrow> path" where
  "user_path env =
     (let home = guess_home env;
          xdg = (if ie_euid env = 0 then home @ ''/.config''
                 else (case ie_var env ''XDG_CONFIG_HOME'' of Some x \<Rightarrow> x | None \<Rightarrow> home @ ''/.config''))
      in path_join (path_join (path_of xdg) [Normal ''fsmon'']) [Normal ''fsmon.toml''])"

section \<open>The disk threshold\<close>

text \<open>A number of the type \<^verbatim>\<open>f64\<close>: a rational, an infinity or not a number.\<close>

datatype f64 = Num rat | Inf bool | NaN

fun f_less :: "f64 \<Rightarrow> f64 \<Rightarrow> bool" where
  "f_less (Num a) (Num b) \<longleftrightarrow> a < b"
| "f_less (Num a) (Inf positive) \<longleftrightarrow> positive"
| "f_less (Inf positive) (Num b) \<longleftrightarrow> \<not> positive"
| "f_less (Inf p) (Inf q) \<longleftrightarrow> \<not> p \<and> q"
| "f_less NaN b \<longleftrightarrow> False"
| "f_less a NaN \<longleftrightarrow> False"

definition f_le_zero :: "f64 \<Rightarrow> bool" where
  "f_le_zero v \<longleftrightarrow> v = Num 0 \<or> f_less v (Num 0)"

datatype disk_threshold = Percent f64 | Bytes u64

datatype threshold_error = BadPercent | PercentRange f64 | BadSize string | NotPositive

record number_parsers =
  np_f64 :: "string \<Rightarrow> f64 option"
  np_size :: "string \<Rightarrow> string + int"

definition parse_disk_min_free :: "number_parsers \<Rightarrow> string \<Rightarrow> threshold_error + disk_threshold" where
  "parse_disk_min_free np s0 =
     (let s = str_trim s0 in
      if s \<noteq> [] \<and> last s = CHR ''%'' then
        (case np_f64 np (str_trim (butlast s)) of
           None \<Rightarrow> Inl BadPercent
         | Some val \<Rightarrow>
             if f_le_zero val \<or> f_less (Num 100) val then Inl (PercentRange val) else Inr (Percent val))
      else
        (case np_size np s of
           Inl e \<Rightarrow> Inl (BadSize e)
         | Inr bytes \<Rightarrow> if bytes \<le> 0 then Inl NotPositive else Inr (Bytes (of_int bytes))))"

datatype disk_report = InvalidThreshold | CannotStat | NoBlocks | LowSpace | SpaceOk

record disk_stat =
  ds_block_size :: u64
  ds_blocks :: u64
  ds_available :: u64

definition check_disk_space ::
  "number_parsers \<Rightarrow> (u64 \<Rightarrow> u64 \<Rightarrow> f64) \<Rightarrow> string \<Rightarrow> disk_stat option \<Rightarrow> disk_report" where
  "check_disk_space np percent_of text st =
     (case parse_disk_min_free np text of
        Inl _ \<Rightarrow> InvalidThreshold
      | Inr threshold \<Rightarrow>
          (case st of
             None \<Rightarrow> CannotStat
           | Some stat \<Rightarrow>
               (let total = ds_blocks stat * ds_block_size stat;
                    free = ds_available stat * ds_block_size stat
                in if total = 0 then NoBlocks
                   else
                     (case threshold of
                        Percent min_pct \<Rightarrow> if f_less (percent_of free total) min_pct then LowSpace else SpaceOk
                      | Bytes min_bytes \<Rightarrow> if free < min_bytes then LowSpace else SpaceOk))))"

section \<open>The daemon's settings\<close>

record watchdog =
  wd_interval :: u64
  wd_enabled :: bool

definition watchdog_new :: "u64 option \<Rightarrow> watchdog" where
  "watchdog_new interval_secs =
     \<lparr>wd_interval = (case interval_secs of Some n \<Rightarrow> n | None \<Rightarrow> 30),
      wd_enabled = (case interval_secs of Some n \<Rightarrow> n > 0 | None \<Rightarrow> False)\<rparr>"

record daemon_options =
  do_debug :: bool
  do_cli_cache :: cli_cache_override
  do_disk_min_free :: "string option"
  do_local_time :: bool
  do_metrics_interval :: "u64 option"
  do_watchdog_interval :: "u64 option"
  do_watchdog_multiplier :: "u64 option"

record daemon_settings =
  st_debug :: bool
  st_cache :: resolved_cache
  st_disk_min_free :: "string option"
  st_local_time :: bool
  st_metrics_interval :: "u64 option"
  st_watchdog_interval :: "u64 option"
  st_watchdog_multiplier :: u64

definition or_else :: "'a option \<Rightarrow> 'a option \<Rightarrow> 'a option" where
  "or_else a b = (case a of Some x \<Rightarrow> Some x | None \<Rightarrow> b)"

definition positive :: "u64 option \<Rightarrow> u64 option" where
  "positive v = (case v of Some n \<Rightarrow> if n > 0 then Some n else None | None \<Rightarrow> None)"

definition merge_settings :: "daemon_options \<Rightarrow> config \<Rightarrow> daemon_settings" where
  "merge_settings opts cfg =
     \<lparr>st_debug = (do_debug opts \<or>
        (case Option.bind (cf_daemon cfg) dc_debug of Some b \<Rightarrow> b | None \<Rightarrow> False)),
      st_cache = resolve_cache cfg (do_cli_cache opts),
      st_disk_min_free = or_else (do_disk_min_free opts) (lc_disk_min_free (cf_logging cfg)),
      st_local_time = (do_local_time opts \<or>
        (case lc_local_time (cf_logging cfg) of Some b \<Rightarrow> b | None \<Rightarrow> False)),
      st_metrics_interval =
        positive (or_else (do_metrics_interval opts) (Option.bind (cf_daemon cfg) dc_metrics_interval)),
      st_watchdog_interval =
        positive (or_else (do_watchdog_interval opts) (Option.bind (cf_watchdog cfg) wc_interval_secs)),
      st_watchdog_multiplier =
        (case or_else (do_watchdog_multiplier opts) (Option.bind (cf_watchdog cfg) wc_multiplier) of
           Some n \<Rightarrow> n | None \<Rightarrow> 2)\<rparr>"

text \<open>The watchdog period that is shown; where overflow is checked the product may panic (\<open>None\<close>).\<close>

definition watchdog_sec :: "bool \<Rightarrow> daemon_settings \<Rightarrow> u64 option option" where
  "watchdog_sec checked st =
     (case st_watchdog_interval st of
        None \<Rightarrow> Some None
      | Some i \<Rightarrow>
          if checked \<and> 2 ^ 64 \<le> unat i * unat (st_watchdog_multiplier st) then None
          else Some (Some (i * st_watchdog_multiplier st)))"

section \<open>What the merge gives\<close>

definition first_of :: "'a option \<Rightarrow> 'a option \<Rightarrow> 'a \<Rightarrow> 'a" where
  "first_of cli file d = (case or_else cli file of Some x \<Rightarrow> x | None \<Rightarrow> d)"

lemma set_if_other: "(\<And>x r. fld (f x r) = fld r) \<Longrightarrow> fld (set_if v f r) = fld r"
  by (simp add: set_if_def split: option.split)

lemma set_if_this: "(\<And>x r. fld (f x r) = g x) \<Longrightarrow> fld (set_if v f r) = (case v of Some x \<Rightarrow> g x | None \<Rightarrow> fld r)"
  by (simp add: set_if_def split: option.split)

lemmas set_if_others =
  set_if_other [where fld = rc_dir_capacity]
  set_if_other [where fld = rc_dir_ttl_secs]
  set_if_other [where fld = rc_file_size_capacity]
  set_if_other [where fld = rc_proc_ttl_secs]
  set_if_other [where fld = rc_buffer_size]
  set_if_other [where fld = rc_channel_capacity]
  set_if_other [where fld = rc_subscribe_buf]

lemmas set_if_these =
  set_if_this [where fld = rc_dir_capacity and g = "\<lambda>x. x"]
  set_if_this [where fld = rc_dir_ttl_secs and g = "\<lambda>x. x"]
  set_if_this [where fld = rc_file_size_capacity and g = "\<lambda>x. x"]
  set_if_this [where fld = rc_proc_ttl_secs and g = "\<lambda>x. x"]
  set_if_this [where fld = rc_buffer_size and g = "\<lambda>x. x"]
  set_if_this [where fld = rc_channel_capacity and g = Some]
  set_if_this [where fld = rc_subscribe_buf and g = "\<lambda>x. x"]

lemma resolve_with_cli_fields:
  "resolve_with_cli c cli =
     \<lparr>rc_dir_capacity = first_of (co_dir_capacity cli) (cc_dir_capacity c) 100000,
      rc_dir_ttl_secs = first_of (co_dir_ttl_secs cli) (cc_dir_ttl_secs c) 3600,
      rc_file_size_capacity = first_of (co_file_size_capacity cli) (cc_file_size_capacity c) 10000,
      rc_proc_ttl_secs = first_of (co_proc_ttl_secs cli) (cc_proc_ttl_secs c) 65536,
      rc_buffer_size = first_of (co_buffer_size cli) (cc_buffer_size c) 32768,
      rc_channel_capacity = or_else (co_channel_capacity cli) (cc_channel_capacity c),
      rc_subscribe_buf = first_of (co_subscribe_buf cli) (cc_subscribe_buf c) 4096\<rparr>"
  unfolding resolve_with_cli_def Let_def default_cache_def
  by (rule resolved_cache.equality)
    (simp_all add: set_if_others set_if_these first_of_def or_else_def split: option.split)

text \<open>
  C35: whose files the daemon works on is decided as the comments promise: the answer is a user of
  the password database named by SUDO_UID, and then SUDO_USER is unset or is that user's name; or
  the login user of the process; or, for root only, the owner of a home directory other than
  /root; or the process's own ids. A SUDO_UID whose SUDO_USER is somebody else's name is not enough.
\<close>

theorem claimed_identity_is_checked:
  "(\<exists>uid user. sudo_uid env = Some uid \<and> ie_user env uid = Some user \<and>
      (ie_var env ''SUDO_USER'' = None \<or> ie_var env ''SUDO_USER'' = Some (ue_name user)) \<and>
      resolve_uid_gid env = (uid, sudo_gid env user)) \<or>
   (\<exists>uid user. login_user env = Some (uid, user) \<and> resolve_uid_gid env = (uid, ue_gid user)) \<or>
   (ie_euid env = 0 \<and> (\<exists>home. ie_var env ''HOME'' = Some home \<and> home \<noteq> ''/root'' \<and>
      ie_owner env home = Some (resolve_uid_gid env))) \<or>
   resolve_uid_gid env = (ie_euid env, ie_egid env)"
proof -
  have rest: "(\<exists>uid user. login_user env = Some (uid, user) \<and> resolve_rest env = (uid, ue_gid user)) \<or>
     (ie_euid env = 0 \<and> (\<exists>home. ie_var env ''HOME'' = Some home \<and> home \<noteq> ''/root'' \<and>
        ie_owner env home = Some (resolve_rest env))) \<or>
     resolve_rest env = (ie_euid env, ie_egid env)"
    by (auto simp: resolve_rest_def split: option.splits if_splits)
  show ?thesis
  proof (cases "resolve_uid_gid env = resolve_rest env")
    case True
    with rest show ?thesis by (simp del: ex_simps)
  next
    case False
    then obtain uid user where u: "sudo_uid env = Some uid" "ie_user env uid = Some user"
      by (auto simp: resolve_uid_gid_def split: option.splits)
    show ?thesis
    proof (cases "ie_var env ''SUDO_USER'' \<in> {None, Some (ue_name user)}")
      case True
      with u show ?thesis by (auto simp: resolve_uid_gid_def)
    next
      case mismatch: False
      with u False show ?thesis
        by (auto simp: resolve_uid_gid_def split: option.splits if_splits)
    qed
  qed
qed

text \<open>
  Every cache setting is the command line's value, or else the configuration file's, or else
  the default, also when the file has no cache section.
\<close>

theorem command_line_over_file_over_default:
  "resolve_cache cfg cli =
     (let c = (case cf_cache cfg of Some c \<Rightarrow> c | None \<Rightarrow> empty_cache) in
      \<lparr>rc_dir_capacity = first_of (co_dir_capacity cli) (cc_dir_capacity c) 100000,
       rc_dir_ttl_secs = first_of (co_dir_ttl_secs cli) (cc_dir_ttl_secs c) 3600,
       rc_file_size_capacity = first_of (co_file_size_capacity cli) (cc_file_size_capacity c) 10000,
       rc_proc_ttl_secs = first_of (co_proc_ttl_secs cli) (cc_proc_ttl_secs c) 65536,
       rc_buffer_size = first_of (co_buffer_size cli) (cc_buffer_size c) 32768,
       rc_channel_capacity = or_else (co_channel_capacity cli) (cc_channel_capacity c),
       rc_subscribe_buf = first_of (co_subscribe_buf cli) (cc_subscribe_buf c) 4096\<rparr>)"
  by (simp add: resolve_cache_def resolve_with_cli_fields split: option.split)

text \<open>A percentage that passes is above 0 and at most 100, or is not a number at all.\<close>

lemma threshold_percent:
  assumes "parse_disk_min_free np s = Inr (Percent v)"
  shows "v = NaN \<or> (\<exists>r. v = Num r \<and> 0 < r \<and> r \<le> 100)"
  using assms
  by (cases v) (auto simp: parse_disk_min_free_def Let_def f_le_zero_def split: if_splits option.splits sum.splits)

lemma nan_never_warns:
  assumes "parse_disk_min_free np s = Inr (Percent NaN)"
  shows "check_disk_space np percent_of s st \<noteq> LowSpace"
proof -
  have "\<not> f_less a NaN" for a by (cases a) simp_all
  then show ?thesis using assms by (simp add: check_disk_space_def Let_def split: option.split)
qed

text \<open>Where the period is shown it is longer than the interval.\<close>

lemma watchdog_period_longer:
  assumes "watchdog_sec True st = Some (Some n)" and "st_watchdog_interval st = Some i" and "0 < i"
    and "1 < st_watchdog_multiplier st"
  shows "i < n"
proof -
  have fit: "unat i * unat (st_watchdog_multiplier st) < 2 ^ 64" and n: "n = i * st_watchdog_multiplier st"
    using assms(1,2) by (auto simp: watchdog_sec_def split: if_splits)
  have "unat n = unat i * unat (st_watchdog_multiplier st)"
    unfolding n unat_word_ariths using fit by simp
  moreover have "0 < unat i" "1 < unat (st_watchdog_multiplier st)"
    using assms(3,4) by (simp_all add: word_less_nat_alt)
  ultimately show ?thesis unfolding word_less_nat_alt by simp
qed

end
