(* ===== verification/Event.thy ===== *)
theory Event
  imports Rust_Path
begin

text \<open>
  \<^verbatim>\<open>src/common.rs\<close> and the log naming of \<^verbatim>\<open>src/common/utils.rs\<close>: the event types with their
  names, the event record, the JSONL line with its local-time patch, and the log file name.
  The JSON reader and writer (serde) are parameters.
\<close>

section \<open>Event types\<close>

datatype event_type =
    Access | Modify | CloseWrite | CloseNowrite | Open | OpenExec | Attrib | Create
  | Delete | DeleteSelf | MovedFrom | MovedTo | MoveSelf | FsError | Rename

definition ALL_types :: "event_type list" where
  "ALL_types = [Access, Modify, CloseWrite, CloseNowrite, Open, OpenExec, Attrib, Create, Delete,
          DeleteSelf, MovedFrom, MovedTo, MoveSelf, FsError]"

fun show_event_type :: "event_type \<Rightarrow> string" where
  "show_event_type Access = ''ACCESS''"
| "show_event_type Modify = ''MODIFY''"
| "show_event_type CloseWrite = ''CLOSE_WRITE''"
| "show_event_type CloseNowrite = ''CLOSE_NOWRITE''"
| "show_event_type Open = ''OPEN''"
| "show_event_type OpenExec = ''OPEN_EXEC''"
| "show_event_type Attrib = ''ATTRIB''"
| "show_event_type Create = ''CREATE''"
| "show_event_type Delete = ''DELETE''"
| "show_event_type DeleteSelf = ''DELETE_SELF''"
| "show_event_type MovedFrom = ''MOVED_FROM''"
| "show_event_type MovedTo = ''MOVED_TO''"
| "show_event_type MoveSelf = ''MOVE_SELF''"
| "show_event_type FsError = ''FS_ERROR''"
| "show_event_type Rename = ''RENAME''"

datatype parse_event_type_error = ParseEventTypeError string

definition parse_event_type :: "string \<Rightarrow> parse_event_type_error + event_type" where
  "parse_event_type s =
     (let u = str_upper s in
      if u = ''ACCESS'' then Inr Access
      else if u = ''MODIFY'' then Inr Modify
      else if u = ''CLOSE_WRITE'' then Inr CloseWrite
      else if u = ''CLOSE_NOWRITE'' then Inr CloseNowrite
      else if u = ''OPEN'' then Inr Open
      else if u = ''OPEN_EXEC'' then Inr OpenExec
      else if u = ''ATTRIB'' then Inr Attrib
      else if u = ''CREATE'' then Inr Create
      else if u = ''DELETE'' then Inr Delete
      else if u = ''DELETE_SELF'' then Inr DeleteSelf
      else if u = ''MOVED_FROM'' then Inr MovedFrom
      else if u = ''MOVED_TO'' then Inr MovedTo
      else if u = ''MOVE_SELF'' then Inr MoveSelf
      else if u = ''FS_ERROR'' then Inr FsError
      else if u = ''RENAME'' then Inr Rename
      else Inl (ParseEventTypeError s))"

lemma str_upper_show [simp]: "str_upper (show_event_type t) = show_event_type t"
  by (cases t; hypsubst; code_simp)

lemma show_event_type_inject: "show_event_type a = show_event_type b \<longleftrightarrow> a = b"
  by (cases a; cases b) simp_all

lemma parse_event_type_upper:
  "parse_event_type s = Inr t \<longleftrightarrow> str_upper s = show_event_type t"
proof -
  have a: "parse_event_type s = Inr t \<Longrightarrow> str_upper s = show_event_type t"
    by (auto simp: parse_event_type_def Let_def split: if_splits)
  have b: "str_upper s = show_event_type t \<Longrightarrow> parse_event_type s = Inr t"
    by (cases t) (simp_all add: parse_event_type_def)
  from a b show ?thesis by blast
qed

lemma parse_event_type_error:
  "parse_event_type s = Inl e \<longleftrightarrow>
     e = ParseEventTypeError s \<and> (\<forall>t. str_upper s \<noteq> show_event_type t)"
proof (cases "parse_event_type s")
  case (Inl e')
  then have "e' = ParseEventTypeError s"
    by (auto simp: parse_event_type_def Let_def split: if_splits)
  moreover have "str_upper s \<noteq> show_event_type t" for t
    using Inl parse_event_type_upper [of s t] by simp
  ultimately show ?thesis using Inl by auto
next
  case (Inr t)
  then show ?thesis using parse_event_type_upper [of s t] by auto
qed

section \<open>Event records\<close>

record chain_link =
  cl_pid :: u32
  cl_comm :: string
  cl_cmd :: string
  cl_user :: string

text \<open>Timestamps are \<^verbatim>\<open>DateTime<Utc>\<close>: an instant, in nanoseconds since the epoch.\<close>

record file_event =
  ev_time :: int
  ev_type :: event_type
  ev_path :: path
  ev_pid :: u32
  ev_comm :: string
  ev_cmd :: string
  ev_user :: string
  ev_file_size :: u64
  ev_ppid :: u32
  ev_tgid :: u32
  ev_chain :: "chain_link list"
  ev_fs_error :: "(i32 \<times> u32) option"

section \<open>The JSONL line\<close>

text \<open>\<^verbatim>\<open>str::find\<close>: the offset of the first occurrence.\<close>

fun str_find :: "string \<Rightarrow> string \<Rightarrow> nat option" where
  "str_find pat [] = (if pat = [] then Some 0 else None)"
| "str_find pat (c # s) =
     (if prefix pat (c # s) then Some 0 else map_option Suc (str_find pat s))"

definition time_key :: string where
  "time_key = CHR 0x22 # ''time'' @ [CHR 0x22, CHR '':'', CHR 0x22]"

definition patch_local_time :: "string \<Rightarrow> string \<Rightarrow> string" where
  "patch_local_time local_time json =
     (case str_find time_key json of
        Some start \<Rightarrow>
          let val_start = start + 8 in
          (case str_find [CHR 0x22] (drop val_start json) of
             Some e \<Rightarrow> take val_start json @ local_time @ drop (val_start + e) json
           | None \<Rightarrow> json)
      | None \<Rightarrow> json)"

definition to_jsonl_string :: "(file_event \<Rightarrow> string) \<Rightarrow> file_event \<Rightarrow> string" where
  "to_jsonl_string to_json ev = to_json ev"

definition to_jsonl_string_local ::
  "(file_event \<Rightarrow> string) \<Rightarrow> (int \<Rightarrow> string) \<Rightarrow> file_event \<Rightarrow> string" where
  "to_jsonl_string_local to_json rfc3339_local ev =
     patch_local_time (rfc3339_local (ev_time ev)) (to_json ev)"

definition parse_log_line_jsonl :: "(string \<Rightarrow> file_event option) \<Rightarrow> string \<Rightarrow> file_event option" where
  "parse_log_line_jsonl from_json line =
     (let trimmed = str_trim line in if trimmed = [] then None else from_json trimmed)"

lemma str_find_char_append: "c \<notin> set v \<Longrightarrow> str_find [c] (v @ c # w) = Some (length v)"
  by (induction v) auto

lemma str_find_head: "str_find pat (pat @ s) = Some 0"
  by (cases "pat @ s") (auto intro: prefixI [OF sym])

section \<open>Log file names\<close>

definition cmd_to_log_name :: "string \<Rightarrow> string" where
  "cmd_to_log_name cmd = str_replace_char CHR ''/'' CHR ''_'' cmd @ ''_log.jsonl''"

lemma cmd_to_log_name_no_slash: "CHR ''/'' \<notin> set (cmd_to_log_name cmd)"
  by (auto simp: cmd_to_log_name_def str_replace_char_def)

lemma cmd_to_log_name_eq:
  "cmd_to_log_name a = cmd_to_log_name b \<longleftrightarrow>
     str_replace_char CHR ''/'' CHR ''_'' a = str_replace_char CHR ''/'' CHR ''_'' b"
  by (simp add: cmd_to_log_name_def)

lemma str_replace_char_absent: "a \<notin> set s \<Longrightarrow> str_replace_char a b s = s"
  by (induction s) (auto simp: str_replace_char_def)

section \<open>Properties\<close>

text \<open>
  Every event type name, in any mixture of ASCII upper and lower case, is read back as the
  type it was printed from; and a string that is read as a type has that name as its upper case.
\<close>

theorem event_type_parse_print:
  "parse_event_type (show_event_type t) = Inr t \<and>
   (parse_event_type s = Inr t \<longleftrightarrow> str_upper s = show_event_type t) \<and>
   (parse_event_type s = Inl e \<longleftrightarrow>
      e = ParseEventTypeError s \<and> (\<forall>u. str_upper s \<noteq> show_event_type u))"
  by (simp add: parse_event_type_upper parse_event_type_error)

text \<open>
  The local-time serialization replaces exactly the value of the time field, which is the
  first of the serialized line, and keeps the rest of the line byte for byte.
\<close>

theorem local_time_patch:
  assumes "to_json ev = CHR ''{'' # time_key @ v @ CHR 0x22 # rest"
    and "CHR 0x22 \<notin> set v"
  shows "to_jsonl_string_local to_json loc ev =
           CHR ''{'' # time_key @ loc (ev_time ev) @ CHR 0x22 # rest"
proof -
  have "str_find time_key (CHR ''{'' # time_key @ x) = Some 1" for x
    using str_find_head [of time_key x] by (simp add: time_key_def)
  moreover have "length time_key = 8" by (simp add: time_key_def)
  moreover from this have "take 9 (CHR ''{'' # time_key @ x) = CHR ''{'' # time_key"
    and "drop 9 (CHR ''{'' # time_key @ x) = x" for x
    by simp_all
  moreover have "drop (9 + length v) (CHR ''{'' # time_key @ v @ x) = x" for x
    using calculation(4) [of "v @ x"] by (metis add.commute append_eq_conv_conj drop_drop)
  ultimately show ?thesis
    using assms str_find_char_append [of "CHR 0x22" v rest]
    by (simp add: to_jsonl_string_local_def patch_local_time_def)
qed

theorem local_time_patch_witness:
  "to_jsonl_string_local (\<lambda>_. CHR ''{'' # time_key @ ''2026'' @ CHR 0x22 # ''}'') (\<lambda>_. ''now'')
     \<lparr>ev_time = 0, ev_type = Create, ev_path = [], ev_pid = 1, ev_comm = [], ev_cmd = [],
      ev_user = [], ev_file_size = 0, ev_ppid = 0, ev_tgid = 0, ev_chain = [], ev_fs_error = None\<rparr>
   = CHR ''{'' # time_key @ ''now'' @ CHR 0x22 # ''}''"
  by (rule local_time_patch [where v = "''2026''"]) simp_all

end
