(* ===== verification/Event_Mask.thy ===== *)
theory Event_Mask
  imports Event
begin

text \<open>
  The mask half of \<^verbatim>\<open>src/common/fid_parser.rs\<close> with \<^verbatim>\<open>PathOptions\<close> of \<^verbatim>\<open>src/common/filters.rs\<close>:
  event types to kernel flags, path options to mark masks, kernel masks to event types. The
  flag values belong to the kernel and come from the \<^verbatim>\<open>fanotify-fid\<close> crate: they are a
  parameter, a record with one field per constant the source imports.
\<close>

section \<open>The kernel constants\<close>

record fan_consts =
  FAN_ACCESS :: u64
  FAN_MODIFY :: u64
  FAN_CLOSE_WRITE :: u64
  FAN_CLOSE_NOWRITE :: u64
  FAN_OPEN :: u64
  FAN_OPEN_EXEC :: u64
  FAN_ATTRIB :: u64
  FAN_CREATE :: u64
  FAN_DELETE :: u64
  FAN_DELETE_SELF :: u64
  FAN_MOVED_FROM :: u64
  FAN_MOVED_TO :: u64
  FAN_MOVE_SELF :: u64
  FAN_FS_ERROR :: u64
  FAN_RENAME :: u64
  FAN_EVENT_ON_CHILD :: u64
  FAN_ONDIR :: u64
  FAN_Q_OVERFLOW :: u64

text \<open>
  What fanotify(7) documents and the code relies on: every constant is a flag of its own, so
  no two share a bit and none is empty.
\<close>

definition fan_bits :: "fan_consts \<Rightarrow> u64 list" where
  "fan_bits K = [FAN_ACCESS K, FAN_MODIFY K, FAN_CLOSE_WRITE K, FAN_CLOSE_NOWRITE K, FAN_OPEN K,
     FAN_OPEN_EXEC K, FAN_ATTRIB K, FAN_CREATE K, FAN_DELETE K, FAN_DELETE_SELF K,
     FAN_MOVED_FROM K, FAN_MOVED_TO K, FAN_MOVE_SELF K, FAN_FS_ERROR K, FAN_RENAME K,
     FAN_EVENT_ON_CHILD K, FAN_ONDIR K, FAN_Q_OVERFLOW K]"

fun disjoint_bits :: "u64 list \<Rightarrow> bool" where
  "disjoint_bits [] = True"
| "disjoint_bits (b # bs) = (b \<noteq> 0 \<and> list_all (\<lambda>c. b AND c = 0) bs \<and> disjoint_bits bs)"

definition fan_ok :: "fan_consts \<Rightarrow> bool" where
  "fan_ok K \<longleftrightarrow> disjoint_bits (fan_bits K)"

text \<open>The values of the Linux headers, used by the witnesses.\<close>

definition linux_fan :: fan_consts where
  "linux_fan = \<lparr>FAN_ACCESS = 0x1, FAN_MODIFY = 0x2, FAN_CLOSE_WRITE = 0x8,
     FAN_CLOSE_NOWRITE = 0x10, FAN_OPEN = 0x20, FAN_OPEN_EXEC = 0x1000, FAN_ATTRIB = 0x4,
     FAN_CREATE = 0x100, FAN_DELETE = 0x200, FAN_DELETE_SELF = 0x400, FAN_MOVED_FROM = 0x40,
     FAN_MOVED_TO = 0x80, FAN_MOVE_SELF = 0x800, FAN_FS_ERROR = 0x8000, FAN_RENAME = 0x10000000,
     FAN_EVENT_ON_CHILD = 0x08000000, FAN_ONDIR = 0x40000000, FAN_Q_OVERFLOW = 0x4000\<rparr>"

lemma linux_fan_ok: "fan_ok linux_fan"
  by (simp add: fan_ok_def fan_bits_def linux_fan_def)

section \<open>Path options\<close>

text \<open>The \<^verbatim>\<open>sizefilter\<close> crate's filter is read through its operator and its byte count.\<close>

datatype size_op = SGt | SGe | SLt | SLe | SEq

record size_filter =
  sf_op :: size_op
  sf_bytes :: i64

record path_options =
  po_size_filter :: "size_filter option"
  po_event_types :: "event_type list option"
  po_recursive :: bool
  po_cmd :: "string option"
  po_max_depth :: "u32 option"

section \<open>Masks\<close>

fun event_type_to_kernel_flag :: "fan_consts \<Rightarrow> event_type \<Rightarrow> u64" where
  "event_type_to_kernel_flag K Access = FAN_ACCESS K"
| "event_type_to_kernel_flag K Modify = FAN_MODIFY K"
| "event_type_to_kernel_flag K CloseWrite = FAN_CLOSE_WRITE K"
| "event_type_to_kernel_flag K CloseNowrite = FAN_CLOSE_NOWRITE K"
| "event_type_to_kernel_flag K Open = FAN_OPEN K"
| "event_type_to_kernel_flag K OpenExec = FAN_OPEN_EXEC K"
| "event_type_to_kernel_flag K Attrib = FAN_ATTRIB K"
| "event_type_to_kernel_flag K Create = FAN_CREATE K"
| "event_type_to_kernel_flag K Delete = FAN_DELETE K"
| "event_type_to_kernel_flag K DeleteSelf = FAN_DELETE_SELF K"
| "event_type_to_kernel_flag K MovedFrom = FAN_MOVED_FROM K"
| "event_type_to_kernel_flag K MovedTo = FAN_MOVED_TO K"
| "event_type_to_kernel_flag K MoveSelf = FAN_MOVE_SELF K"
| "event_type_to_kernel_flag K FsError = FAN_FS_ERROR K"
| "event_type_to_kernel_flag K Rename = FAN_RENAME K"

declare event_type_to_kernel_flag.simps [simp del]

definition default_event_mask :: "fan_consts \<Rightarrow> u64" where
  "default_event_mask K =
     FAN_CLOSE_WRITE K OR FAN_ATTRIB K OR FAN_CREATE K OR FAN_DELETE K OR FAN_DELETE_SELF K
     OR FAN_RENAME K OR FAN_MOVE_SELF K OR FAN_EVENT_ON_CHILD K OR FAN_ONDIR K"

definition path_mask_from_options :: "fan_consts \<Rightarrow> path_options \<Rightarrow> u64" where
  "path_mask_from_options K opts =
     (case po_event_types opts of
        Some types \<Rightarrow>
          if types \<noteq> [] then
            foldl (\<lambda>m t. m OR event_type_to_kernel_flag K t) (FAN_EVENT_ON_CHILD K OR FAN_ONDIR K) types
          else default_event_mask K
      | None \<Rightarrow> default_event_mask K)"

definition mask_bits :: "fan_consts \<Rightarrow> (u64 \<times> event_type) list" where
  "mask_bits K =
     [(FAN_ACCESS K, Access), (FAN_MODIFY K, Modify), (FAN_CLOSE_WRITE K, CloseWrite),
      (FAN_CLOSE_NOWRITE K, CloseNowrite), (FAN_OPEN K, Open), (FAN_OPEN_EXEC K, OpenExec),
      (FAN_ATTRIB K, Attrib), (FAN_CREATE K, Create), (FAN_DELETE K, Delete),
      (FAN_DELETE_SELF K, DeleteSelf), (FAN_MOVED_FROM K, MovedFrom), (FAN_MOVED_TO K, MovedTo),
      (FAN_MOVE_SELF K, MoveSelf), (FAN_FS_ERROR K, FsError), (FAN_RENAME K, Rename)]"

definition mask_to_event_types :: "fan_consts \<Rightarrow> u64 \<Rightarrow> event_type list" where
  "mask_to_event_types K m =
     map snd (filter (\<lambda>(bit, _). m AND bit \<noteq> 0) (mask_bits K))"

text \<open>The or of the masks of several entries, as the fold over \<^verbatim>\<open>monitored_entries\<close> computes it.\<close>

definition or_masks :: "u64 list \<Rightarrow> u64" where
  "or_masks ms = foldl (\<lambda>a b. a OR b) 0 ms"

section \<open>Lemmas\<close>

lemma or_and_zero_iff: "(a OR b) AND c = 0 \<longleftrightarrow> a AND c = 0 \<and> b AND c = (0 :: 'w :: len word)"
  by (auto simp: bit_eq_iff bit_or_iff bit_and_iff)

lemma foldl_or_and_zero_iff:
  "foldl (\<lambda>a b. a OR f b) m xs AND c = 0 \<longleftrightarrow>
     m AND c = 0 \<and> (\<forall>x \<in> set xs. f x AND c = (0 :: 'w :: len word))"
  by (induction xs arbitrary: m) (auto simp: or_and_zero_iff)

lemma disjoint_bits_and:
  "disjoint_bits bs \<Longrightarrow> i < length bs \<Longrightarrow> j < length bs \<Longrightarrow>
     bs ! i AND bs ! j = (if i = j then bs ! i else 0)"
proof (induction bs arbitrary: i j)
  case Nil
  then show ?case by simp
next
  case (Cons b bs)
  have z: "b AND c = 0" if "c \<in> set bs" for c
    using Cons.prems(1) that by (simp add: list_all_iff)
  show ?case
    using Cons.prems Cons.IH [of "i - 1" "j - 1"] z [of "bs ! (i - 1)"] z [of "bs ! (j - 1)"]
    by (auto simp: nth_Cons' and.commute split: if_splits)
qed

lemma disjoint_bits_nonzero: "disjoint_bits bs \<Longrightarrow> b \<in> set bs \<Longrightarrow> b \<noteq> 0"
  by (induction bs) auto

fun flag_index :: "event_type \<Rightarrow> nat" where
  "flag_index Access = 0" | "flag_index Modify = 1" | "flag_index CloseWrite = 2"
| "flag_index CloseNowrite = 3" | "flag_index Open = 4" | "flag_index OpenExec = 5"
| "flag_index Attrib = 6" | "flag_index Create = 7" | "flag_index Delete = 8"
| "flag_index DeleteSelf = 9" | "flag_index MovedFrom = 10" | "flag_index MovedTo = 11"
| "flag_index MoveSelf = 12" | "flag_index FsError = 13" | "flag_index Rename = 14"

lemma flag_index_inject: "flag_index a = flag_index b \<longleftrightarrow> a = b"
  by (cases a; cases b) simp_all

lemma flag_index_bound: "flag_index t < 15"
  by (cases t) simp_all

lemma flag_at_index: "event_type_to_kernel_flag K t = fan_bits K ! flag_index t"
  by (cases t) (simp_all add: fan_bits_def event_type_to_kernel_flag.simps)

lemma length_fan_bits: "length (fan_bits K) = 18"
  by (simp add: fan_bits_def)

lemma flag_and_flag:
  assumes "fan_ok K"
  shows "event_type_to_kernel_flag K a AND event_type_to_kernel_flag K b =
           (if a = b then event_type_to_kernel_flag K a else 0)"
proof -
  have "flag_index a < length (fan_bits K)" "flag_index b < length (fan_bits K)"
    using flag_index_bound [of a] flag_index_bound [of b] by (simp_all add: length_fan_bits)
  then show ?thesis
    using disjoint_bits_and [of "fan_bits K"] assms
    by (simp add: flag_at_index fan_ok_def flag_index_inject)
qed

lemma flag_nonzero: "fan_ok K \<Longrightarrow> event_type_to_kernel_flag K t \<noteq> 0"
  using disjoint_bits_nonzero [of "fan_bits K"] flag_index_bound [of t]
  by (simp add: flag_at_index fan_ok_def length_fan_bits)

lemma special_and_flag:
  assumes "fan_ok K"
  shows "FAN_EVENT_ON_CHILD K AND event_type_to_kernel_flag K t = 0"
    and "FAN_ONDIR K AND event_type_to_kernel_flag K t = 0"
    and "FAN_Q_OVERFLOW K AND event_type_to_kernel_flag K t = 0"
proof -
  have d: "disjoint_bits (fan_bits K)" using assms by (simp add: fan_ok_def)
  have i: "flag_index t < 15" by (rule flag_index_bound)
  have "fan_bits K ! j AND fan_bits K ! flag_index t = 0" if "15 \<le> j" "j < 18" for j
    using disjoint_bits_and [OF d, of j "flag_index t"] i that by (simp add: length_fan_bits)
  from this [of 15] this [of 16] this [of 17]
  show "FAN_EVENT_ON_CHILD K AND event_type_to_kernel_flag K t = 0"
    and "FAN_ONDIR K AND event_type_to_kernel_flag K t = 0"
    and "FAN_Q_OVERFLOW K AND event_type_to_kernel_flag K t = 0"
    by (simp_all add: flag_at_index) (simp_all add: fan_bits_def)
qed

lemma mask_bits_flag: "(b, t) \<in> set (mask_bits K) \<longleftrightarrow> b = event_type_to_kernel_flag K t"
  by (cases t) (auto simp: mask_bits_def event_type_to_kernel_flag.simps)

lemma mask_to_event_types_iff:
  "t \<in> set (mask_to_event_types K m) \<longleftrightarrow> m AND event_type_to_kernel_flag K t \<noteq> 0"
proof -
  have "t \<in> set (mask_to_event_types K m) \<longleftrightarrow> (\<exists>b. (b, t) \<in> set (mask_bits K) \<and> m AND b \<noteq> 0)"
    by (force simp: mask_to_event_types_def)
  then show ?thesis by (simp add: mask_bits_flag)
qed

lemma distinct_mask_to_event_types: "distinct (mask_to_event_types K m)"
proof -
  have "distinct (map snd (mask_bits K))" by (simp add: mask_bits_def)
  then show ?thesis unfolding mask_to_event_types_def by (rule distinct_map_filter)
qed

text \<open>Decoding keeps the order of the table.\<close>

lemma mask_to_event_types_order:
  "mask_to_event_types K m =
     filter (\<lambda>t. t \<in> set (mask_to_event_types K m))
       [Access, Modify, CloseWrite, CloseNowrite, Open, OpenExec, Attrib, Create, Delete,
        DeleteSelf, MovedFrom, MovedTo, MoveSelf, FsError, Rename]"
proof -
  have "filter (\<lambda>(bit, _). m AND bit \<noteq> 0) (mask_bits K) =
      filter (\<lambda>(_, t). t \<in> set (mask_to_event_types K m)) (mask_bits K)"
    by (rule filter_cong [OF refl]) (auto simp: mask_to_event_types_iff mask_bits_flag)
  then have "mask_to_event_types K m =
      map snd (filter (\<lambda>(_, t). t \<in> set (mask_to_event_types K m)) (mask_bits K))"
    by (simp only: mask_to_event_types_def)
  also have "\<dots> = filter (\<lambda>t. t \<in> set (mask_to_event_types K m)) (map snd (mask_bits K))"
    by (simp add: filter_map comp_def case_prod_unfold)
  finally show ?thesis by (simp add: mask_bits_def)
qed

lemma default_mask_types:
  assumes "fan_ok K"
  shows "mask_to_event_types K (default_event_mask K) =
           [CloseWrite, Attrib, Create, Delete, DeleteSelf, MoveSelf, Rename]"
proof -
  let ?S = "[CloseWrite, Attrib, Create, Delete, DeleteSelf, MoveSelf, Rename]"
  have e: "default_event_mask K AND event_type_to_kernel_flag K t \<noteq> 0 \<longleftrightarrow> t \<in> set ?S" for t
    using special_and_flag [OF assms, of t] flag_nonzero [OF assms, of t]
      flag_and_flag [OF assms, of CloseWrite t] flag_and_flag [OF assms, of Attrib t]
      flag_and_flag [OF assms, of Create t] flag_and_flag [OF assms, of Delete t]
      flag_and_flag [OF assms, of DeleteSelf t] flag_and_flag [OF assms, of Rename t]
      flag_and_flag [OF assms, of MoveSelf t]
    by (cases t) (simp_all add: default_event_mask_def or_and_zero_iff event_type_to_kernel_flag.simps)
  have f: "filter (\<lambda>(bit, _). default_event_mask K AND bit \<noteq> 0) (mask_bits K) =
        filter (\<lambda>(_, t). t \<in> set ?S) (mask_bits K)"
  proof (rule filter_cong [OF refl])
    fix x
    assume x: "x \<in> set (mask_bits K)"
    obtain b t where bt: "x = (b, t)" by (cases x)
    with x have "b = event_type_to_kernel_flag K t" by (simp add: mask_bits_flag)
    with e [of t] bt show "(case x of (b, _) \<Rightarrow> default_event_mask K AND b \<noteq> 0) =
        (case x of (_, t) \<Rightarrow> t \<in> set ?S)"
      by (simp only: prod.case)
  qed
  show ?thesis unfolding mask_to_event_types_def f by (simp add: mask_bits_def)
qed

section \<open>Properties\<close>

text \<open>
  C8: Marking a path for a set of event types and decoding the mask the kernel was given
  yields exactly those types, each once, in the order of the decoding table, however they were
  listed; with no types the mask decodes to the seven default types in that order.
\<close>

theorem mask_round_trip:
  assumes "fan_ok K"
  shows "(\<forall>types. po_event_types opts = Some types \<and> types \<noteq> [] \<longrightarrow>
            set (mask_to_event_types K (path_mask_from_options K opts)) = set types \<and>
            mask_to_event_types K (path_mask_from_options K opts) =
              filter (\<lambda>t. t \<in> set types)
                [Access, Modify, CloseWrite, CloseNowrite, Open, OpenExec, Attrib, Create, Delete,
                 DeleteSelf, MovedFrom, MovedTo, MoveSelf, FsError, Rename]) \<and>
         (po_event_types opts = None \<or> po_event_types opts = Some [] \<longrightarrow>
            mask_to_event_types K (path_mask_from_options K opts) =
              [CloseWrite, Attrib, Create, Delete, DeleteSelf, MoveSelf, Rename]) \<and>
         distinct (mask_to_event_types K (path_mask_from_options K opts))"
proof -
  have 1: "set (mask_to_event_types K (path_mask_from_options K opts)) = set types"
    if "po_event_types opts = Some types" "types \<noteq> []" for types
  proof -
    have "path_mask_from_options K opts AND event_type_to_kernel_flag K t = 0 \<longleftrightarrow>
        (\<forall>u \<in> set types. event_type_to_kernel_flag K u AND event_type_to_kernel_flag K t = 0)" for t
      using that special_and_flag [OF assms, of t]
      by (simp add: path_mask_from_options_def foldl_or_and_zero_iff or_and_zero_iff)
    moreover have "event_type_to_kernel_flag K u AND event_type_to_kernel_flag K t = 0 \<longleftrightarrow> u \<noteq> t"
      for u t
      using flag_and_flag [OF assms, of u t] flag_nonzero [OF assms, of u] by auto
    ultimately have "path_mask_from_options K opts AND event_type_to_kernel_flag K t \<noteq> 0 \<longleftrightarrow>
        t \<in> set types" for t
      by blast
    then show ?thesis by (simp only: set_eq_iff mask_to_event_types_iff simp_thms)
  qed
  have 2: "mask_to_event_types K (path_mask_from_options K opts) =
              [CloseWrite, Attrib, Create, Delete, DeleteSelf, MoveSelf, Rename]"
    if "po_event_types opts = None \<or> po_event_types opts = Some []"
    using that default_mask_types [OF assms] by (auto simp: path_mask_from_options_def)
  have 3: "mask_to_event_types K (path_mask_from_options K opts) =
      filter (\<lambda>t. t \<in> set types) [Access, Modify, CloseWrite, CloseNowrite, Open, OpenExec, Attrib, Create, Delete,
        DeleteSelf, MovedFrom, MovedTo, MoveSelf, FsError, Rename]"
    if "po_event_types opts = Some types" "types \<noteq> []" for types
    using mask_to_event_types_order [of K "path_mask_from_options K opts"] 1 [OF that] by simp
  from 1 2 3 distinct_mask_to_event_types show ?thesis by blast
qed

theorem mask_round_trip_witness:
  "mask_to_event_types linux_fan (path_mask_from_options linux_fan
     \<lparr>po_size_filter = None, po_event_types = Some [Rename, Create], po_recursive = True,
      po_cmd = None, po_max_depth = None\<rparr>) = [Create, Rename]"
  using mask_round_trip [OF linux_fan_ok, of "\<lparr>po_size_filter = None,
      po_event_types = Some [Rename, Create], po_recursive = True, po_cmd = None,
      po_max_depth = None\<rparr>"]
  by simp

end
