(* ===== verification/Filters.thy ===== *)
theory Filters
  imports Event_Mask Fs_View Text
begin

text \<open>
  \<^verbatim>\<open>src/common/filters.rs\<close>, \<^verbatim>\<open>src/common/monitor/filtering.rs\<close> and the path matching of
  \<^verbatim>\<open>src/common/monitor/events.rs\<close>: which events an entry lets through, and which watched path an
  event belongs to.
\<close>

definition size_passes :: "size_filter \<Rightarrow> u64 \<Rightarrow> bool" where
  "size_passes f n =
     (case sf_op f of
        SGt \<Rightarrow> n > sf_bytes f
      | SGe \<Rightarrow> n \<ge> sf_bytes f
      | SLt \<Rightarrow> n < sf_bytes f
      | SLe \<Rightarrow> n \<le> sf_bytes f
      | SEq \<Rightarrow> n = sf_bytes f)"

definition should_output :: "path_options option \<Rightarrow> file_event \<Rightarrow> bool" where
  "should_output opts ev =
     (case opts of
        None \<Rightarrow> True
      | Some o' \<Rightarrow>
          if (case po_event_types o' of Some types \<Rightarrow> ev_type ev \<notin> set types | None \<Rightarrow> False)
          then False
          else if (case po_size_filter o' of Some f \<Rightarrow> \<not> size_passes f (ev_file_size ev) | None \<Rightarrow> False)
          then False
          else True)"

section \<open>The watched path of an event\<close>

text \<open>Equality first, then the first watched prefix, then the canonical paths by index.\<close>

fun canonical_match :: "path list \<Rightarrow> path list \<Rightarrow> nat \<Rightarrow> path \<Rightarrow> path option" where
  "canonical_match paths [] i p = None"
| "canonical_match paths (c # cs) i p =
     (if (p = c \<or> starts_with p c) \<and> i < length paths then Some (paths ! i)
      else canonical_match paths cs (Suc i) p)"

definition matching_path :: "path list \<Rightarrow> path list \<Rightarrow> path \<Rightarrow> path option" where
  "matching_path paths canonical_paths p =
     (case find (\<lambda>w. w = p) paths of
        Some w \<Rightarrow> Some w
      | None \<Rightarrow>
          (case find (\<lambda>w. starts_with p w) paths of
             Some w \<Rightarrow> Some w
           | None \<Rightarrow> canonical_match paths canonical_paths 0 p))"

section \<open>Entries\<close>

type_synonym entries = "(path \<times> path_options) list"

definition opts_for_path :: "entries \<Rightarrow> path \<Rightarrow> path_options list" where
  "opts_for_path es p = map snd (filter (\<lambda>(q, _). q = p) es)"

definition first_opt_for_path :: "entries \<Rightarrow> path \<Rightarrow> path_options option" where
  "first_opt_for_path es p = map_option snd (find (\<lambda>(q, _). q = p) es)"

definition path_matches :: "path \<Rightarrow> path \<Rightarrow> bool \<Rightarrow> bool" where
  "path_matches event_path entry_path recursive =
     (if recursive then starts_with event_path entry_path
      else event_path = entry_path \<or> parent event_path = Some entry_path)"

definition collect_matching_entries :: "path \<Rightarrow> entries \<Rightarrow> entries \<Rightarrow> entries" where
  "collect_matching_entries event_path es result =
     result @ filter (\<lambda>(mp, opts). path_matches event_path mp (po_recursive opts)) es"

definition is_path_in_scope_for_opts :: "entries \<Rightarrow> path \<Rightarrow> path_options \<Rightarrow> bool" where
  "is_path_in_scope_for_opts es event_path opts =
     list_ex (\<lambda>(mp, stored).
       if po_cmd stored \<noteq> po_cmd opts \<or> po_recursive stored \<noteq> po_recursive opts then False
       else if po_recursive opts then starts_with event_path mp
       else event_path = mp \<or> parent event_path = Some mp) es"

definition should_output_for_opts :: "file_event \<Rightarrow> path_options \<Rightarrow> bool" where
  "should_output_for_opts ev opts = should_output (Some opts) ev"

section \<open>Lemmas\<close>

lemma should_output_Some:
  "should_output (Some o') ev \<longleftrightarrow>
     (\<forall>types. po_event_types o' = Some types \<longrightarrow> ev_type ev \<in> set types) \<and>
     (\<forall>f. po_size_filter o' = Some f \<longrightarrow> size_passes f (ev_file_size ev))"
  by (auto simp: should_output_def split: option.splits)

lemma canonical_match_Some:
  "canonical_match paths cs i p = Some w \<Longrightarrow>
     \<exists>j < length cs. i + j < length paths \<and> starts_with p (cs ! j) \<and> w = paths ! (i + j)"
proof (induction cs arbitrary: i)
  case Nil
  then show ?case by simp
next
  case (Cons c cs)
  show ?case
  proof (cases "(p = c \<or> starts_with p c) \<and> i < length paths")
    case True
    with Cons.prems show ?thesis by (intro exI [of _ 0]) auto
  next
    case False
    with Cons.prems have "canonical_match paths cs (Suc i) p = Some w" by auto
    from Cons.IH [OF this] obtain j where "j < length cs" "Suc i + j < length paths"
      "starts_with p (cs ! j)" "w = paths ! (Suc i + j)" by blast
    then show ?thesis by (intro exI [of _ "Suc j"]) auto
  qed
qed

lemma canonical_match_None:
  "canonical_match paths cs i p = None \<Longrightarrow> j < length cs \<Longrightarrow> i + j < length paths \<Longrightarrow>
     \<not> starts_with p (cs ! j)"
proof (induction cs arbitrary: i j)
  case (Cons c cs)
  then show ?case
    by (cases j) (auto split: if_splits)
qed simp

lemma path_matches_iff:
  "path_matches e p r \<longleftrightarrow> e = p \<or> parent e = Some p \<or> r \<and> starts_with e p"
  using parent_starts_with by (auto simp: path_matches_def)
  
lemma path_matches_mono: "path_matches e p r \<Longrightarrow> starts_with e p"
  using parent_starts_with by (auto simp: path_matches_def split: if_splits)

lemma set_collect_matching:
  "(p, opts) \<in> set (collect_matching_entries e es res) \<longleftrightarrow>
     (p, opts) \<in> set res \<or> (p, opts) \<in> set es \<and> path_matches e p (po_recursive opts)"
  by (auto simp: collect_matching_entries_def)

lemma in_scope_iff:
  "is_path_in_scope_for_opts es e opts \<longleftrightarrow>
     (\<exists>(p, stored) \<in> set es. po_cmd stored = po_cmd opts \<and>
        po_recursive stored = po_recursive opts \<and> path_matches e p (po_recursive opts))"
  by (auto simp: is_path_in_scope_for_opts_def list_ex_iff path_matches_def)

lemma opts_for_path_set: "set (opts_for_path es p) = {opts. (p, opts) \<in> set es}"
  by (force simp: opts_for_path_def)

section \<open>Properties\<close>

text \<open>
  The watched path found for an event is one of the watched paths; an exactly watched path
  wins, then the first watched prefix, then the path whose canonical form is a prefix; and
  nothing is found only when no watched path and no canonical path is a prefix of the event.
\<close>

theorem matching_path_correct:
  assumes "length canonical_paths = length paths"
  shows "(case matching_path paths canonical_paths p of
            Some w \<Rightarrow>
              w \<in> set paths \<and>
              (p \<in> set paths \<longrightarrow> w = p) \<and>
              (p \<notin> set paths \<and> (\<exists>v \<in> set paths. starts_with p v) \<longrightarrow> starts_with p w) \<and>
              (\<not> (\<exists>v \<in> set paths. starts_with p v) \<longrightarrow>
                 (\<exists>i < length paths. w = paths ! i \<and> starts_with p (canonical_paths ! i)))
          | None \<Rightarrow> \<not> (\<exists>v \<in> set paths \<union> set canonical_paths. starts_with p v))"
proof (cases "find (\<lambda>w. w = p) paths")
  case (Some w)
  then have "w = p" "p \<in> set paths" by (auto dest: find_SomeD)
  with Some show ?thesis by (auto simp: matching_path_def)
next
  case None
  then have np: "p \<notin> set paths" by (auto simp: find_None_iff)
  show ?thesis
  proof (cases "find (\<lambda>w. starts_with p w) paths")
    case (Some w)
    then have "w \<in> set paths" "starts_with p w" by (auto dest: find_SomeD)
    with None Some np show ?thesis by (auto simp: matching_path_def)
  next
    case n2: None
    then have nv: "\<not> (\<exists>v \<in> set paths. starts_with p v)" by (auto simp: find_None_iff)
    have e: "matching_path paths canonical_paths p = canonical_match paths canonical_paths 0 p"
      using None n2 by (simp add: matching_path_def)
    show ?thesis
    proof (cases "canonical_match paths canonical_paths 0 p")
      case c: None
      then have "\<not> starts_with p v" if "v \<in> set canonical_paths" for v
        using that canonical_match_None [OF c] assms by (auto simp: in_set_conv_nth)
      with c e nv show ?thesis by auto
    next
      case (Some w)
      then show ?thesis
        using e np nv canonical_match_Some [OF Some] assms by auto
    qed
  qed
qed

theorem matching_path_correct_witness:
  "matching_path [[RootDir, Normal ''link'']] [[RootDir, Normal ''data'']]
     [RootDir, Normal ''data'', Normal ''f''] = Some [RootDir, Normal ''link''] \<and>
   [RootDir, Normal ''link''] \<in> set [[RootDir, Normal ''link'']]"
proof -
  have "matching_path [[RootDir, Normal ''link'']] [[RootDir, Normal ''data'']]
     [RootDir, Normal ''data'', Normal ''f''] = Some [RootDir, Normal ''link'']"
    by code_simp
  then show ?thesis
    using matching_path_correct [of "[[RootDir, Normal ''data'']]" "[[RootDir, Normal ''link'']]"
      "[RootDir, Normal ''data'', Normal ''f'']"] by simp
qed

text \<open>
  Every entry collected for an event path is in the entry list and covers the path, every
  covering entry is collected, in list order, and the scope check that runs later can never
  reject an event for an entry collected from the same list.
\<close>

theorem collected_entries_in_scope:
  "collect_matching_entries e es [] = filter (\<lambda>(p, opts). path_matches e p (po_recursive opts)) es \<and>
   (\<forall>p opts. (p, opts) \<in> set (collect_matching_entries e es []) \<longrightarrow>
      starts_with e p \<and> is_path_in_scope_for_opts es e opts)"
  by (auto simp: collect_matching_entries_def in_scope_iff dest: path_matches_mono)

theorem collected_entries_in_scope_witness:
  "is_path_in_scope_for_opts
     [([RootDir, Normal ''w''], \<lparr>po_size_filter = None, po_event_types = None,
        po_recursive = True, po_cmd = None, po_max_depth = None\<rparr>)]
     [RootDir, Normal ''w'', Normal ''f'']
     \<lparr>po_size_filter = None, po_event_types = None, po_recursive = True, po_cmd = None,
      po_max_depth = None\<rparr>"
proof -
  let ?o = "\<lparr>po_size_filter = None, po_event_types = None, po_recursive = True, po_cmd = None,
      po_max_depth = None\<rparr> :: path_options"
  let ?w = "[RootDir, Normal ''w'']" and ?e = "[RootDir, Normal ''w'', Normal ''f'']"
  have "(?w, ?o) \<in> set (collect_matching_entries ?e [(?w, ?o)] [])"
    by (simp add: set_collect_matching path_matches_def starts_with_def)
  then show ?thesis using collected_entries_in_scope [of ?e "[(?w, ?o)]"] by blast
qed

end
