(* ===== verification/Store.thy ===== *)
theory Store
  imports Filters
begin

text \<open>
  \<^verbatim>\<open>src/common/monitored.rs\<close>: the monitored-paths store, groups of paths by process name, with
  its edits, its JSONL file and the conversion of an entry to path options. The JSON writer
  and reader and the size parser are parameters. The store interprets the key-value interface
  with the pair of process name and path as key.
\<close>

definition CMD_GLOBAL :: string where
  "CMD_GLOBAL = ''_global''"

record path_params =
  pp_recursive :: "bool option"
  pp_types :: "string list option"
  pp_size :: "string option"
  pp_max_depth :: "u32 option"

record cmd_group =
  cg_cmd :: string
  cg_paths :: "(path, path_params) btree"

type_synonym monitored = "cmd_group list"

record path_entry =
  pe_cmd :: "string option"
  pe_path :: path
  pe_recursive :: "bool option"
  pe_types :: "string list option"
  pe_size :: "string option"
  pe_max_depth :: "u32 option"
  pe_symlink_target :: "path option"

section \<open>Entry to path options\<close>

datatype entry_error = SizeError string | TypeError parse_event_type_error

text \<open>A size with no operator means at least that size.\<close>

definition size_text :: "string \<Rightarrow> string" where
  "size_text s0 =
     (let s = str_trim s0 in
      if prefix ''>='' s \<or> prefix ''<='' s \<or> prefix ''>'' s \<or> prefix ''<'' s \<or> prefix ''='' s
      then s else ''>='' @ s)"

fun parse_types :: "string list \<Rightarrow> parse_event_type_error + event_type list" where
  "parse_types [] = Inr []"
| "parse_types (s # ss) =
     (case parse_event_type s of
        Inl e \<Rightarrow> Inl e
      | Inr t \<Rightarrow> (case parse_types ss of Inl e \<Rightarrow> Inl e | Inr ts \<Rightarrow> Inr (t # ts)))"

definition entry_cmd :: "string option \<Rightarrow> string option" where
  "entry_cmd c = (case c of None \<Rightarrow> None | Some n \<Rightarrow> if n = CMD_GLOBAL then None else Some n)"

definition try_from_entry ::
  "(string \<Rightarrow> string + size_filter) \<Rightarrow> path_entry \<Rightarrow> entry_error + path_options" where
  "try_from_entry parse_sf e =
     (case (case pe_size e of
              None \<Rightarrow> Inr None
            | Some s \<Rightarrow> (case parse_sf (size_text s) of Inl m \<Rightarrow> Inl (SizeError m) | Inr f \<Rightarrow> Inr (Some f))) of
        Inl err \<Rightarrow> Inl err
      | Inr size_filter \<Rightarrow>
          (case (case pe_types e of
                   None \<Rightarrow> Inr None
                 | Some v \<Rightarrow> (case parse_types v of Inl m \<Rightarrow> Inl (TypeError m) | Inr ts \<Rightarrow> Inr (Some ts))) of
             Inl err \<Rightarrow> Inl err
           | Inr event_types \<Rightarrow>
               Inr \<lparr>po_size_filter = size_filter, po_event_types = event_types,
                    po_recursive = (case pe_recursive e of Some b \<Rightarrow> b | None \<Rightarrow> False),
                    po_cmd = entry_cmd (pe_cmd e), po_max_depth = pe_max_depth e\<rparr>))"

definition params_of_entry :: "path_entry \<Rightarrow> path_params" where
  "params_of_entry e =
     \<lparr>pp_recursive = pe_recursive e, pp_types = pe_types e, pp_size = pe_size e,
      pp_max_depth = pe_max_depth e\<rparr>"

section \<open>Edits\<close>

definition detect_symlink_target :: "fs_view \<Rightarrow> path \<Rightarrow> path option" where
  "detect_symlink_target fs p =
     (case fs_is_symlink fs p of
        None \<Rightarrow> None
      | Some b \<Rightarrow> if b then fs_canonicalize fs p else None)"

definition entry_of :: "fs_view \<Rightarrow> string \<Rightarrow> path \<Rightarrow> path_params \<Rightarrow> path_entry" where
  "entry_of fs cmd p v =
     \<lparr>pe_cmd = Some cmd, pe_path = p, pe_recursive = pp_recursive v, pe_types = pp_types v,
      pe_size = pp_size v, pe_max_depth = pp_max_depth v,
      pe_symlink_target = detect_symlink_target fs p\<rparr>"

definition validate :: "monitored \<Rightarrow> bool \<times> monitored" where
  "validate gs =
     (list_ex (\<lambda>g. cg_paths g = []) gs, filter (\<lambda>g. cg_paths g \<noteq> []) gs)"

definition flatten :: "fs_view \<Rightarrow> monitored \<Rightarrow> path_entry list" where
  "flatten fs gs =
     concat (map (\<lambda>g. map (\<lambda>(p, v). entry_of fs (cg_cmd g) p v) (cg_paths g)) gs)"

definition cmd_or_global :: "string option \<Rightarrow> string" where
  "cmd_or_global c = (case c of Some n \<Rightarrow> n | None \<Rightarrow> CMD_GLOBAL)"

fun insert_in_group :: "string \<Rightarrow> path \<Rightarrow> path_params \<Rightarrow> monitored \<Rightarrow> monitored" where
  "insert_in_group cmd p v [] = [\<lparr>cg_cmd = cmd, cg_paths = bt_insert p v []\<rparr>]"
| "insert_in_group cmd p v (g # gs) =
     (if cg_cmd g = cmd then g\<lparr>cg_paths := bt_insert p v (cg_paths g)\<rparr> # gs
      else g # insert_in_group cmd p v gs)"

definition add_entry :: "path_entry \<Rightarrow> monitored \<Rightarrow> monitored" where
  "add_entry e gs =
     insert_in_group (cmd_or_global (pe_cmd e)) (pe_path e) (params_of_entry e) gs"

definition remove_entry :: "path \<Rightarrow> string option \<Rightarrow> monitored \<Rightarrow> bool \<times> monitored" where
  "remove_entry p cmd gs =
     (let target = cmd_or_global cmd;
          removed = list_ex (\<lambda>g. cg_cmd g = target \<and> bt_get (cg_paths g) p \<noteq> None) gs;
          gs' = map (\<lambda>g. if cg_cmd g \<noteq> target then g
                         else g\<lparr>cg_paths := bt_remove p (cg_paths g)\<rparr>) gs
      in (removed, filter (\<lambda>g. cg_paths g \<noteq> []) gs'))"

fun lookup_params :: "monitored \<Rightarrow> string \<Rightarrow> path \<Rightarrow> path_params option" where
  "lookup_params [] target p = None"
| "lookup_params (g # gs) target p =
     (if cg_cmd g \<noteq> target then lookup_params gs target p
      else (case bt_get (cg_paths g) p of
              Some v \<Rightarrow> Some v
            | None \<Rightarrow> lookup_params gs target p))"

definition get_entry :: "fs_view \<Rightarrow> monitored \<Rightarrow> path \<Rightarrow> string option \<Rightarrow> path_entry option" where
  "get_entry fs gs p cmd =
     map_option (entry_of fs (cmd_or_global cmd) p) (lookup_params gs (cmd_or_global cmd) p)"

definition store_is_empty :: "monitored \<Rightarrow> bool" where
  "store_is_empty gs \<longleftrightarrow> gs = [] \<or> list_all (\<lambda>g. cg_paths g = []) gs"

definition entry_count :: "monitored \<Rightarrow> nat" where
  "entry_count gs = sum_list (map (\<lambda>g. length (cg_paths g)) gs)"

definition remove_cmd_group :: "string option \<Rightarrow> monitored \<Rightarrow> bool \<times> monitored" where
  "remove_cmd_group cmd gs =
     (let target = cmd_or_global cmd;
          gs' = filter (\<lambda>g. cg_cmd g \<noteq> target) gs
      in (length gs' < length gs, gs'))"

definition has_entry :: "monitored \<Rightarrow> path \<Rightarrow> string option \<Rightarrow> bool" where
  "has_entry gs p cmd =
     list_ex (\<lambda>g. cg_cmd g = cmd_or_global cmd \<and> bt_get (cg_paths g) p \<noteq> None) gs"

section \<open>The store file\<close>

datatype load_error = OpenFailed | ReadFailed | InvalidJson string

fun parse_groups :: "(string \<Rightarrow> cmd_group option) \<Rightarrow> string list \<Rightarrow> load_error + cmd_group list" where
  "parse_groups from_json [] = Inr []"
| "parse_groups from_json (l # ls) =
     (if \<not> utf8_ok l then Inl ReadFailed
      else
     (let trimmed = str_trim l in
      if trimmed = [] then parse_groups from_json ls
      else (case from_json trimmed of
              None \<Rightarrow> Inl (InvalidJson trimmed)
            | Some g \<Rightarrow>
                (case parse_groups from_json ls of Inl e \<Rightarrow> Inl e | Inr gs \<Rightarrow> Inr (g # gs)))))"

text \<open>\<open>None\<close> is a missing file, \<open>Some None\<close> one that cannot be opened.\<close>

definition load_store ::
  "(string \<Rightarrow> cmd_group option) \<Rightarrow> string option option \<Rightarrow> load_error + monitored" where
  "load_store from_json file =
     (case file of
        None \<Rightarrow> Inr []
      | Some None \<Rightarrow> Inl OpenFailed
      | Some (Some text) \<Rightarrow>
          (case parse_groups from_json (str_lines text) of
             Inl e \<Rightarrow> Inl e
           | Inr gs \<Rightarrow> Inr (snd (validate gs))))"

text \<open>
  \<open>save_store\<close> runs against a file table with an oracle for each system call: the steps are
  those of the code, and an error returns the table as the failed step left it.
\<close>

record save_env =
  sv_mkdir_ok :: bool
  sv_create_ok :: bool
  sv_write_ok :: "nat \<Rightarrow> bool"
  sv_sync_ok :: bool
  sv_rename_ok :: bool

datatype save_error =
  NoParent | MkdirFailed | CreateFailed | SerializeFailed | WriteFailed | SyncFailed | RenameFailed

text \<open>
  A line per group; \<open>None\<close> is no error. Serialising a group may fail (\<open>to_json\<close>), as it does for a
  path that is not UTF-8, and writing its line may.
\<close>

fun write_groups ::
  "(cmd_group \<Rightarrow> string option) \<Rightarrow> (nat \<Rightarrow> bool) \<Rightarrow> path \<Rightarrow> nat \<Rightarrow> cmd_group list \<Rightarrow> files \<Rightarrow>
     save_error option \<times> files" where
  "write_groups to_json w tmp i [] fl = (None, fl)"
| "write_groups to_json w tmp i (g # gs) fl =
     (case to_json g of
        None \<Rightarrow> (Some SerializeFailed, fl)
      | Some line \<Rightarrow>
          if w i then
            write_groups to_json w tmp (Suc i) gs
              (fl(tmp \<mapsto> (case fl tmp of Some t \<Rightarrow> t | None \<Rightarrow> []) @ line @ [CHR 0x0A]))
          else (Some WriteFailed, fl))"

definition save_store ::
  "(cmd_group \<Rightarrow> string option) \<Rightarrow> save_env \<Rightarrow> path \<Rightarrow> monitored \<Rightarrow> files \<Rightarrow> (save_error + unit) \<times> files" where
  "save_store to_json env p gs fl =
     (if parent p = None then (Inl NoParent, fl)
      else if \<not> sv_mkdir_ok env then (Inl MkdirFailed, fl)
      else
        (let tmp = with_extension p ''tmp'' in
         if \<not> sv_create_ok env then (Inl CreateFailed, fl)
         else
           (case write_groups to_json (sv_write_ok env) tmp 0 gs (fl(tmp \<mapsto> [])) of
              (Some e, fl') \<Rightarrow> (Inl e, fl')
            | (None, fl') \<Rightarrow>
                if \<not> sv_sync_ok env then (Inl SyncFailed, fl')
                else if \<not> sv_rename_ok env then (Inl RenameFailed, fl')
                else (Inr (), (fl'(p := fl' tmp))(tmp := if tmp = p then fl' tmp else None)))))"

definition store_text :: "(cmd_group \<Rightarrow> string option) \<Rightarrow> monitored \<Rightarrow> string" where
  "store_text to_json gs =
     concat (map (\<lambda>g. case to_json g of None \<Rightarrow> [] | Some line \<Rightarrow> line @ [CHR 0x0A]) gs)"

section \<open>Well-formed stores\<close>

definition groups_ok :: "monitored \<Rightarrow> bool" where
  "groups_ok gs \<longleftrightarrow> list_all (\<lambda>g. bt_ok (cg_paths g)) gs"

definition store_wf :: "monitored \<Rightarrow> bool" where
  "store_wf gs \<longleftrightarrow> groups_ok gs \<and> distinct (map cg_cmd gs) \<and> list_all (\<lambda>g. cg_paths g \<noteq> []) gs"

definition store_lookup :: "monitored \<Rightarrow> string \<times> path \<Rightarrow> path_params option" where
  "store_lookup gs k = lookup_params gs (fst k) (snd k)"

definition store_put :: "string \<times> path \<Rightarrow> path_params \<Rightarrow> monitored \<Rightarrow> monitored" where
  "store_put k v gs =
     add_entry \<lparr>pe_cmd = Some (fst k), pe_path = snd k, pe_recursive = pp_recursive v,
       pe_types = pp_types v, pe_size = pp_size v, pe_max_depth = pp_max_depth v,
       pe_symlink_target = None\<rparr> gs"

definition store_del :: "string \<times> path \<Rightarrow> monitored \<Rightarrow> monitored" where
  "store_del k gs = snd (remove_entry (snd k) (Some (fst k)) gs)"

definition store_entries :: "monitored \<Rightarrow> ((string \<times> path) \<times> path_params) list" where
  "store_entries gs = concat (map (\<lambda>g. map (\<lambda>(p, v). ((cg_cmd g, p), v)) (cg_paths g)) gs)"

lemma add_entry_put:
  "add_entry e gs = store_put (cmd_or_global (pe_cmd e), pe_path e) (params_of_entry e) gs"
  by (simp add: add_entry_def store_put_def params_of_entry_def cmd_or_global_def)

lemma store_put_insert: "store_put k v gs = insert_in_group (fst k) (snd k) v gs"
  by (cases v) (simp add: store_put_def add_entry_def params_of_entry_def cmd_or_global_def)

lemma lookup_insert:
  "lookup_params (insert_in_group c p v gs) c' p' =
     (if c' = c \<and> p' = p then Some v else lookup_params gs c' p')"
  by (induction c p v gs rule: insert_in_group.induct) 
    (auto simp: bt_get_insert split: option.splits)

lemma lookup_remove:
  "lookup_params (snd (remove_entry p cmd gs)) c' p' =
     (if c' = cmd_or_global cmd \<and> p' = p then None else lookup_params gs c' p')"
proof -
  have drop_empty: "lookup_params (filter (\<lambda>g. cg_paths g \<noteq> []) hs) c' p' = lookup_params hs c' p'" for hs
    by (induction hs) (auto split: option.splits)
  have "lookup_params (map (\<lambda>g. if cg_cmd g \<noteq> t then g
      else g\<lparr>cg_paths := bt_remove p (cg_paths g)\<rparr>) gs) c' p' =
      (if c' = t \<and> p' = p then None else lookup_params gs c' p')" for t
    by (induction gs) (auto simp: bt_get_remove split: option.splits)
  then show ?thesis by (simp add: remove_entry_def Let_def drop_empty)
qed

lemma has_entry_lookup: "has_entry gs p cmd \<longleftrightarrow> lookup_params gs (cmd_or_global cmd) p \<noteq> None"
  by (induction gs) (auto simp: has_entry_def split: option.splits)

lemma remove_entry_found: "fst (remove_entry p cmd gs) \<longleftrightarrow> has_entry gs p cmd"
  by (simp add: remove_entry_def has_entry_def Let_def)

lemma groups_ok_insert: "groups_ok gs \<Longrightarrow> groups_ok (insert_in_group c p v gs)"
  by (induction c p v gs rule: insert_in_group.induct)
    (auto simp: groups_ok_def bt.ok_put bt_ok_insert [of "[]", simplified])

lemma cmds_insert: "set (map cg_cmd (insert_in_group c p v gs)) = insert c (set (map cg_cmd gs))"
  by (induction c p v gs rule: insert_in_group.induct) auto

lemma distinct_cmds_insert:
  "distinct (map cg_cmd gs) \<Longrightarrow> distinct (map cg_cmd (insert_in_group c p v gs))"
proof (induction c p v gs rule: insert_in_group.induct)
  case (2 cmd p v g gs)
  then show ?case using cmds_insert [of cmd p v gs] by auto
qed simp

lemma bt_insert_not_Nil [simp]: "bt_insert k v m \<noteq> []"
  by (cases m) (auto split: if_splits)

lemma nonempty_insert:
  "list_all (\<lambda>g. cg_paths g \<noteq> []) gs \<Longrightarrow>
     list_all (\<lambda>g. cg_paths g \<noteq> []) (insert_in_group c p v gs)"
  by (induction c p v gs rule: insert_in_group.induct) auto

lemma groups_ok_remove: "groups_ok gs \<Longrightarrow> groups_ok (snd (remove_entry p cmd gs))"
  by (auto simp: groups_ok_def remove_entry_def Let_def list_all_iff bt_ok_remove)

lemma store_wf_insert: "store_wf gs \<Longrightarrow> store_wf (insert_in_group c p v gs)"
  by (simp add: store_wf_def groups_ok_insert distinct_cmds_insert nonempty_insert)

lemma store_wf_remove: "store_wf gs \<Longrightarrow> store_wf (snd (remove_entry p cmd gs))"
proof -
  assume wf: "store_wf gs"
  let ?f = "\<lambda>g. if cg_cmd g \<noteq> cmd_or_global cmd then g
      else g\<lparr>cg_paths := bt_remove p (cg_paths g)\<rparr>"
  have m: "map cg_cmd (map ?f gs) = map cg_cmd gs" by auto
  have "distinct (map cg_cmd (map ?f gs))"
    unfolding m using wf by (simp add: store_wf_def)
  then have "distinct (map cg_cmd (filter (\<lambda>g. cg_paths g \<noteq> []) (map ?f gs)))"
    by (rule distinct_map_filter)
  moreover have "list_all (\<lambda>g. cg_paths g \<noteq> []) (filter (\<lambda>g. cg_paths g \<noteq> []) (map ?f gs))"
    by (simp add: list_all_iff)
  ultimately show "store_wf (snd (remove_entry p cmd gs))"
    using wf groups_ok_remove [of gs p cmd] by (simp add: store_wf_def remove_entry_def Let_def)
qed

text \<open>
  The laws hold for any loaded store, also when two lines of the file name the same process;
  walking the entries needs the names to be distinct.
\<close>

interpretation any_store: dict store_lookup store_put store_del groups_ok
proof
  fix gs :: monitored and k :: "string \<times> path" and v :: path_params
  assume ok: "groups_ok gs"
  show "store_lookup (store_put k v gs) = (\<lambda>x. if x = k then Some v else store_lookup gs x)"
    by (rule ext) (simp add: store_lookup_def store_put_insert lookup_insert prod_eq_iff)
  show "store_lookup (store_del k gs) = (\<lambda>x. if x = k then None else store_lookup gs x)"
    by (rule ext)
      (simp add: store_lookup_def store_del_def lookup_remove cmd_or_global_def prod_eq_iff)
  show "groups_ok (store_put k v gs)" using ok by (simp add: store_put_insert groups_ok_insert)
  show "groups_ok (store_del k gs)" using ok by (simp add: store_del_def groups_ok_remove)
qed

lemma lookup_absent_cmd: "c \<notin> set (map cg_cmd gs) \<Longrightarrow> lookup_params gs c p = None"
  by (induction gs) auto

lemma store_entries_iff:
  "store_wf gs \<Longrightarrow> ((c, p), v) \<in> set (store_entries gs) \<longleftrightarrow> lookup_params gs c p = Some v"
proof (induction gs)
  case Nil
  then show ?case by (simp add: store_entries_def)
next
  case (Cons g gs)
  then have wf: "store_wf gs" and ok: "bt_ok (cg_paths g)" and nin: "cg_cmd g \<notin> set (map cg_cmd gs)"
    by (auto simp: store_wf_def groups_ok_def)
  have "((c, p), v) \<in> set (store_entries (g # gs)) \<longleftrightarrow>
      c = cg_cmd g \<and> (p, v) \<in> set (cg_paths g) \<or> ((c, p), v) \<in> set (store_entries gs)"
    by (auto simp: store_entries_def)
  also have "\<dots> \<longleftrightarrow> c = cg_cmd g \<and> bt_get (cg_paths g) p = Some v \<or> lookup_params gs c p = Some v"
    using Cons.IH [OF wf] bt.entries_iff [OF ok, of p v] by simp
  also have "\<dots> \<longleftrightarrow> lookup_params (g # gs) c p = Some v"
    using lookup_absent_cmd [OF nin] by (auto split: option.splits)
  finally show ?case .
qed

lemma store_entries_distinct: "store_wf gs \<Longrightarrow> distinct (map fst (store_entries gs))"
proof (induction gs)
  case Nil
  then show ?case by (simp add: store_entries_def)
next
  case (Cons g gs)
  then have wf: "store_wf gs" and ok: "bt_ok (cg_paths g)" and nin: "cg_cmd g \<notin> set (map cg_cmd gs)"
    by (auto simp: store_wf_def groups_ok_def)
  let ?h = "map (\<lambda>(p, v). ((cg_cmd g, p), v)) (cg_paths g)"
  have "map fst ?h = map (Pair (cg_cmd g)) (map fst (cg_paths g))" by auto
  then have "distinct (map fst ?h)"
    using bt_ok_distinct [OF ok] by (simp add: distinct_map inj_on_def)
  moreover have "fst ` set ?h \<inter> fst ` set (store_entries gs) = {}"
  proof -
    have a: "fst x \<in> set (map cg_cmd gs)" if "x \<in> fst ` set (store_entries gs)" for x
      using that by (auto simp: store_entries_def)
    have b: "fst x = cg_cmd g" if "x \<in> fst ` set ?h" for x
      using that by auto
    show ?thesis unfolding disjoint_iff using a b nin by metis
  qed
  moreover have "map fst (store_entries (g # gs)) = map fst ?h @ map fst (store_entries gs)"
    by (simp add: store_entries_def)
  ultimately show ?case
    using Cons.IH [OF wf] by (simp only: distinct_append set_map)
qed

interpretation wf_store: entry_dict store_lookup store_put store_del store_wf store_entries
proof unfold_locales
  fix gs :: monitored and k :: "string \<times> path" and v :: path_params
  assume wf: "store_wf gs"
  then have ok: "groups_ok gs" by (simp add: store_wf_def)
  show "store_lookup (store_put k v gs) = (\<lambda>x. if x = k then Some v else store_lookup gs x)"
    by (rule any_store.get_put [OF ok])
  show "store_lookup (store_del k gs) = (\<lambda>x. if x = k then None else store_lookup gs x)"
    by (rule any_store.get_del [OF ok])
  show "store_wf (store_put k v gs)" using wf by (simp add: store_put_insert store_wf_insert)
  show "store_wf (store_del k gs)" using wf by (simp add: store_del_def store_wf_remove)
  show "distinct (map fst (store_entries gs))" by (rule store_entries_distinct [OF wf])
  obtain c p where k: "k = (c, p)" by (cases k)
  show "(k, v) \<in> set (store_entries gs) \<longleftrightarrow> store_lookup gs k = Some v"
    unfolding k store_lookup_def fst_conv snd_conv by (rule store_entries_iff [OF wf])
qed

lemma entry_count_entries: "entry_count gs = length (store_entries gs)"
  by (simp add: entry_count_def store_entries_def length_concat comp_def)

lemma flatten_entries: "flatten fs gs = map (\<lambda>((c, p), v). entry_of fs c p v) (store_entries gs)"
  by (induction gs) (auto simp: flatten_def store_entries_def)


lemma store_wf_remove_group: "store_wf gs \<Longrightarrow> store_wf (snd (remove_cmd_group cmd gs))"
  by (auto simp: store_wf_def groups_ok_def remove_cmd_group_def Let_def list_all_iff
      intro: distinct_map_filter)

lemma lookup_remove_group:
  "lookup_params (snd (remove_cmd_group cmd gs)) c p =
     (if c = cmd_or_global cmd then None else lookup_params gs c p)"
proof -
  have "lookup_params (filter (\<lambda>g. cg_cmd g \<noteq> t) gs) c p =
      (if c = t then None else lookup_params gs c p)" for t
    by (induction gs) (auto split: option.splits)
  then show ?thesis by (simp add: remove_cmd_group_def Let_def)
qed

section \<open>Lemmas on the file\<close>

text \<open>
  What the code relies on in serde_json for the groups it stores: a group that can be serialised
  is one object per line, read back as the same group.
\<close>

definition json_object :: "string \<Rightarrow> bool" where
  "json_object s \<longleftrightarrow>
     utf8_ok s \<and> CHR 0x0A \<notin> set s \<and> s \<noteq> [] \<and> hd s = CHR ''{'' \<and> last s = CHR ''}''"

definition json_round_trip ::
  "(cmd_group \<Rightarrow> string option) \<Rightarrow> (string \<Rightarrow> cmd_group option) \<Rightarrow> cmd_group list \<Rightarrow> bool" where
  "json_round_trip to_json from_json gs \<longleftrightarrow>
     list_all (\<lambda>g. case to_json g of
        None \<Rightarrow> True | Some s \<Rightarrow> from_json s = Some g \<and> json_object s) gs"

lemma parse_store_text:
  assumes "json_round_trip to_json from_json gs" and "list_all (\<lambda>g. to_json g \<noteq> None) gs"
  shows "parse_groups from_json (str_lines (store_text to_json gs)) = Inr gs"
  using assms
proof (induction gs)
  case Nil
  then show ?case by (simp add: store_text_def)
next
  case (Cons g gs)
  then obtain l where l: "to_json g = Some l" "from_json l = Some g" "json_object l"
    and ih: "parse_groups from_json (str_lines (store_text to_json gs)) = Inr gs"
    by (auto simp: json_round_trip_def)
  then have obj: "utf8_ok l" "CHR 0x0A \<notin> set l" "l \<noteq> []" "hd l = CHR ''{''" "last l = CHR ''}''"
    by (simp_all add: json_object_def)
  have "str_trim l = l" using str_trim_braces [of l "tl l"] obj by (cases l) auto
  moreover have "str_lines (store_text to_json (g # gs)) = l # str_lines (store_text to_json gs)"
    using str_lines_line [OF obj(2), of "store_text to_json gs"] obj l
    by (simp add: store_text_def chomp_cr_id)
  ultimately show ?case using l obj ih by (simp add: Let_def)
qed

lemma write_groups_other:
  "q \<noteq> tmp \<Longrightarrow> write_groups to_json w tmp i gs fl = (b, fl') \<Longrightarrow> fl' q = fl q"
  by (induction to_json w tmp i gs fl rule: write_groups.induct) (auto split: if_splits option.splits)

lemma write_groups_text:
  "write_groups to_json w tmp i gs fl = (None, fl') \<Longrightarrow> fl tmp = Some t \<Longrightarrow>
     fl' tmp = Some (t @ store_text to_json gs) \<and> list_all (\<lambda>g. to_json g \<noteq> None) gs"
  by (induction to_json w tmp i gs fl arbitrary: t rule: write_groups.induct)
    (auto simp: store_text_def split: if_splits option.splits)

lemma save_then_load:
  assumes "with_extension p ''tmp'' \<noteq> p"
    and "json_round_trip to_json from_json gs"
    and "list_all (\<lambda>g. cg_paths g \<noteq> []) gs"
    and "save_store to_json env p gs fl = (r, fl')"
  shows "(\<forall>e. r = Inl e \<longrightarrow> fl' p = fl p) \<and>
         (r = Inr () \<longrightarrow> fl' p = Some (store_text to_json gs) \<and>
            load_store from_json (Some (fl' p)) = Inr gs)"
proof -
  let ?tmp = "with_extension p ''tmp''"
  obtain err fw where w: "write_groups to_json (sv_write_ok env) ?tmp 0 gs (fl(?tmp \<mapsto> [])) = (err, fw)"
    by (cases "write_groups to_json (sv_write_ok env) ?tmp 0 gs (fl(?tmp \<mapsto> []))")
  have keep: "fw p = fl p"
    using write_groups_other [OF not_sym [OF assms(1)] w] assms(1) by simp
  have cont: "fw ?tmp = Some (store_text to_json gs)" "list_all (\<lambda>g. to_json g \<noteq> None) gs" if "err = None"
    using write_groups_text [of to_json "sv_write_ok env" ?tmp 0 gs "fl(?tmp \<mapsto> [])" fw "[]"] w that by simp_all
  have filt: "filter (\<lambda>g. cg_paths g \<noteq> []) gs = gs"
    using assms(3) by (simp add: list_all_iff)
  have "load_store from_json (Some (Some (store_text to_json gs))) = Inr gs" if "err = None"
    using parse_store_text [OF assms(2) cont(2) [OF that]] by (simp add: load_store_def validate_def filt)
  then show ?thesis
    using assms(1,4) w keep cont by (auto simp: save_store_def Let_def split: if_splits option.splits)
qed

section \<open>Properties\<close>

text \<open>
  C2: Adding an entry makes it the one found for its path and process, leaves every other
  pair as it was, keeps the store well formed, and raises the entry count by one exactly when
  the pair is new.
\<close>

theorem store_add_entry:
  assumes "store_wf gs"
  shows "store_wf (add_entry e gs) \<and>
    get_entry fs (add_entry e gs) (pe_path e) (pe_cmd e) =
      Some (entry_of fs (cmd_or_global (pe_cmd e)) (pe_path e) (params_of_entry e)) \<and>
    (\<forall>p c. (cmd_or_global c, p) \<noteq> (cmd_or_global (pe_cmd e), pe_path e) \<longrightarrow>
       get_entry fs (add_entry e gs) p c = get_entry fs gs p c) \<and>
    entry_count (add_entry e gs) =
      (if has_entry gs (pe_path e) (pe_cmd e) then entry_count gs else Suc (entry_count gs))"
proof -
  let ?k = "(cmd_or_global (pe_cmd e), pe_path e)"
  have put: "add_entry e gs = store_put ?k (params_of_entry e) gs"
    by (rule add_entry_put)
  have look: "lookup_params (add_entry e gs) c p =
      (if (c, p) = ?k then Some (params_of_entry e) else lookup_params gs c p)" for c p
    by (simp add: add_entry_def lookup_insert)
  have wf: "store_wf (add_entry e gs)" unfolding put by (rule wf_store.ok_put [OF assms])
  have count: "entry_count (add_entry e gs) =
      (if has_entry gs (pe_path e) (pe_cmd e) then entry_count gs else Suc (entry_count gs))"
    using wf_store.size_put_new [OF assms, of ?k] wf_store.size_put_old [OF assms, of ?k]
    unfolding put entry_count_entries has_entry_lookup store_lookup_def
    by (cases "lookup_params gs (cmd_or_global (pe_cmd e)) (pe_path e)") simp_all
  show ?thesis
  proof (intro conjI allI impI)
    show "store_wf (add_entry e gs)" by (rule wf)
    show "get_entry fs (add_entry e gs) (pe_path e) (pe_cmd e) =
        Some (entry_of fs (cmd_or_global (pe_cmd e)) (pe_path e) (params_of_entry e))"
      by (simp add: get_entry_def look)
    show "get_entry fs (add_entry e gs) p c = get_entry fs gs p c"
      if "(cmd_or_global c, p) \<noteq> ?k" for p c
      using that by (simp only: get_entry_def look if_False)
  qed (rule count)
qed

theorem store_add_entry_witness:
  "entry_count (add_entry \<lparr>pe_cmd = None, pe_path = [RootDir], pe_recursive = Some True,
     pe_types = None, pe_size = None, pe_max_depth = None, pe_symlink_target = None\<rparr> []) = 1"
proof -
  have "store_wf []" by (simp add: store_wf_def groups_ok_def)
  from store_add_entry [OF this, of "\<lparr>pe_cmd = None, pe_path = [RootDir],
     pe_recursive = Some True, pe_types = None, pe_size = None, pe_max_depth = None,
     pe_symlink_target = None\<rparr>"]
  show ?thesis by (simp add: has_entry_def entry_count_def)
qed

text \<open>
  C5: Removing an entry reports whether it was there, removes exactly the pair of path and
  process, and leaves a well-formed store: no group survives without paths.
\<close>

theorem store_remove_entry:
  assumes "store_wf gs"
  shows "fst (remove_entry p cmd gs) = has_entry gs p cmd \<and>
    store_wf (snd (remove_entry p cmd gs)) \<and>
    \<not> has_entry (snd (remove_entry p cmd gs)) p cmd \<and>
    (\<forall>q c. (cmd_or_global c, q) \<noteq> (cmd_or_global cmd, p) \<longrightarrow>
       get_entry fs (snd (remove_entry p cmd gs)) q c = get_entry fs gs q c) \<and>
    entry_count (snd (remove_entry p cmd gs)) =
      entry_count gs - (if has_entry gs p cmd then 1 else 0)"
proof -
  let ?k = "(cmd_or_global cmd, p)"
  have del: "snd (remove_entry p cmd gs) = store_del ?k gs"
    by (simp add: store_del_def remove_entry_def cmd_or_global_def)
  have "store_wf (snd (remove_entry p cmd gs))" by (rule store_wf_remove [OF assms])
  moreover have "entry_count (snd (remove_entry p cmd gs)) =
      entry_count gs - (if has_entry gs p cmd then 1 else 0)"
    using wf_store.size_del [OF assms, of ?k]
    unfolding del entry_count_entries has_entry_lookup store_lookup_def by simp
  ultimately show ?thesis
    by (auto simp: remove_entry_found has_entry_lookup get_entry_def lookup_remove)
qed

theorem store_remove_entry_witness:
  "\<not> has_entry (snd (remove_entry [RootDir] None
      [\<lparr>cg_cmd = CMD_GLOBAL, cg_paths = [([RootDir], \<lparr>pp_recursive = None, pp_types = None,
          pp_size = None, pp_max_depth = None\<rparr>)]\<rparr>])) [RootDir] None"
proof -
  have "store_wf [\<lparr>cg_cmd = CMD_GLOBAL, cg_paths = [([RootDir], \<lparr>pp_recursive = None,
      pp_types = None, pp_size = None, pp_max_depth = None\<rparr>)]\<rparr>]"
    by (simp add: store_wf_def groups_ok_def bt_ok_def)
  from store_remove_entry [OF this] show ?thesis by blast
qed

text \<open>
  C1: Saving is atomic and loading reads it back. Whatever fails, a system call or the
  serialisation of a group, the store file keeps its old content; when saving succeeds the file
  holds one line per group, and loading it returns the same groups.
\<close>

theorem store_save_load:
  assumes "with_extension p ''tmp'' \<noteq> p"
    and "json_round_trip to_json from_json gs"
    and "list_all (\<lambda>g. cg_paths g \<noteq> []) gs"
    and "save_store to_json env p gs fl = (r, fl')"
  shows "(\<forall>e. r = Inl e \<longrightarrow> fl' p = fl p) \<and>
         (r = Inr () \<longrightarrow> fl' p = Some (store_text to_json gs) \<and>
            load_store from_json (Some (fl' p)) = Inr gs)"
  by (rule save_then_load [OF assms])

text \<open>
  Two groups are saved over an old file: in full; with a rename that fails; and with a write that
  fails at the second group.
\<close>

definition saved_group :: "string \<Rightarrow> cmd_group" where
  "saved_group cmd = \<lparr>cg_cmd = cmd, cg_paths = [([RootDir], \<lparr>pp_recursive = Some True,
     pp_types = None, pp_size = None, pp_max_depth = None\<rparr>)]\<rparr>"

definition saved_json :: "cmd_group \<Rightarrow> string option" where
  "saved_json g = (if g = saved_group ''a'' then Some ''{a}'' else if g = saved_group ''b'' then Some ''{b}'' else None)"

definition saved_parse :: "string \<Rightarrow> cmd_group option" where
  "saved_parse s = (if s = ''{a}'' then Some (saved_group ''a'') else if s = ''{b}'' then Some (saved_group ''b'') else None)"

definition saved_path :: path where "saved_path = [RootDir, Normal ''monitored.jsonl'']"

definition save_run :: "bool \<Rightarrow> (nat \<Rightarrow> bool) \<Rightarrow> (save_error + unit) \<times> files" where
  "save_run rename_ok write_ok =
     save_store saved_json
       \<lparr>sv_mkdir_ok = True, sv_create_ok = True, sv_write_ok = write_ok, sv_sync_ok = True, sv_rename_ok = rename_ok\<rparr>
       saved_path [saved_group ''a'', saved_group ''b''] [saved_path \<mapsto> ''old'']"

lemma save_runs:
  "fst (save_run True (\<lambda>_. True)) = Inr ()" "fst (save_run False (\<lambda>_. True)) = Inl RenameFailed"
  "fst (save_run True (\<lambda>i. i = 0)) = Inl WriteFailed"
  "json_round_trip saved_json saved_parse [saved_group ''a'', saved_group ''b'']"
  "with_extension saved_path ''tmp'' \<noteq> saved_path"
  "list_all (\<lambda>g. cg_paths g \<noteq> []) [saved_group ''a'', saved_group ''b'']"
  "store_text saved_json [saved_group ''a'', saved_group ''b''] = ''{a}'' @ [CHR 0x0A] @ ''{b}'' @ [CHR 0x0A]"
  by code_simp+

theorem store_save_load_witness:
  "snd (save_run True (\<lambda>_. True)) saved_path = Some (''{a}'' @ [CHR 0x0A] @ ''{b}'' @ [CHR 0x0A]) \<and>
   load_store saved_parse (Some (snd (save_run True (\<lambda>_. True)) saved_path)) =
     Inr [saved_group ''a'', saved_group ''b''] \<and>
   snd (save_run False (\<lambda>_. True)) saved_path = Some ''old'' \<and>
   snd (save_run True (\<lambda>i. i = 0)) saved_path = Some ''old''"
proof -
  note law = store_save_load [OF save_runs(5) save_runs(4) save_runs(6)]
  have run: "save_store saved_json
      \<lparr>sv_mkdir_ok = True, sv_create_ok = True, sv_write_ok = w, sv_sync_ok = True, sv_rename_ok = b\<rparr>
      saved_path [saved_group ''a'', saved_group ''b''] [saved_path \<mapsto> ''old''] =
      (fst (save_run b w), snd (save_run b w))" for b w
    by (simp add: save_run_def)
  note saved = mp [OF conjunct2 [OF law [OF run]] save_runs(1), unfolded save_runs(7)]
  have kept: "snd (save_run b w) saved_path = Some ''old''" if "fst (save_run b w) = Inl e" for b w e
    using mp [OF spec [OF conjunct1 [OF law [OF run]]] that] by simp
  from saved kept [OF save_runs(2)] kept [OF save_runs(3)] show ?thesis by blast
qed

end
