(* ===== verification/Factory.thy ===== *)
theory Factory
  imports Event_Mask "HOL-Library.Multiset"
begin

text \<open>
  The request protocol of \<^verbatim>\<open>src/common/monitor/factory.rs\<close>: the privileged child that creates
  fanotify groups and marks directories it is handed as descriptors, and the parent's handle to
  it. What the kernel answers is a parameter; the system calls the child makes are a list of
  actions in order.
\<close>

type_synonym fd = int

definition KIND_CREATE_GROUP :: u32 where "KIND_CREATE_GROUP = 1"
definition KIND_MARK :: u32 where "KIND_MARK = 2"
definition MAX_FDS :: nat where "MAX_FDS = 64"
definition MAX_DIRS_PER_MARK :: nat where "MAX_DIRS_PER_MARK = MAX_FDS - 1"
definition READY_BYTE :: u8 where "READY_BYTE = 0x2A"

record factory_request =
  fr_kind :: u32
  fr_flags :: u32
  fr_mark_flags :: u32
  fr_count :: u32
  fr_mask :: u64

text \<open>The kernel's answers, and the error numbers the code names.\<close>

record kernel =
  k_init :: "u32 \<Rightarrow> i32 + fd"
  k_mark :: "fd \<Rightarrow> u32 \<Rightarrow> u64 \<Rightarrow> fd \<Rightarrow> i32 option"
  k_einval :: i32
  k_mark_add :: u32

section \<open>The child\<close>

datatype action =
  Init u32
| Mark fd u32 u64 fd
| SendReady
| Reply i32 "fd list"
| CloseFd fd

definition close_fds :: "fd list \<Rightarrow> action list" where
  "close_fds fds = map CloseFd (filter (\<lambda>fd. fd \<ge> 0) fds)"

definition child_create_group :: "kernel \<Rightarrow> factory_request \<Rightarrow> fd \<Rightarrow> action list" where
  "child_create_group k req dirfd =
     (case k_init k (fr_flags req) of
        Inl e \<Rightarrow> [Init (fr_flags req), Reply e []]
      | Inr fan_fd \<Rightarrow>
          [Init (fr_flags req), Mark fan_fd (k_mark_add k) (fr_mask req) dirfd] @
          (case k_mark k fan_fd (k_mark_add k) (fr_mask req) dirfd of
             Some e \<Rightarrow> [Reply e [], CloseFd fan_fd]
           | None \<Rightarrow> [Reply 0 [fan_fd], CloseFd fan_fd]))"

text \<open>Every directory is tried; the first error is the answer.\<close>

fun mark_each :: "kernel \<Rightarrow> factory_request \<Rightarrow> fd \<Rightarrow> fd list \<Rightarrow> i32 \<Rightarrow> action list \<times> i32" where
  "mark_each k req fan_fd [] first_error = ([], first_error)"
| "mark_each k req fan_fd (d # ds) first_error =
     (let e = (case k_mark k fan_fd (fr_mark_flags req) (fr_mask req) d of
                 Some e \<Rightarrow> if first_error = 0 then e else first_error
               | None \<Rightarrow> first_error);
          (acts, e') = mark_each k req fan_fd ds e
      in (Mark fan_fd (fr_mark_flags req) (fr_mask req) d # acts, e'))"

definition child_mark_dirs :: "kernel \<Rightarrow> factory_request \<Rightarrow> fd list \<Rightarrow> action list" where
  "child_mark_dirs k req fds =
     (let (acts, e) = mark_each k req (hd fds) (tl fds) 0 in acts @ [Reply e []])"

text \<open>What arrives on the socket: nothing more, a failed receive, or a message with descriptors.\<close>

datatype message = Closed | RecvError | ShortMsg "fd list" | Request factory_request "fd list"

definition child_request :: "kernel \<Rightarrow> factory_request \<Rightarrow> fd list \<Rightarrow> action list" where
  "child_request k req fds =
     (if fr_kind req = KIND_CREATE_GROUP then
        (if length fds < 1 then [Reply (k_einval k) []] else child_create_group k req (hd fds))
      else if fr_kind req = KIND_MARK then
        (if length fds < 1 then [Reply (k_einval k) []] else child_mark_dirs k req fds)
      else [Reply (k_einval k) []])"

fun child_loop :: "kernel \<Rightarrow> message list \<Rightarrow> action list" where
  "child_loop k [] = []"
| "child_loop k (Closed # ms) = []"
| "child_loop k (RecvError # ms) = []"
| "child_loop k (ShortMsg fds # ms) = Reply (k_einval k) [] # close_fds fds @ child_loop k ms"
| "child_loop k (Request req fds # ms) =
     child_request k req fds @ close_fds fds @ child_loop k ms"

text \<open>\<open>None\<close> is the exit with status 101 when the filter cannot be installed.\<close>

definition factory_child_main :: "kernel \<Rightarrow> bool \<Rightarrow> message list \<Rightarrow> action list option" where
  "factory_child_main k seccomp_ok ms =
     (if \<not> seccomp_ok then None else Some (SendReady # child_loop k ms))"

section \<open>The parent\<close>

record factory =
  fa_alive :: bool

datatype factory_error =
  NotRunning | SendFailed | NoAnswer | ReceiveFailed | Exited | Malformed | Status i32
| NoGroupFd | TooManyFds nat

datatype answer = Timeout | AnswerError | PeerClosed | ShortAnswer "fd list" | Answer i32 "fd list"

text \<open>The result, the descriptors the parent closes, and the handle afterwards.\<close>

definition factory_send ::
  "factory \<Rightarrow> bool \<Rightarrow> answer \<Rightarrow> (factory_error + fd list) \<times> fd list \<times> factory" where
  "factory_send f send_ok a =
     (if \<not> fa_alive f then (Inl NotRunning, [], f)
      else if \<not> send_ok then (Inl SendFailed, [], f)
      else
        (case a of
           Timeout \<Rightarrow> (Inl NoAnswer, [], f\<lparr>fa_alive := False\<rparr>)
         | AnswerError \<Rightarrow> (Inl ReceiveFailed, [], f)
         | PeerClosed \<Rightarrow> (Inl Exited, [], f\<lparr>fa_alive := False\<rparr>)
         | ShortAnswer fds \<Rightarrow> (Inl Malformed, filter (\<lambda>fd. fd \<ge> 0) fds, f)
         | Answer status fds \<Rightarrow>
             if status \<noteq> 0 then (Inl (Status status), filter (\<lambda>fd. fd \<ge> 0) fds, f)
             else (Inr fds, [], f)))"

definition create_request :: "fan_consts \<Rightarrow> kernel \<Rightarrow> u32 \<Rightarrow> u64 \<Rightarrow> factory_request" where
  "create_request K k flags mask' =
     \<lparr>fr_kind = KIND_CREATE_GROUP, fr_flags = flags, fr_mark_flags = k_mark_add k, fr_count = 1,
      fr_mask = mask' AND NOT (FAN_FS_ERROR K)\<rparr>"

definition create_group_and_mark ::
  "factory \<Rightarrow> bool \<Rightarrow> answer \<Rightarrow> (factory_error + fd) \<times> fd list \<times> factory" where
  "create_group_and_mark f send_ok a =
     (case factory_send f send_ok a of
        (Inl e, closed, f') \<Rightarrow> (Inl e, closed, f')
      | (Inr got, closed, f') \<Rightarrow>
          if length got \<noteq> 1 then (Inl NoGroupFd, closed @ filter (\<lambda>fd. fd \<ge> 0) got, f')
          else (Inr (hd got), closed, f'))"

definition mark_request :: "fan_consts \<Rightarrow> nat \<Rightarrow> u32 \<Rightarrow> u64 \<Rightarrow> factory_request" where
  "mark_request K n mark_flags mask' =
     \<lparr>fr_kind = KIND_MARK, fr_flags = 0, fr_mark_flags = mark_flags, fr_count = of_nat n,
      fr_mask = mask' AND NOT (FAN_FS_ERROR K)\<rparr>"

definition mark_fds :: "fd \<Rightarrow> fd list \<Rightarrow> fd list" where
  "mark_fds fan_fd dir_fds = fan_fd # dir_fds"

definition mark ::
  "factory \<Rightarrow> nat \<Rightarrow> bool \<Rightarrow> answer \<Rightarrow> (factory_error + unit) \<times> fd list \<times> factory" where
  "mark f n_dirs send_ok a =
     (if n_dirs + 1 > MAX_FDS then (Inl (TooManyFds n_dirs), [], f)
      else
        (case factory_send f send_ok a of
           (Inl e, closed, f') \<Rightarrow> (Inl e, closed, f')
         | (Inr _, closed, f') \<Rightarrow> (Inr (), closed, f')))"

section \<open>What a run does with descriptors\<close>

text \<open>The descriptors a list of messages brings, those the kernel creates, those that are closed.\<close>

fun received :: "message list \<Rightarrow> fd list" where
  "received [] = []"
| "received (Closed # ms) = []"
| "received (RecvError # ms) = []"
| "received (ShortMsg fds # ms) = fds @ received ms"
| "received (Request req fds # ms) = fds @ received ms"

definition created :: "kernel \<Rightarrow> action list \<Rightarrow> fd list" where
  "created k acts =
     List.map_filter (\<lambda>a. case a of
        Init flags \<Rightarrow> (case k_init k flags of Inr fd \<Rightarrow> Some fd | Inl _ \<Rightarrow> None) | _ \<Rightarrow> None) acts"

definition closed :: "action list \<Rightarrow> fd list" where
  "closed acts = List.map_filter (\<lambda>a. case a of CloseFd fd \<Rightarrow> Some fd | _ \<Rightarrow> None) acts"

definition replies :: "action list \<Rightarrow> (i32 \<times> fd list) list" where
  "replies acts = List.map_filter (\<lambda>a. case a of Reply st fds \<Rightarrow> Some (st, fds) | _ \<Rightarrow> None) acts"

lemmas run_defs = created_def closed_def replies_def

lemma map_filter_append: "List.map_filter f (xs @ ys) = List.map_filter f xs @ List.map_filter f ys"
  by (simp add: List.map_filter_def)

lemma run_append [simp]:
  "created k (xs @ ys) = created k xs @ created k ys" "closed (xs @ ys) = closed xs @ closed ys"
  "replies (xs @ ys) = replies xs @ replies ys"
  by (simp_all add: run_defs map_filter_append)

lemma run_Nil [simp]: "created k [] = []" "closed [] = []" "replies [] = []"
  by (simp_all add: run_defs )

lemma run_Cons [simp]:
  "created k (Init flags # as) = (case k_init k flags of Inr fd \<Rightarrow> [fd] | Inl _ \<Rightarrow> []) @ created k as"
  "created k (Mark f fl m d # as) = created k as" "created k (SendReady # as) = created k as"
  "created k (Reply st fds # as) = created k as" "created k (CloseFd fd # as) = created k as"
  "closed (Init flags # as) = closed as" "closed (Mark f fl m d # as) = closed as"
  "closed (SendReady # as) = closed as" "closed (Reply st fds # as) = closed as"
  "closed (CloseFd fd # as) = fd # closed as"
  "replies (Init flags # as) = replies as" "replies (Mark f fl m d # as) = replies as"
  "replies (SendReady # as) = replies as" "replies (Reply st fds # as) = (st, fds) # replies as"
  "replies (CloseFd fd # as) = replies as"
  by (simp_all add: run_defs  split: sum.splits)

lemma close_fds_run [simp]:
  "created k (close_fds fds) = []" "closed (close_fds fds) = filter (\<lambda>fd. fd \<ge> 0) fds"
  "replies (close_fds fds) = []"
  by (induction fds) (simp_all add: close_fds_def)

lemma mark_each_run:
  "fst (mark_each k req g ds e) = map (Mark g (fr_mark_flags req) (fr_mask req)) ds"
  by (induction k req g ds e rule: mark_each.induct) (simp add: case_prod_beta Let_def)+

lemma map_Mark_run [simp]:
  "created k (map (Mark g fl m) ds) = []" "closed (map (Mark g fl m) ds) = []"
  "replies (map (Mark g fl m) ds) = []"
  by (induction ds) simp_all

lemma child_mark_dirs_run:
  "child_mark_dirs k req fds =
     map (Mark (hd fds) (fr_mark_flags req) (fr_mask req)) (tl fds) @
     [Reply (snd (mark_each k req (hd fds) (tl fds) 0)) []]"
  by (simp add: child_mark_dirs_def case_prod_beta mark_each_run)

lemma child_request_closed: "closed (child_request k req fds) = created k (child_request k req fds)"
  by (auto simp: child_request_def child_create_group_def child_mark_dirs_run
      split: sum.splits option.splits)

lemma child_request_one_reply: "length (replies (child_request k req fds)) = 1"
  by (auto simp: child_request_def child_create_group_def child_mark_dirs_run
      split: sum.splits option.splits)

text \<open>The first error of a list of directories.\<close>

definition mark_errors :: "kernel \<Rightarrow> factory_request \<Rightarrow> fd \<Rightarrow> fd list \<Rightarrow> i32 list" where
  "mark_errors k req g ds = List.map_filter (k_mark k g (fr_mark_flags req) (fr_mask req)) ds"

lemma mark_each_error:
  assumes "\<And>g fl m d e. k_mark k g fl m d = Some e \<Longrightarrow> e \<noteq> 0"
  shows "snd (mark_each k req g ds e0) =
    (if e0 \<noteq> 0 then e0
     else case mark_errors k req g ds of [] \<Rightarrow> 0 | e # _ \<Rightarrow> e)"
  by (induction ds arbitrary: e0)
    (auto simp: Let_def case_prod_beta mark_errors_def  assms split: option.splits)

text \<open>One exchange: the answer to a request the child receives.\<close>

definition exchange :: "kernel \<Rightarrow> factory_request \<Rightarrow> fd list \<Rightarrow> answer" where
  "exchange k req fds =
     (case replies (child_request k req fds) of
        [(st, out)] \<Rightarrow> Answer st out
      | _ \<Rightarrow> PeerClosed)"

section \<open>Properties\<close>

text \<open>
  C24: Over its whole life, whatever the parent sends and whatever the kernel answers, the
  privileged child closes every descriptor it was handed and every group it created, each
  exactly once, and answers every message with exactly one reply.
\<close>

theorem child_closes_everything:
  "mset (closed (child_loop k ms)) =
     mset (created k (child_loop k ms)) + mset (filter (\<lambda>fd. fd \<ge> 0) (received ms)) \<and>
   length (replies (child_loop k ms)) =
     length (takeWhile (\<lambda>m. m \<noteq> Closed \<and> m \<noteq> RecvError) ms)"
proof (induction ms)
  case Nil
  then show ?case by simp
next
  case (Cons m ms)
  then show ?case
    using child_request_one_reply by (cases m) (simp_all add: child_request_closed)
qed

text \<open>
  From the request to the answer: creating a group hands back the new group if the kernel
  creates and marks it, and otherwise the kernel's error; marking a batch tries every directory
  and succeeds exactly if all marks did, with the first error otherwise; a batch within the
  limit fits one message, and no request ever asks for file system error events.
\<close>

theorem factory_round_trip:
  assumes "fa_alive f" and "\<And>g fl m d e. k_mark k g fl m d = Some e \<Longrightarrow> e \<noteq> 0"
    and "\<And>fl e. k_init k fl = Inl e \<Longrightarrow> e \<noteq> 0" and "length dirs \<le> MAX_DIRS_PER_MARK"
  shows "fst (create_group_and_mark f True (exchange k (create_request K k flags m) [dirfd])) =
      (case k_init k flags of
         Inl e \<Rightarrow> Inl (Status e)
       | Inr g \<Rightarrow>
           (case k_mark k g (k_mark_add k) (m AND NOT (FAN_FS_ERROR K)) dirfd of
              Some e \<Rightarrow> Inl (Status e) | None \<Rightarrow> Inr g)) \<and>
    fst (mark f (length dirs) True
          (exchange k (mark_request K (length dirs) fl m) (mark_fds g dirs))) =
      (case mark_errors k (mark_request K (length dirs) fl m) g dirs of
         [] \<Rightarrow> Inr () | e # _ \<Rightarrow> Inl (Status e)) \<and>
    length (mark_fds g dirs) \<le> MAX_FDS \<and>
    fr_mask (create_request K k flags m) AND FAN_FS_ERROR K = 0 \<and>
    fr_mask (mark_request K (length dirs) fl m) AND FAN_FS_ERROR K = 0"
proof (intro conjI)
  have kinds: "KIND_MARK \<noteq> KIND_CREATE_GROUP" by (simp add: KIND_MARK_def KIND_CREATE_GROUP_def)
  show "fst (create_group_and_mark f True (exchange k (create_request K k flags m) [dirfd])) =
      (case k_init k flags of
         Inl e \<Rightarrow> Inl (Status e)
       | Inr g \<Rightarrow>
           (case k_mark k g (k_mark_add k) (m AND NOT (FAN_FS_ERROR K)) dirfd of
              Some e \<Rightarrow> Inl (Status e) | None \<Rightarrow> Inr g))"
    using assms(1-3)
    by (auto simp: exchange_def child_request_def create_request_def child_create_group_def
        create_group_and_mark_def factory_send_def split: sum.splits option.splits)
  have nz: "\<And>e es. mark_errors k r g dirs = e # es \<Longrightarrow> e \<noteq> 0" for r
    using assms(2) by (auto simp: mark_errors_def List.map_filter_def Cons_eq_map_conv
        Cons_eq_filter_iff filter_eq_Cons_iff)
  show "fst (mark f (length dirs) True
          (exchange k (mark_request K (length dirs) fl m) (mark_fds g dirs))) =
      (case mark_errors k (mark_request K (length dirs) fl m) g dirs of
         [] \<Rightarrow> Inr () | e # _ \<Rightarrow> Inl (Status e))"
    using assms(1,4) kinds nz
    by (auto simp: exchange_def child_request_def mark_request_def mark_fds_def
        child_mark_dirs_run mark_def factory_send_def mark_each_error [OF assms(2)]
        MAX_DIRS_PER_MARK_def MAX_FDS_def split: list.splits)
  show "length (mark_fds g dirs) \<le> MAX_FDS"
    using assms(4) by (simp add: mark_fds_def MAX_DIRS_PER_MARK_def MAX_FDS_def)
  show "fr_mask (create_request K k flags m) AND FAN_FS_ERROR K = 0"
    "fr_mask (mark_request K (length dirs) fl m) AND FAN_FS_ERROR K = 0"
    by (simp_all add: create_request_def mark_request_def ac_simps)
qed

theorem factory_round_trip_witness:
  "fst (create_group_and_mark \<lparr>fa_alive = True\<rparr> True
     (exchange \<lparr>k_init = (\<lambda>_. Inr 7), k_mark = (\<lambda>_ _ _ _. None), k_einval = 22, k_mark_add = 1\<rparr>
        (create_request linux_fan
           \<lparr>k_init = (\<lambda>_. Inr 7), k_mark = (\<lambda>_ _ _ _. None), k_einval = 22, k_mark_add = 1\<rparr> 0 2)
        [5])) = Inr 7"
proof -
  let ?k = "\<lparr>k_init = (\<lambda>_. Inr 7), k_mark = (\<lambda>_ _ _ _. None), k_einval = 22, k_mark_add = 1\<rparr>"
  have a: "fa_alive \<lparr>fa_alive = True\<rparr>" by simp
  have "length [5::fd] \<le> MAX_DIRS_PER_MARK" by (simp add: MAX_DIRS_PER_MARK_def MAX_FDS_def)
  from factory_round_trip [OF a _ _ this, of ?k linux_fan 0 2 5 0 7] show ?thesis by simp
qed

end
