(* ===== verification/Mark_Walk.thy ===== *)
theory Mark_Walk
  imports Factory Rust_Path
begin

text \<open>
  The recursive marking walk of \<^verbatim>\<open>src/common/fid_parser.rs\<close>: a breadth-first traversal that
  opens, caches and marks the directories below a root, in batches that fit one request to the
  factory. The directory tree is a parameter; the walk is given as a loop that may not return,
  and returns on every finite tree.
\<close>

datatype entry_kind = Symlink | Directory | Other

text \<open>
  What the walk sees: whether a directory opens without following a link, and the entries of a
  directory, with the kind of those whose metadata can be read.
\<close>

record dir_tree =
  dt_open :: "path \<Rightarrow> bool"
  dt_entries :: "path \<Rightarrow> (path \<times> entry_kind option) list option"

record walk_state =
  wk_queue :: "(path \<times> nat) list"
  wk_pending :: "path list"
  wk_pending_depth :: nat
  wk_discovered :: "path list"
  wk_cached :: "path list"
  wk_requests :: "(u64 \<times> path list) list"

definition flush_pending_marks :: "u64 \<Rightarrow> walk_state \<Rightarrow> walk_state" where
  "flush_pending_marks m st =
     (if wk_pending st = [] then st
      else st\<lparr>wk_requests := wk_requests st @ [(m, wk_pending st)], wk_pending := []\<rparr>)"

definition within_depth :: "u32 option \<Rightarrow> nat \<Rightarrow> bool" where
  "within_depth max_depth d = (case max_depth of Some m \<Rightarrow> d \<le> unat m | None \<Rightarrow> True)"

definition subdirs :: "dir_tree \<Rightarrow> path \<Rightarrow> path list" where
  "subdirs t p =
     (case dt_entries t p of
        None \<Rightarrow> []
      | Some es \<Rightarrow> map fst (filter (\<lambda>(_, k). k = Some Directory) es))"

definition push_found :: "u64 \<Rightarrow> path \<Rightarrow> walk_state \<Rightarrow> walk_state" where
  "push_found m current st =
     (let st' = st\<lparr>wk_pending := wk_pending st @ [current],
                   wk_discovered := wk_discovered st @ [current]\<rparr>
      in if length (wk_pending st') \<ge> MAX_DIRS_PER_MARK then flush_pending_marks m st' else st')"

text \<open>One turn of the loop, without the queue: flush at a new depth, then open, cache and mark.\<close>

definition visit :: "dir_tree \<Rightarrow> u64 \<Rightarrow> u32 option \<Rightarrow> path \<times> nat \<Rightarrow> walk_state \<Rightarrow> walk_state" where
  "visit t m max_depth item st =
     (let (current, depth) = item;
          st1 = (if depth \<noteq> wk_pending_depth st
                 then (flush_pending_marks m st)\<lparr>wk_pending_depth := depth\<rparr> else st)
      in if \<not> within_depth max_depth depth then st1
         else if \<not> dt_open t current then st1
         else
           (let st2 = st1\<lparr>wk_cached := wk_cached st1 @ [current]\<rparr> in
            if depth > 0 then push_found m current st2 else st2))"

definition children :: "dir_tree \<Rightarrow> u32 option \<Rightarrow> nat \<Rightarrow> path \<Rightarrow> path list" where
  "children t max_depth depth p =
     (if within_depth max_depth depth \<and> dt_open t p then subdirs t p else [])"

partial_function (option) walk_loop ::
  "dir_tree \<Rightarrow> u64 \<Rightarrow> u32 option \<Rightarrow> walk_state \<Rightarrow> walk_state option" where
  "walk_loop t m max_depth st =
     (case wk_queue st of
        [] \<Rightarrow> Some st
      | (current, depth) # rest \<Rightarrow>
          walk_loop t m max_depth
            ((visit t m max_depth (current, depth) st)
               \<lparr>wk_queue := rest @ map (\<lambda>p. (p, depth + 1)) (children t max_depth depth current)\<rparr>))"

definition walk_start :: "path \<Rightarrow> walk_state" where
  "walk_start dir =
     \<lparr>wk_queue = [(dir, 0)], wk_pending = [], wk_pending_depth = 0, wk_discovered = [],
      wk_cached = [], wk_requests = []\<rparr>"

definition mark_recursive_with_depth ::
  "fan_consts \<Rightarrow> dir_tree \<Rightarrow> u64 \<Rightarrow> path \<Rightarrow> u32 option \<Rightarrow> walk_state option" where
  "mark_recursive_with_depth K t m dir max_depth =
     (let safe_mask = m AND NOT (FAN_FS_ERROR K) in
      map_option (flush_pending_marks safe_mask) (walk_loop t safe_mask max_depth (walk_start dir)))"

section \<open>The levels of the tree\<close>

fun level :: "dir_tree \<Rightarrow> u32 option \<Rightarrow> path \<Rightarrow> nat \<Rightarrow> path list" where
  "level t max_depth dir 0 = [dir]"
| "level t max_depth dir (Suc n) =
     concat (map (children t max_depth n) (level t max_depth dir n))"

text \<open>The directories the walk may reach, as a relation.\<close>

inductive reach :: "dir_tree \<Rightarrow> u32 option \<Rightarrow> path \<Rightarrow> path \<Rightarrow> nat \<Rightarrow> bool"
  for t :: dir_tree and max_depth :: "u32 option" and dir :: path where
  root: "reach t max_depth dir dir 0"
| below: "reach t max_depth dir p n \<Longrightarrow> within_depth max_depth n \<Longrightarrow> dt_open t p \<Longrightarrow>
    q \<in> set (subdirs t p) \<Longrightarrow> reach t max_depth dir q (Suc n)"

inductive_cases reach_0E: "reach t max_depth dir p 0"
inductive_cases reach_SucE: "reach t max_depth dir p (Suc n)"

lemma level_reach: "p \<in> set (level t max_depth dir n) \<longleftrightarrow> reach t max_depth dir p n"
proof (induction n arbitrary: p)
  case 0
  then show ?case by (auto intro: reach.root elim: reach_0E)
next
  case (Suc n)
  then show ?case
    by (auto simp: children_def split: if_splits intro: reach.below elim!: reach_SucE)
qed

lemma level_empty: "level t max_depth dir h = [] \<Longrightarrow> h \<le> n \<Longrightarrow> level t max_depth dir n = []"
  by (induction n) (auto simp: le_Suc_eq)

lemma level_bounded: "level t (Some m) dir (Suc (Suc (unat m))) = []"
proof -
  have "children t (Some m) (Suc (unat m)) p = []" for p
    by (simp add: children_def within_depth_def)
  then show ?thesis by simp
qed

section \<open>The loop visits level after level\<close>

lemma visit_queue [simp]: "wk_queue (visit t m max_depth item st) = wk_queue st"
  by (auto simp: visit_def push_found_def flush_pending_marks_def Let_def split: prod.splits)

lemma visit_update_queue:
  "visit t m max_depth item (st\<lparr>wk_queue := q\<rparr>) = (visit t m max_depth item st)\<lparr>wk_queue := q\<rparr>"
  by (auto simp: visit_def push_found_def flush_pending_marks_def Let_def split: prod.splits)

lemma loop_level:
  "walk_loop t m max_depth (st\<lparr>wk_queue := map (\<lambda>p. (p, n)) ps @ map (\<lambda>p. (p, n + 1)) qs\<rparr>) =
   walk_loop t m max_depth
     ((fold (visit t m max_depth) (map (\<lambda>p. (p, n)) ps) st)
        \<lparr>wk_queue := map (\<lambda>p. (p, n + 1)) (qs @ concat (map (children t max_depth n) ps))\<rparr>)"
proof (induction ps arbitrary: qs st)
  case Nil
  then show ?case by simp
next
  case (Cons p ps)
  have "walk_loop t m max_depth
      (st\<lparr>wk_queue := map (\<lambda>p. (p, n)) (p # ps) @ map (\<lambda>p. (p, n + 1)) qs\<rparr>) =
    walk_loop t m max_depth
      ((visit t m max_depth (p, n) st)
         \<lparr>wk_queue := map (\<lambda>p. (p, n)) ps @ map (\<lambda>p. (p, n + 1)) (qs @ children t max_depth n p)\<rparr>)"
    by (subst walk_loop.simps) (simp add: visit_update_queue)
  also note Cons.IH
  finally show ?case by simp
qed

definition visited :: "dir_tree \<Rightarrow> u32 option \<Rightarrow> path \<Rightarrow> nat \<Rightarrow> nat \<Rightarrow> (path \<times> nat) list" where
  "visited t max_depth dir n h =
     concat (map (\<lambda>k. map (\<lambda>p. (p, k)) (level t max_depth dir k)) [n..<h])"

lemma loop_levels:
  assumes "level t max_depth dir h = []" and "n \<le> h"
  shows "walk_loop t m max_depth (st\<lparr>wk_queue := map (\<lambda>p. (p, n)) (level t max_depth dir n)\<rparr>) =
    Some ((fold (visit t m max_depth) (visited t max_depth dir n h) st)\<lparr>wk_queue := []\<rparr>)"
  using assms(2)
proof (induction "h - n" arbitrary: n st)
  case 0
  then show ?case using assms(1) by (simp add: visited_def walk_loop.simps)
next
  case (Suc d)
  then have n: "n < h" by simp
  then have "visited t max_depth dir n h =
      map (\<lambda>p. (p, n)) (level t max_depth dir n) @ visited t max_depth dir (Suc n) h"
    by (simp add: visited_def upt_conv_Cons)
  moreover have "d = h - Suc n" "Suc n \<le> h" using Suc.hyps(2) n by simp_all
  ultimately show ?case
    using loop_level [where n = n and ps = "level t max_depth dir n" and qs = "[]" and st = st]
      Suc.hyps(1) [of "Suc n"] by simp
qed

section \<open>Every directory found is in one request\<close>

definition walk_inv :: "u64 \<Rightarrow> walk_state \<Rightarrow> bool" where
  "walk_inv m st \<longleftrightarrow>
     concat (map snd (wk_requests st)) @ wk_pending st = wk_discovered st \<and>
     list_all (\<lambda>(m', ds). m' = m \<and> ds \<noteq> [] \<and> length ds \<le> MAX_DIRS_PER_MARK) (wk_requests st) \<and>
     length (wk_pending st) < MAX_DIRS_PER_MARK"

lemma flush_inv: "walk_inv m st \<Longrightarrow> walk_inv m (flush_pending_marks m st)"
  by (auto simp: walk_inv_def flush_pending_marks_def MAX_DIRS_PER_MARK_def MAX_FDS_def)

lemma flush_simps [simp]:
  "wk_pending (flush_pending_marks m st) = []"
  "wk_discovered (flush_pending_marks m st) = wk_discovered st"
  "wk_cached (flush_pending_marks m st) = wk_cached st"
  by (simp_all add: flush_pending_marks_def)

lemma depth_inv [simp]: "walk_inv m (st\<lparr>wk_pending_depth := d\<rparr>) = walk_inv m st"
  "walk_inv m (st\<lparr>wk_cached := c\<rparr>) = walk_inv m st" "walk_inv m (st\<lparr>wk_queue := q\<rparr>) = walk_inv m st"
  by (simp_all add: walk_inv_def)

lemma push_inv: "walk_inv m st \<Longrightarrow> walk_inv m (push_found m p st)"
  by (auto simp: push_found_def walk_inv_def flush_pending_marks_def Let_def MAX_DIRS_PER_MARK_def
      MAX_FDS_def)

lemma push_simps [simp]:
  "wk_discovered (push_found m p st) = wk_discovered st @ [p]"
  "wk_cached (push_found m p st) = wk_cached st"
  by (simp_all add: push_found_def Let_def)

lemma visit_inv: "walk_inv m st \<Longrightarrow> walk_inv m (visit t m max_depth item st)"
  by (auto simp: visit_def Let_def push_inv flush_inv split: prod.splits)

lemma fold_visit_inv: "walk_inv m st \<Longrightarrow> walk_inv m (fold (visit t m max_depth) items st)"
  by (induction items arbitrary: st) (simp_all add: visit_inv)

definition marked :: "dir_tree \<Rightarrow> u32 option \<Rightarrow> path \<times> nat \<Rightarrow> bool" where
  "marked t max_depth = (\<lambda>(p, d). within_depth max_depth d \<and> dt_open t p)"

lemma visit_found:
  "wk_discovered (visit t m max_depth item st) =
     wk_discovered st @ (if marked t max_depth item \<and> 0 < snd item then [fst item] else [])"
  "wk_cached (visit t m max_depth item st) =
     wk_cached st @ (if marked t max_depth item then [fst item] else [])"
  by (auto simp: visit_def marked_def Let_def split: prod.splits)

lemma fold_visit_found:
  "wk_discovered (fold (visit t m max_depth) items st) =
     wk_discovered st @ map fst (filter (\<lambda>i. marked t max_depth i \<and> 0 < snd i) items)"
  "wk_cached (fold (visit t m max_depth) items st) =
     wk_cached st @ map fst (filter (marked t max_depth) items)"
  by (induction items arbitrary: st) (simp_all add: visit_found)

lemma fst_filter: "fst ` {i \<in> A. P i} = {p. \<exists>n. (p, n) \<in> A \<and> P (p, n)}"
  by force

lemma visited_set:
  assumes "level t max_depth dir h = []"
  shows "(p, n) \<in> set (visited t max_depth dir 0 h) \<longleftrightarrow> reach t max_depth dir p n"
proof
  assume "(p, n) \<in> set (visited t max_depth dir 0 h)"
  then show "reach t max_depth dir p n" by (auto simp: visited_def level_reach [symmetric])
next
  assume "reach t max_depth dir p n"
  then have p: "p \<in> set (level t max_depth dir n)" by (simp add: level_reach)
  then have "n < h" using level_empty [OF assms, of n] by (cases "n < h") auto
  then show "(p, n) \<in> set (visited t max_depth dir 0 h)" using p by (auto simp: visited_def)
qed

text \<open>The walk ends, in the state the visit of all levels leads to.\<close>

lemma walk_run:
  assumes "level t max_depth dir h = []"
  shows "mark_recursive_with_depth K t m dir max_depth =
    Some (flush_pending_marks (m AND NOT (FAN_FS_ERROR K))
      ((fold (visit t (m AND NOT (FAN_FS_ERROR K)) max_depth) (visited t max_depth dir 0 h)
         (walk_start dir))\<lparr>wk_queue := []\<rparr>))"
proof -
  have "walk_start dir = (walk_start dir)\<lparr>wk_queue := map (\<lambda>p. (p, 0)) (level t max_depth dir 0)\<rparr>"
    by (simp add: walk_start_def)
  then show ?thesis
    using loop_levels [OF assms, of 0 "m AND NOT (FAN_FS_ERROR K)" "walk_start dir"]
    by (simp add: mark_recursive_with_depth_def Let_def)
qed

lemma walk_returns:
  assumes "max_depth = None \<longrightarrow> (\<exists>h. level t None dir h = [])"
  shows "\<exists>st. mark_recursive_with_depth K t m dir max_depth = Some st"
proof -
  obtain h where "level t max_depth dir h = []"
    using assms level_bounded [of t _ dir] by (cases max_depth) blast+
  from walk_run [OF this] show ?thesis by blast
qed

section \<open>Properties\<close>

text \<open>
  C29: With a depth limit, or on a finite tree, the walk ends. It finds exactly the directories
  below the root that are reached through directories which open without following a link,
  within the depth limit; every one of them is in exactly one request to the factory, no
  request is empty or larger than one message can carry, and every directory that opened, the
  root included, has its handle cached.
\<close>

theorem mark_walk_complete:
  assumes "max_depth = None \<longrightarrow> (\<exists>h. level t None dir h = [])"
  shows "\<exists>st. mark_recursive_with_depth K t m dir max_depth = Some st \<and>
    set (wk_discovered st) =
      {p. \<exists>n > 0. reach t max_depth dir p n \<and> within_depth max_depth n \<and> dt_open t p} \<and>
    set (wk_cached st) =
      {p. \<exists>n. reach t max_depth dir p n \<and> within_depth max_depth n \<and> dt_open t p} \<and>
    concat (map snd (wk_requests st)) = wk_discovered st \<and>
    list_all (\<lambda>(m', ds). m' = m AND NOT (FAN_FS_ERROR K) \<and> ds \<noteq> [] \<and>
      length ds \<le> MAX_DIRS_PER_MARK) (wk_requests st)"
proof -
  obtain h where h: "level t max_depth dir h = []"
    using assms level_bounded [of t _ dir] by (cases max_depth) blast+
  let ?m = "m AND NOT (FAN_FS_ERROR K)"
  let ?v = "visited t max_depth dir 0 h"
  let ?st = "(fold (visit t ?m max_depth) ?v (walk_start dir))\<lparr>wk_queue := []\<rparr>"
  let ?fin = "flush_pending_marks ?m ?st"
  have run: "mark_recursive_with_depth K t m dir max_depth = Some ?fin" by (rule walk_run [OF h])
  have "walk_inv ?m (walk_start dir)"
    by (simp add: walk_inv_def walk_start_def MAX_DIRS_PER_MARK_def MAX_FDS_def)
  then have inv: "walk_inv ?m ?fin" by (simp add: flush_inv fold_visit_inv)
  have "set (wk_discovered ?fin) = fst ` {i \<in> set ?v. marked t max_depth i \<and> 0 < snd i}"
    and "set (wk_cached ?fin) = fst ` {i \<in> set ?v. marked t max_depth i}"
    by (simp_all add: fold_visit_found walk_start_def)
  then have found: "set (wk_discovered ?fin) =
      {p. \<exists>n > 0. reach t max_depth dir p n \<and> within_depth max_depth n \<and> dt_open t p}"
    "set (wk_cached ?fin) = {p. \<exists>n. reach t max_depth dir p n \<and> within_depth max_depth n \<and> dt_open t p}"
    unfolding fst_filter visited_set [OF h] marked_def by auto
  have "concat (map snd (wk_requests ?fin)) = wk_discovered ?fin"
    using inv by (simp add: walk_inv_def)
  moreover have "list_all (\<lambda>(m', ds). m' = ?m \<and> ds \<noteq> [] \<and> length ds \<le> MAX_DIRS_PER_MARK) (wk_requests ?fin)"
    using inv by (simp add: walk_inv_def)
  ultimately show ?thesis using run found by (intro exI [of _ ?fin] conjI) assumption+
qed

theorem mark_walk_complete_witness:
  "\<exists>st. mark_recursive_with_depth linux_fan
      \<lparr>dt_open = (\<lambda>_. True), dt_entries = (\<lambda>p. if p = [RootDir] then
         Some [([RootDir, Normal ''a''], Some Directory), ([RootDir, Normal ''l''], Some Symlink)]
         else None)\<rparr> 2 [RootDir] None = Some st \<and>
    concat (map snd (wk_requests st)) = wk_discovered st"
proof -
  let ?t = "\<lparr>dt_open = (\<lambda>_. True), dt_entries = (\<lambda>p. if p = [RootDir] then
         Some [([RootDir, Normal ''a''], Some Directory), ([RootDir, Normal ''l''], Some Symlink)]
         else None)\<rparr>"
  have "level ?t None [RootDir] 2 = []"
    by (simp add: numeral_2_eq_2 children_def within_depth_def subdirs_def)
  then have "(None :: u32 option) = None \<longrightarrow> (\<exists>h. level ?t None [RootDir] h = [])" by blast
  from mark_walk_complete [OF this, of linux_fan 2] show ?thesis by blast
qed

end
