(* ===== verification/Metrics.thy ===== *)
theory Metrics
  imports Ordered_Map
begin

text \<open>
  \<^verbatim>\<open>src/common/metrics.rs\<close>: labelled counters, gauges and the registry of the daemon. Each
  operation is one atomic step, so a run of several threads is a sequence of them; counters wrap
  like \<^verbatim>\<open>fetch_add\<close> does.
\<close>

section \<open>Labelled counters\<close>

type_synonym labels = "string list"

record counter_vec =
  cv_enabled :: bool
  cv_counters :: "(labels, u64) hash"

definition counter_new :: "bool \<Rightarrow> counter_vec" where
  "counter_new enabled = \<lparr>cv_enabled = enabled, cv_counters = []\<rparr>"

text \<open>The fast path reads the map and adds to the counter it finds, the slow path creates it.\<close>

definition counter_inc :: "labels \<Rightarrow> counter_vec \<Rightarrow> counter_vec" where
  "counter_inc ls c =
     (if \<not> cv_enabled c then c
      else
        (case map_of (cv_counters c) ls of
           Some n \<Rightarrow> c\<lparr>cv_counters := al_put ls (n + 1) (cv_counters c)\<rparr>
         | None \<Rightarrow>
             (let m = al_put ls 0 (cv_counters c)
              in c\<lparr>cv_counters := al_put ls (the (map_of m ls) + 1) m\<rparr>)))"

definition counter_gather :: "counter_vec \<Rightarrow> (labels \<times> u64) list" where
  "counter_gather c = (if \<not> cv_enabled c then [] else cv_counters c)"

section \<open>Gauges\<close>

record int_gauge =
  g_enabled :: bool
  g_value :: i64

definition gauge_new :: "bool \<Rightarrow> int_gauge" where
  "gauge_new enabled = \<lparr>g_enabled = enabled, g_value = 0\<rparr>"

definition gauge_set :: "i64 \<Rightarrow> int_gauge \<Rightarrow> int_gauge" where
  "gauge_set v g = (if g_enabled g then g\<lparr>g_value := v\<rparr> else g)"

definition gauge_inc :: "int_gauge \<Rightarrow> int_gauge" where
  "gauge_inc g = (if g_enabled g then g\<lparr>g_value := g_value g + 1\<rparr> else g)"

definition gauge_dec :: "int_gauge \<Rightarrow> int_gauge" where
  "gauge_dec g = (if g_enabled g then g\<lparr>g_value := g_value g - 1\<rparr> else g)"

definition gauge_get :: "int_gauge \<Rightarrow> i64" where
  "gauge_get g = (if g_enabled g then g_value g else 0)"

section \<open>The registry\<close>

record metrics =
  m_subscribers :: int_gauge
  m_monitored_paths :: int_gauge
  m_reader_groups :: int_gauge
  m_pending_paths :: int_gauge
  m_disk_buffer_events :: int_gauge
  m_unresolved_renames :: u64
  m_unparsed_info_records :: u64

definition metrics_new :: "bool \<Rightarrow> metrics" where
  "metrics_new enabled =
     \<lparr>m_subscribers = gauge_new enabled, m_monitored_paths = gauge_new enabled,
      m_reader_groups = gauge_new enabled, m_pending_paths = gauge_new enabled,
      m_disk_buffer_events = gauge_new enabled, m_unresolved_renames = 0,
      m_unparsed_info_records = 0\<rparr>"

definition metrics_is_enabled :: "metrics \<Rightarrow> bool" where
  "metrics_is_enabled m = g_enabled (m_subscribers m)"

definition set_subscribers :: "i64 \<Rightarrow> metrics \<Rightarrow> metrics" where
  "set_subscribers n m = m\<lparr>m_subscribers := gauge_set n (m_subscribers m)\<rparr>"

definition inc_subscribers :: "metrics \<Rightarrow> metrics" where
  "inc_subscribers m = m\<lparr>m_subscribers := gauge_inc (m_subscribers m)\<rparr>"

definition dec_subscribers :: "metrics \<Rightarrow> metrics" where
  "dec_subscribers m = m\<lparr>m_subscribers := gauge_dec (m_subscribers m)\<rparr>"

definition subscribers :: "metrics \<Rightarrow> i64" where
  "subscribers m = gauge_get (m_subscribers m)"

definition set_monitored_paths :: "i64 \<Rightarrow> metrics \<Rightarrow> metrics" where
  "set_monitored_paths n m = m\<lparr>m_monitored_paths := gauge_set n (m_monitored_paths m)\<rparr>"

definition set_reader_groups :: "i64 \<Rightarrow> metrics \<Rightarrow> metrics" where
  "set_reader_groups n m = m\<lparr>m_reader_groups := gauge_set n (m_reader_groups m)\<rparr>"

definition set_pending_paths :: "i64 \<Rightarrow> metrics \<Rightarrow> metrics" where
  "set_pending_paths n m = m\<lparr>m_pending_paths := gauge_set n (m_pending_paths m)\<rparr>"

definition set_disk_buffer_events :: "i64 \<Rightarrow> metrics \<Rightarrow> metrics" where
  "set_disk_buffer_events n m =
     m\<lparr>m_disk_buffer_events := gauge_set n (m_disk_buffer_events m)\<rparr>"

definition inc_events_unresolved_rename :: "u64 \<Rightarrow> metrics \<Rightarrow> metrics" where
  "inc_events_unresolved_rename n m = m\<lparr>m_unresolved_renames := m_unresolved_renames m + n\<rparr>"

definition inc_unparsed_info_records :: "u64 \<Rightarrow> metrics \<Rightarrow> metrics" where
  "inc_unparsed_info_records n m = m\<lparr>m_unparsed_info_records := m_unparsed_info_records m + n\<rparr>"

section \<open>Lemmas\<close>

definition counter_value :: "counter_vec \<Rightarrow> labels \<Rightarrow> u64" where
  "counter_value c ls = (case map_of (cv_counters c) ls of Some n \<Rightarrow> n | None \<Rightarrow> 0)"

lemma inc_counters:
  "cv_enabled c \<Longrightarrow> map_of (cv_counters (counter_inc ls c)) =
     (map_of (cv_counters c))(ls \<mapsto> counter_value c ls + 1)"
  by (auto simp: counter_inc_def counter_value_def al_get_put fun_eq_iff split: option.splits)

lemma inc_enabled [simp]: "cv_enabled (counter_inc ls c) = cv_enabled c"
  by (simp add: counter_inc_def Let_def split: option.split)

lemma inc_ok: "al_ok (cv_counters c) \<Longrightarrow> al_ok (cv_counters (counter_inc ls c))"
  by (auto simp: counter_inc_def Let_def al_ok_put split: option.split)

lemma run_enabled [simp]: "cv_enabled (fold counter_inc calls c) = cv_enabled c"
  by (induction calls arbitrary: c) simp_all

lemma run_ok: "al_ok (cv_counters c) \<Longrightarrow> al_ok (cv_counters (fold counter_inc calls c))"
  by (induction calls arbitrary: c) (simp_all add: inc_ok)

lemma run_value:
  "cv_enabled c \<Longrightarrow>
     counter_value (fold counter_inc calls c) ls = counter_value c ls + of_nat (count_list calls ls)"
  by (induction calls arbitrary: c) (auto simp: counter_value_def inc_counters)

lemma run_keys:
  "cv_enabled c \<Longrightarrow>
     (map_of (cv_counters (fold counter_inc calls c)) ls = None) =
     (map_of (cv_counters c) ls = None \<and> ls \<notin> set calls)"
  by (induction calls arbitrary: c) (auto simp: inc_counters)

section \<open>Properties\<close>

text \<open>
  The snapshot of an enabled counter holds one entry for each label set that was ever
  incremented, with the number of increments modulo 2 to the 64; a disabled one holds nothing.
\<close>

theorem counter_counts:
  "distinct (map fst (counter_gather (fold counter_inc calls (counter_new enabled)))) \<and>
   ((ls, n) \<in> set (counter_gather (fold counter_inc calls (counter_new enabled))) \<longleftrightarrow>
      enabled \<and> ls \<in> set calls \<and> n = of_nat (count_list calls ls))"
proof (cases enabled)
  case False
  then show ?thesis by (simp add: counter_gather_def counter_new_def)
next
  case True
  let ?c = "fold counter_inc calls (counter_new enabled)"
  have en: "cv_enabled (counter_new enabled)" using True by (simp add: counter_new_def)
  have ok: "al_ok (cv_counters ?c)" by (rule run_ok) (simp add: counter_new_def)
  have g: "counter_gather ?c = cv_counters ?c" using en by (simp add: counter_gather_def)
  have "map_of (cv_counters ?c) ls = Some n \<longleftrightarrow> ls \<in> set calls \<and> n = of_nat (count_list calls ls)"
    using run_value [OF en, of calls ls] run_keys [OF en, of calls ls]
    by (cases "map_of (cv_counters ?c) ls") (auto simp: counter_value_def counter_new_def)
  then show ?thesis
    using True al.entries_iff [OF ok, of ls n] al.entries_distinct [OF ok] unfolding g by simp
qed

end
