(* ===== verification/Monitor_State.thy ===== *)
theory Monitor_State
  imports Store Mark_Walk Metrics "HOL-Library.Monad_Syntax"
begin

text \<open>
  The monitor of \<^verbatim>\<open>src/common/monitor.rs\<close> and its operations on watched paths:
  \<^verbatim>\<open>monitor/live_path.rs\<close>, \<^verbatim>\<open>temp_marks.rs\<close>, \<^verbatim>\<open>dir_watcher.rs\<close>, \<^verbatim>\<open>reader.rs\<close> and
  \<^verbatim>\<open>init.rs\<close>. The operating system is a record of answers, what is asked of it goes into a
  trace. An operation returns \<open>None\<close> where the code would panic at an index (or not end).
\<close>

section \<open>State\<close>

record fs_group =
  gr_dev_id :: u64
  gr_ref_count :: nat

record reader_state =
  rs_restart_count :: u32
  rs_last_restart :: nat
  rs_gave_up :: bool

datatype watch_kind = WatchNew | WatchRoot | WatchSelf

datatype mark_action =
    MarkDir nat u64 path
  | UnmarkDir nat path
  | MarkTree nat u64 path "u32 option" bool
  | NewGroup nat bool u64 path
  | CacheDir path
  | SpawnReader nat
  | AddWatch path watch_kind

text \<open>A key of the slot map is never given out twice; \<open>mo_next\<close> is the next one.\<close>

record monitor =
  mo_paths :: "path list"
  mo_canonical :: "path list"
  mo_entries :: entries
  mo_log_dir :: "path option"
  mo_groups :: "(nat, fs_group) hash"
  mo_next :: nat
  mo_path_to_group :: "(path, nat) hash"
  mo_shared_cache :: bool
  mo_factory :: bool
  mo_inotify :: bool
  mo_watches :: "(path \<times> nat) list"
  mo_pending :: "(path \<times> path_entry) list"
  mo_temp :: "(path, path \<times> nat) hash"
  mo_buffer_size :: nat
  mo_event_tx :: bool
  mo_daemon_pid :: u32
  mo_readers :: "(nat, reader_state) hash"
  mo_metrics :: metrics
  mo_privileged :: bool
  mo_trace :: "mark_action list"

record world =
  w_fan :: fan_consts
  w_fs :: fs_view
  w_tree :: dir_tree
  w_inotify_init :: bool
  w_watch :: "path \<Rightarrow> nat option"
  w_mark :: "nat \<Rightarrow> path \<Rightarrow> bool"
  w_create :: "path \<Rightarrow> bool"
  w_dup :: "nat \<Rightarrow> bool"
  w_now :: nat
  w_parse_size :: "string \<Rightarrow> string + size_filter"
  w_show_size :: "size_filter \<Rightarrow> string"
  w_lru_new :: "nat \<Rightarrow> bool"
  w_broadcast_new :: "nat \<Rightarrow> bool"

datatype mon_error =
    BufferTooSmall
  | BufferTooLarge
  | LogOverlap path
  | CmdFsmon
  | BadEntry entry_error
  | NoFactory
  | OpenFailed path
  | CreateFailed path
  | PathNotFound path
  | InotifyFailed

datatype outcome = Done | Failed mon_error

definition log_action :: "mark_action \<Rightarrow> monitor \<Rightarrow> monitor" where
  "log_action a m = m\<lparr>mo_trace := mo_trace m @ [a]\<rparr>"

definition dev_of :: "world \<Rightarrow> path \<Rightarrow> u64" where
  "dev_of w p = (case fs_dev (w_fs w) p of Some d \<Rightarrow> d | None \<Rightarrow> 0)"

definition entries_mask :: "fan_consts \<Rightarrow> entries \<Rightarrow> u64" where
  "entries_mask K es = or_masks (map (\<lambda>(_, opts). path_mask_from_options K opts) es)"

definition entries_of :: "path \<Rightarrow> entries \<Rightarrow> entries" where
  "entries_of p es = filter (\<lambda>(q, _). q = p) es"

definition safe_mask :: "world \<Rightarrow> u64 \<Rightarrow> u64" where
  "safe_mask w b = b AND NOT (FAN_FS_ERROR (w_fan w))"

section \<open>Groups\<close>

definition find_group :: "monitor \<Rightarrow> u64 \<Rightarrow> nat option" where
  "find_group m dev = map_option fst (find (\<lambda>(_, g). gr_dev_id g = dev) (mo_groups m))"

definition retain_group :: "nat \<Rightarrow> (nat, fs_group) hash \<Rightarrow> (nat, fs_group) hash" where
  "retain_group k gs =
     (case map_of gs k of
        None \<Rightarrow> gs
      | Some g \<Rightarrow> al_put k (g\<lparr>gr_ref_count := gr_ref_count g + 1\<rparr>) gs)"

definition release_group :: "nat \<Rightarrow> (nat, fs_group) hash \<Rightarrow> (nat, fs_group) hash" where
  "release_group k gs =
     (case map_of gs k of
        None \<Rightarrow> gs
      | Some g \<Rightarrow>
          (let n = gr_ref_count g - 1 in
           if n = 0 then al_del k gs else al_put k (g\<lparr>gr_ref_count := n\<rparr>) gs))"

definition insert_group :: "u64 \<Rightarrow> monitor \<Rightarrow> monitor" where
  "insert_group dev m =
     m\<lparr>mo_groups := al_put (mo_next m) \<lparr>gr_dev_id = dev, gr_ref_count = 1\<rparr> (mo_groups m),
       mo_next := Suc (mo_next m)\<rparr>"

section \<open>Readers\<close>

text \<open>Instants are nanoseconds.\<close>

definition MAX_RESTARTS :: u32 where "MAX_RESTARTS = 3"
definition BACKOFF_WINDOW :: nat where "BACKOFF_WINDOW = 60 * 10 ^ 9"

definition spawned_state :: "world \<Rightarrow> reader_state option \<Rightarrow> reader_state" where
  "spawned_state w s =
     (case s of
        Some st \<Rightarrow>
          \<lparr>rs_restart_count = rs_restart_count st + 1, rs_last_restart = w_now w, rs_gave_up = False\<rparr>
      | None \<Rightarrow> \<lparr>rs_restart_count = 1, rs_last_restart = w_now w, rs_gave_up = False\<rparr>)"

definition spawn_fd_reader :: "world \<Rightarrow> nat \<Rightarrow> monitor \<Rightarrow> monitor option" where
  "spawn_fd_reader w k m =
     (if \<not> mo_event_tx m then Some m
      else if \<not> mo_shared_cache m then Some m
      else
        (case map_of (mo_groups m) k of
           None \<Rightarrow> None
         | Some g \<Rightarrow>
             if \<not> w_dup w k then Some m
             else
               Some (log_action (SpawnReader k)
                 (m\<lparr>mo_readers := al_put k (spawned_state w (map_of (mo_readers m) k)) (mo_readers m),
                    mo_metrics := set_reader_groups (of_nat (length (mo_groups m))) (mo_metrics m)\<rparr>))))"

definition gives_up :: "world \<Rightarrow> reader_state option \<Rightarrow> bool" where
  "gives_up w s =
     (case s of
        None \<Rightarrow> False
      | Some st \<Rightarrow> w_now w - rs_last_restart st < BACKOFF_WINDOW \<and> MAX_RESTARTS \<le> rs_restart_count st)"

definition restart_reader :: "world \<Rightarrow> nat \<Rightarrow> monitor \<Rightarrow> monitor option" where
  "restart_reader w k m =
     (let state = map_of (mo_readers m) k in
      if gives_up w state then
        Some (case state of
                Some st \<Rightarrow> m\<lparr>mo_readers := al_put k (st\<lparr>rs_gave_up := True\<rparr>) (mo_readers m)\<rparr>
              | None \<Rightarrow> m)
      else if map_of (mo_groups m) k = None then Some m
      else spawn_fd_reader w k m)"

section \<open>inotify watches\<close>

definition add_watch :: "world \<Rightarrow> path \<Rightarrow> watch_kind \<Rightarrow> monitor \<Rightarrow> monitor" where
  "add_watch w p kind m =
     (case w_watch w p of
        None \<Rightarrow> m
      | Some wd \<Rightarrow> log_action (AddWatch p kind) (m\<lparr>mo_watches := mo_watches m @ [(p, wd)]\<rparr>))"

definition add_watch_once :: "world \<Rightarrow> path \<Rightarrow> watch_kind \<Rightarrow> monitor \<Rightarrow> monitor" where
  "add_watch_once w p kind m =
     (if p \<in> fst ` set (mo_watches m) then m else add_watch w p kind m)"

definition setup_inotify_watches :: "world \<Rightarrow> monitor \<Rightarrow> monitor" where
  "setup_inotify_watches w m =
     (if \<not> mo_inotify m then m
      else
        (let m1 = fold (\<lambda>(p, _) s.
                    case nearest_existing_ancestor (w_fs w) p of
                      None \<Rightarrow> s
                    | Some q \<Rightarrow> add_watch_once w q WatchNew s) (mo_pending m) m;
             m2 = fold (\<lambda>(p, opts) s.
                    if \<not> po_recursive opts \<or> \<not> fs_is_dir (w_fs w) p then s
                    else add_watch_once w p WatchRoot s) (mo_entries m) m1
         in fold (\<lambda>(p, opts) s.
              if po_recursive opts \<or> \<not> fs_is_dir (w_fs w) p then s
              else add_watch_once w p WatchSelf s) (mo_entries m) m2))"

text \<open>The recursion over the subdirectories, with the call stack as an explicit list.\<close>

definition watch_children :: "world \<Rightarrow> path \<Rightarrow> path list" where
  "watch_children w dir =
     (case dt_entries (w_tree w) dir of
        None \<Rightarrow> []
      | Some es \<Rightarrow> filter (fs_is_dir (w_fs w)) (map fst es))"

partial_function (option) watch_loop :: "world \<Rightarrow> path list \<Rightarrow> monitor \<Rightarrow> monitor option" where
  "watch_loop w ds m =
     (case ds of
        [] \<Rightarrow> Some m
      | dir # rest \<Rightarrow>
          if dir \<in> fst ` set (mo_watches m) then watch_loop w rest m
          else watch_loop w (watch_children w dir @ rest) (add_watch w dir WatchNew m))"

definition watch_recursive :: "world \<Rightarrow> path \<Rightarrow> monitor \<Rightarrow> monitor option" where
  "watch_recursive w dir m = watch_loop w [dir] m"

section \<open>Adding and removing paths\<close>

definition canonical_of :: "path \<Rightarrow> monitor \<Rightarrow> path" where
  "canonical_of p m =
     (case position (\<lambda>q. q = p) (mo_paths m) of
        None \<Rightarrow> p
      | Some i \<Rightarrow> if i < length (mo_canonical m) then mo_canonical m ! i else p)"

text \<open>Mark a watched path again with the masks of all its entries.\<close>

definition remark_path :: "world \<Rightarrow> path \<Rightarrow> monitor \<Rightarrow> monitor option" where
  "remark_path w p m =
     (let new_mask = entries_mask (w_fan w) (entries_of p (mo_entries m)) in
      case map_of (mo_path_to_group m) p of
        None \<Rightarrow> Some m
      | Some k \<Rightarrow>
          if map_of (mo_groups m) k = None then None
          else
            (let c = canonical_of p m in
             if mo_factory m \<and> fs_open_dir (w_fs w) c
             then Some (log_action (MarkDir k (safe_mask w new_mask) c) m)
             else Some m))"

definition count_entries :: "monitor \<Rightarrow> monitor" where
  "count_entries m =
     m\<lparr>mo_metrics := set_monitored_paths (of_nat (length (mo_entries m))) (mo_metrics m)\<rparr>"

definition overlaps_log_dir :: "world \<Rightarrow> path option \<Rightarrow> path \<Rightarrow> bool \<Rightarrow> bool" where
  "overlaps_log_dir w log_dir p recursive =
     (case log_dir of
        None \<Rightarrow> False
      | Some d \<Rightarrow>
          (let c = canonicalize_or (w_fs w) d in c = p \<or> recursive \<and> starts_with c p))"

definition mark_tree :: "world \<Rightarrow> nat \<Rightarrow> u64 \<Rightarrow> path \<Rightarrow> path_options \<Rightarrow> monitor \<Rightarrow> monitor" where
  "mark_tree w k b c opts m =
     (if po_recursive opts \<and> fs_is_dir (w_fs w) c
      then log_action (MarkTree k b c (po_max_depth opts) (mo_shared_cache m)) m
      else m)"

definition join_group :: "world \<Rightarrow> nat \<Rightarrow> u64 \<Rightarrow> path \<Rightarrow> path_options \<Rightarrow> monitor \<Rightarrow> monitor" where
  "join_group w k b c opts m =
     (let m1 = (if \<not> fs_open_dir (w_fs w) c then m
                else
                  (let m' = log_action (MarkDir k (safe_mask w b) c) m in
                   if \<not> w_mark w k c then m' else mark_tree w k b c opts m'))
      in m1\<lparr>mo_groups := retain_group k (mo_groups m1)\<rparr>)"

definition create_group ::
  "world \<Rightarrow> u64 \<Rightarrow> u64 \<Rightarrow> path \<Rightarrow> monitor \<Rightarrow> (mon_error + nat) \<times> monitor" where
  "create_group w dev b c m =
     (if \<not> fs_open_dir (w_fs w) c then (Inl (OpenFailed c), m)
      else
        (let m1 = log_action (NewGroup (mo_next m) (mo_privileged m) b c) m in
         if \<not> w_create w c then (Inl (CreateFailed c), m1) else (Inr (mo_next m), m1)))"

definition register_path ::
  "world \<Rightarrow> path \<Rightarrow> path \<Rightarrow> path_options \<Rightarrow> nat \<Rightarrow> monitor \<Rightarrow> monitor" where
  "register_path w p c opts k m =
     (let m1 = m\<lparr>mo_path_to_group := al_put p k (mo_path_to_group m),
                 mo_paths := mo_paths m @ [p],
                 mo_canonical := mo_canonical m @ [c],
                 mo_entries := mo_entries m @ [(p, opts)]\<rparr>;
          m2 = (if \<not> po_recursive opts \<and> fs_is_dir (w_fs w) c \<and> mo_shared_cache m1
                then log_action (CacheDir c) m1 else m1)
      in count_entries m2)"

definition add_new_path ::
  "world \<Rightarrow> path \<Rightarrow> path_options \<Rightarrow> monitor \<Rightarrow> (outcome \<times> monitor) option" where
  "add_new_path w p opts m =
     (let c = canonicalize_or (w_fs w) p;
          b = path_mask_from_options (w_fan w) opts;
          dev = dev_of w c
      in if \<not> mo_factory m then Some (Failed NoFactory, m)
         else
           (case find_group m dev of
              Some k \<Rightarrow> Some (Done, register_path w p c opts k (join_group w k b c opts m))
            | None \<Rightarrow>
                (case create_group w dev b c m of
                   (Inl e, m1) \<Rightarrow> Some (Failed e, m1)
                 | (Inr k, m1) \<Rightarrow> do {
                     m2 \<leftarrow> spawn_fd_reader w k (insert_group dev (mark_tree w k b c opts m1));
                     Some (Done, register_path w p c opts k m2)
                   })))"

definition add_path :: "world \<Rightarrow> path_entry \<Rightarrow> monitor \<Rightarrow> (outcome \<times> monitor) option" where
  "add_path w e m =
     (let p = snd (resolve_recursion_check (w_fs w) (pe_path e)) in
      if p \<in> set (mo_paths m) then
        (case try_from_entry (w_parse_size w) e of
           Inl err \<Rightarrow> Some (Failed (BadEntry err), m)
         | Inr opts \<Rightarrow> do {
             m1 \<leftarrow> remark_path w p (m\<lparr>mo_entries := mo_entries m @ [(p, opts)]\<rparr>);
             Some (Done, count_entries m1)
           })
      else if overlaps_log_dir w (mo_log_dir m) p (pe_recursive e = Some True) then
        Some (Failed (LogOverlap p), m)
      else if \<not> fs_exists (w_fs w) p then
        Some (Done,
          if list_ex (\<lambda>(q, e'). q = p \<and> pe_cmd e' = pe_cmd e) (mo_pending m) then m
          else setup_inotify_watches w (m\<lparr>mo_pending := mo_pending m @ [(p, e)]\<rparr>))
      else
        (case try_from_entry (w_parse_size w) e of
           Inl err \<Rightarrow> Some (Failed (BadEntry err), m)
         | Inr opts \<Rightarrow>
             if po_cmd opts = Some ''fsmon'' then Some (Failed CmdFsmon, m)
             else add_new_path w p opts m))"

text \<open>The last entry of a path is gone: unmark it, let its group go, forget the path.\<close>

definition drop_path :: "world \<Rightarrow> path \<Rightarrow> monitor \<Rightarrow> monitor option" where
  "drop_path w p m =
     (case position (\<lambda>q. q = p) (mo_paths m) of
        None \<Rightarrow> Some m
      | Some i \<Rightarrow>
          if length (mo_canonical m) \<le> i then None
          else do {
            m1 \<leftarrow> (case map_of (mo_path_to_group m) p of
                     None \<Rightarrow> Some m
                   | Some k \<Rightarrow>
                       if map_of (mo_groups m) k = None then None
                       else
                         (let c = mo_canonical m ! i;
                              m' = (if mo_factory m \<and> fs_open_dir (w_fs w) c
                                    then log_action (UnmarkDir k c) m else m)
                          in Some (m'\<lparr>mo_groups := release_group k (mo_groups m')\<rparr>)));
            Some (m1\<lparr>mo_paths := remove_at i (mo_paths m1),
                     mo_canonical := remove_at i (mo_canonical m1),
                     mo_path_to_group := al_del p (mo_path_to_group m1)\<rparr>)
          })"

definition removes :: "path \<Rightarrow> string option \<Rightarrow> path \<times> path_options \<Rightarrow> bool" where
  "removes p cmd = (\<lambda>(q, opts). q = p \<and> (case cmd of Some c \<Rightarrow> po_cmd opts = Some c | None \<Rightarrow> True))"

definition remove_path ::
  "world \<Rightarrow> path \<Rightarrow> string option \<Rightarrow> monitor \<Rightarrow> (outcome \<times> monitor) option" where
  "remove_path w p cmd m =
     (let kept = filter (\<lambda>x. \<not> removes p cmd x) (mo_entries m) in
      if length (mo_entries m) - length kept = 0 then Some (Failed (PathNotFound p), m)
      else
        (let m1 = m\<lparr>mo_entries := kept\<rparr> in do {
           m2 \<leftarrow> (if \<not> list_ex (\<lambda>(q, _). q = p) kept then drop_path w p m1 else remark_path w p m1);
           let m3 = count_entries m2;
           Some (Done, m3\<lparr>mo_metrics :=
             set_reader_groups (of_nat (length (mo_groups m3))) (mo_metrics m3)\<rparr>)
         }))"

section \<open>Temporary marks on the parents of vanished paths\<close>

definition pending_options :: "world \<Rightarrow> path \<Rightarrow> monitor \<Rightarrow> path_options list" where
  "pending_options w p m =
     List.map_filter (\<lambda>(q, e). if q = p then
        (case try_from_entry (w_parse_size w) e of Inl _ \<Rightarrow> None | Inr opts \<Rightarrow> Some opts) else None)
       (mo_pending m)"

definition insert_temp :: "path \<Rightarrow> path \<Rightarrow> nat \<Rightarrow> monitor \<Rightarrow> monitor" where
  "insert_temp target par k m = m\<lparr>mo_temp := al_put target (par, k) (mo_temp m)\<rparr>"

definition add_temp_parent_mark :: "world \<Rightarrow> path \<Rightarrow> monitor \<Rightarrow> (bool \<times> monitor) option" where
  "add_temp_parent_mark w target m =
     (case nearest_existing_ancestor (w_fs w) target of
        None \<Rightarrow> Some (False, m)
      | Some par \<Rightarrow>
          if par = target then Some (False, m)
          else
            (let c = canonicalize_or (w_fs w) par;
                 saved = map snd (entries_of target (mo_entries m));
                 pend = pending_options w target m;
                 b = or_masks (map (path_mask_from_options (w_fan w)) (saved @ pend))
             in if saved = [] \<and> pend = [] then Some (False, m)
                else if b = 0 then Some (False, m)
                else if \<not> mo_factory m then Some (False, m)
                else
                  (case find_group m (dev_of w c) of
                     Some k \<Rightarrow>
                       if \<not> fs_open_dir (w_fs w) c then Some (False, m)
                       else
                         (let m1 = log_action (MarkDir k (safe_mask w b) c) m in
                          if \<not> w_mark w k c then Some (False, m1)
                          else Some (True, insert_temp target par k
                                 (m1\<lparr>mo_groups := retain_group k (mo_groups m1)\<rparr>)))
                   | None \<Rightarrow>
                       (case create_group w (dev_of w c) b c m of
                          (Inl _, m1) \<Rightarrow> Some (False, m1)
                        | (Inr k, m1) \<Rightarrow> do {
                            m2 \<leftarrow> spawn_fd_reader w k (insert_group (dev_of w c) m1);
                            Some (True, insert_temp target par k m2)
                          }))))"

definition remove_temp_parent_mark :: "world \<Rightarrow> path \<Rightarrow> monitor \<Rightarrow> monitor" where
  "remove_temp_parent_mark w target m =
     (case map_of (mo_temp m) target of
        None \<Rightarrow> m
      | Some (par, k) \<Rightarrow>
          (let m1 = m\<lparr>mo_temp := al_del target (mo_temp m)\<rparr>;
               c = canonicalize_or (w_fs w) par;
               m2 = (if mo_factory m1 \<and> map_of (mo_groups m1) k \<noteq> None \<and> fs_open_dir (w_fs w) c
                     then log_action (UnmarkDir k c) m1 else m1)
           in m2\<lparr>mo_groups := release_group k (mo_groups m2)\<rparr>))"

definition cleanup_temp_parent_marks :: "world \<Rightarrow> monitor \<Rightarrow> monitor" where
  "cleanup_temp_parent_marks w m =
     fold (remove_temp_parent_mark w) (filter (\<lambda>t. t \<in> set (mo_paths m)) (map fst (mo_temp m))) m"

section \<open>Pending paths and new directories\<close>

text \<open>The entry a path is queued under again, built from its options.\<close>

definition entry_from_options :: "world \<Rightarrow> path \<Rightarrow> path_options \<Rightarrow> path_entry" where
  "entry_from_options w p opts =
     \<lparr>pe_cmd = po_cmd opts, pe_path = p, pe_recursive = Some (po_recursive opts),
      pe_types = map_option (map show_event_type) (po_event_types opts),
      pe_size = map_option (w_show_size w) (po_size_filter opts),
      pe_max_depth = po_max_depth opts, pe_symlink_target = None\<rparr>"

definition count_pending :: "monitor \<Rightarrow> monitor" where
  "count_pending m =
     m\<lparr>mo_metrics := set_pending_paths (of_nat (length (mo_pending m))) (mo_metrics m)\<rparr>"

text \<open>One pending path: what \<^verbatim>\<open>still_pending\<close> collects travels beside the state.\<close>

definition try_pending ::
  "world \<Rightarrow> path \<times> path_entry \<Rightarrow> (path \<times> path_entry) list \<times> monitor \<Rightarrow>
   ((path \<times> path_entry) list \<times> monitor) option" where
  "try_pending w pe st =
     (let (p, e) = pe; (still, m) = st in
      if \<not> fs_exists (w_fs w) p then Some (still @ [pe], m)
      else do {
        (res, m') \<leftarrow> add_path w e m;
        Some (case res of Done \<Rightarrow> (still, m') | Failed _ \<Rightarrow> (still @ [pe], m'))
      })"

definition check_pending :: "world \<Rightarrow> monitor \<Rightarrow> monitor option" where
  "check_pending w m =
     (if mo_pending m = [] \<and> mo_temp m = [] then Some m
      else do {
        (still, m1) \<leftarrow> fold_opt (try_pending w) (mo_pending m) ([], m\<lparr>mo_pending := []\<rparr>);
        let m2 = cleanup_temp_parent_marks w (m1\<lparr>mo_pending := still\<rparr>);
        Some (count_pending (setup_inotify_watches w m2))
      })"

definition min_max_depth :: "entries \<Rightarrow> u32 option" where
  "min_max_depth es =
     (case List.map_filter (\<lambda>(_, opts). po_max_depth opts) es of
        [] \<Rightarrow> None
      | d # ds \<Rightarrow> Some (fold min ds d))"

definition on_new_subdirectory :: "world \<Rightarrow> path \<Rightarrow> monitor \<Rightarrow> (path list \<times> monitor) option" where
  "on_new_subdirectory w p m =
     (let c = canonicalize_or (w_fs w) p in
      if \<not> fs_is_dir (w_fs w) c then Some ([], m)
      else
        (case fs_dev (w_fs w) c of
           None \<Rightarrow> Some ([], m)
         | Some dev \<Rightarrow>
             (case find_group m dev of
                None \<Rightarrow> Some ([], m)
              | Some k \<Rightarrow>
                  (let b = entries_mask (w_fan w) (mo_entries m);
                       d = min_max_depth (mo_entries m)
                   in if \<not> fs_open_dir (w_fs w) c then Some ([], m)
                      else if \<not> mo_factory m then Some ([], m)
                      else
                        (let m1 = log_action (MarkDir k (safe_mask w b) c) m in
                         if \<not> w_mark w k c then Some ([], m1)
                         else do {
                           let m2 = (if mo_shared_cache m1 then log_action (CacheDir c) m1 else m1);
                           st \<leftarrow> mark_recursive_with_depth (w_fan w) (w_tree w) b c d;
                           let m3 = log_action (MarkTree k b c d (mo_shared_cache m2)) m2;
                           m4 \<leftarrow> (if mo_inotify m3 then watch_recursive w c m3 else Some m3);
                           Some (wk_discovered st, m4)
                         })))))"

definition handle_canonical_root_deleted :: "world \<Rightarrow> path \<Rightarrow> monitor \<Rightarrow> monitor option" where
  "handle_canonical_root_deleted w p m =
     (let all_opts = opts_for_path (mo_entries m) p in do {
        (_, m1) \<leftarrow> remove_path w p None m;
        let m2 = m1\<lparr>mo_pending := mo_pending m1 @
                     map (\<lambda>opts. (p, entry_from_options w p opts)) all_opts\<rparr>;
        (_, m3) \<leftarrow> add_temp_parent_mark w p (setup_inotify_watches w m2);
        check_pending w m3
      })"

section \<open>inotify events\<close>

record inotify_event =
  ie_wd :: nat
  ie_delete_self :: bool
  ie_move_self :: bool
  ie_create :: bool
  ie_moved_to :: bool
  ie_isdir :: bool
  ie_name :: "string option"

definition watched_by :: "monitor \<Rightarrow> nat \<Rightarrow> path option" where
  "watched_by m wd = map_option fst (find (\<lambda>(_, d). d = wd) (mo_watches m))"

definition queue_once :: "world \<Rightarrow> path \<Rightarrow> path_options \<Rightarrow> monitor \<Rightarrow> monitor" where
  "queue_once w p opts m =
     (if list_ex (\<lambda>(q, e). q = p \<and> pe_cmd e = po_cmd opts) (mo_pending m) then m
      else m\<lparr>mo_pending := mo_pending m @ [(p, entry_from_options w p opts)]\<rparr>)"

definition deleted_paths :: "monitor \<Rightarrow> inotify_event list \<Rightarrow> path list" where
  "deleted_paths m evs =
     List.map_filter (\<lambda>ev.
       if \<not> ie_delete_self ev \<and> \<not> ie_move_self ev then None
       else (case watched_by m (ie_wd ev) of
               None \<Rightarrow> None
             | Some p \<Rightarrow> if p \<in> set (mo_paths m) then Some p else None)) evs"

definition handle_deleted :: "world \<Rightarrow> path \<Rightarrow> monitor \<Rightarrow> monitor option" where
  "handle_deleted w p m =
     (let all_opts = opts_for_path (mo_entries m) p in do {
        (_, m1) \<leftarrow> remove_path w p None m;
        let m2 = fold (queue_once w p) all_opts m1;
        (_, m3) \<leftarrow> add_temp_parent_mark w p m2;
        Some m3
      })"

definition handle_created :: "world \<Rightarrow> inotify_event \<Rightarrow> monitor \<Rightarrow> monitor option" where
  "handle_created w ev m =
     (if \<not> (ie_create ev \<or> ie_isdir ev) \<and> \<not> (ie_moved_to ev \<or> ie_isdir ev) then Some m
      else
        (case ie_name ev of
           None \<Rightarrow> Some m
         | Some n \<Rightarrow>
             (case watched_by m (ie_wd ev) of
                None \<Rightarrow> Some m
              | Some p \<Rightarrow> map_option snd (on_new_subdirectory w (path_join p (path_of n)) m))))"

definition handle_inotify_events ::
  "world \<Rightarrow> inotify_event list option \<Rightarrow> monitor \<Rightarrow> monitor option" where
  "handle_inotify_events w read m =
     (if \<not> mo_inotify m then Some m
      else
        (case read of
           None \<Rightarrow> check_pending w m
         | Some evs \<Rightarrow>
             (let gone = deleted_paths m evs in do {
                m1 \<leftarrow> fold_opt (handle_deleted w) gone m;
                m2 \<leftarrow> (if gone \<noteq> [] then check_pending w (setup_inotify_watches w m1) else Some m1);
                m3 \<leftarrow> fold_opt (handle_created w) evs m2;
                check_pending w m3
              })))"

end
