(* ===== verification/Monitor_Inv.thy ===== *)
theory Monitor_Inv
  imports Monitor_State
begin

text \<open>
  The invariant of the monitor and that every operation keeps it. A group lives exactly as long
  as its reference count, and the count is never below the number of paths and temporary marks
  that name the group: so no index into the groups can panic. The counting is an interface of
  its own, with the group table as its provider.
\<close>

section \<open>Reference counts\<close>

locale ref_table =
  fixes count :: "'g \<Rightarrow> 'k \<Rightarrow> nat"
    and retain :: "'k \<Rightarrow> 'g \<Rightarrow> 'g"
    and release :: "'k \<Rightarrow> 'g \<Rightarrow> 'g"
    and ok :: "'g \<Rightarrow> bool"
  assumes count_retain: "ok g \<Longrightarrow> 0 < count g k \<Longrightarrow> count (retain k g) = (count g)(k := Suc (count g k))"
    and count_release: "ok g \<Longrightarrow> count (release k g) = (count g)(k := count g k - 1)"
    and ok_retain: "ok g \<Longrightarrow> ok (retain k g)"
    and ok_release: "ok g \<Longrightarrow> ok (release k g)"
begin

lemma retain_covers:
  assumes "ok g" and "0 < count g k" and "\<And>j. R j \<le> count g j"
    and "\<And>j. R' j \<le> R j + (if j = k then 1 else 0)"
  shows "R' j \<le> count (retain k g) j"
  using assms(3) [of j] assms(4) [of j] by (auto simp: count_retain [OF assms(1,2)] split: if_splits)

lemma release_covers:
  assumes "ok g" and "\<And>j. R j \<le> count g j"
    and "\<And>j. R' j + (if j = k then 1 else 0) \<le> R j"
  shows "R' j \<le> count (release k g) j"
  using assms(2) [of j] assms(3) [of j] by (auto simp: count_release [OF assms(1)] split: if_splits)

end

definition group_count :: "(nat, fs_group) hash \<Rightarrow> nat \<Rightarrow> nat" where
  "group_count gs k = (case map_of gs k of None \<Rightarrow> 0 | Some g \<Rightarrow> gr_ref_count g)"

definition groups_ok :: "(nat, fs_group) hash \<Rightarrow> bool" where
  "groups_ok gs \<longleftrightarrow>
     al_ok gs \<and> distinct (map (\<lambda>x. gr_dev_id (snd x)) gs) \<and>
     list_all (\<lambda>x. 0 < gr_ref_count (snd x)) gs"

lemma al_put_fresh: "map_of m k = None \<Longrightarrow> al_put k v m = m @ [(k, v)]"
  by (induction k v m rule: al_put.induct) (auto split: if_splits)

lemma map_al_put_same:
  "map_of m k = Some g \<Longrightarrow> f v = f g \<Longrightarrow>
     map (\<lambda>x. f (snd x)) (al_put k v m) = map (\<lambda>x. f (snd x)) m"
  by (induction k v m rule: al_put.induct) auto

lemma list_all_al_put: "list_all P m \<Longrightarrow> P (k, v) \<Longrightarrow> list_all P (al_put k v m)"
  by (induction k v m rule: al_put.induct) auto

lemma map_of_pos: "groups_ok gs \<Longrightarrow> map_of gs k = Some g \<Longrightarrow> 0 < gr_ref_count g"
  using map_of_SomeD by (fastforce simp: groups_ok_def list_all_iff)

lemma group_count_pos: "groups_ok gs \<Longrightarrow> 0 < group_count gs k \<longleftrightarrow> map_of gs k \<noteq> None"
  using map_of_pos [of gs k] by (auto simp: group_count_def split: option.splits)

lemma groups_ok_put:
  assumes "groups_ok gs" and "map_of gs k = Some g"
    and "gr_dev_id g' = gr_dev_id g" and "0 < gr_ref_count g'"
  shows "groups_ok (al_put k g' gs)"
proof -
  have "map (\<lambda>x. gr_dev_id (snd x)) (al_put k g' gs) = map (\<lambda>x. gr_dev_id (snd x)) gs"
    by (rule map_al_put_same [OF assms(2), of gr_dev_id, OF assms(3)])
  with assms show ?thesis
    by (auto simp: groups_ok_def al_ok_put intro: list_all_al_put)
qed

lemma groups_ok_del: "groups_ok gs \<Longrightarrow> groups_ok (al_del k gs)"
  by (auto simp: groups_ok_def al_del_def al_ok_filter distinct_map_filter list_all_iff)

interpretation gt: ref_table group_count retain_group release_group groups_ok
proof unfold_locales
  fix gs :: "(nat, fs_group) hash" and k
  assume ok: "groups_ok gs"
  show "group_count (retain_group k gs) = (group_count gs)(k := Suc (group_count gs k))"
    if "0 < group_count gs k"
    using that by (auto simp: group_count_def retain_group_def al_get_put fun_eq_iff split: option.splits)
  show "group_count (release_group k gs) = (group_count gs)(k := group_count gs k - 1)"
    by (auto simp: group_count_def release_group_def al_get_put al_get_del fun_eq_iff Let_def
        split: option.splits)
  show "groups_ok (retain_group k gs)"
    using ok groups_ok_put [OF ok] by (auto simp: retain_group_def split: option.splits)
  show "groups_ok (release_group k gs)"
    using ok groups_ok_put [OF ok] groups_ok_del [OF ok]
    by (auto simp: release_group_def Let_def split: option.splits)
qed

section \<open>The invariant\<close>

definition group_refs :: "monitor \<Rightarrow> nat \<Rightarrow> nat" where
  "group_refs m k =
     length (filter (\<lambda>x. snd x = k) (mo_path_to_group m)) +
     length (filter (\<lambda>x. snd (snd x) = k) (mo_temp m))"

definition monitor_ok :: "monitor \<Rightarrow> bool" where
  "monitor_ok m \<longleftrightarrow>
     length (mo_canonical m) = length (mo_paths m) \<and> distinct (mo_paths m) \<and>
     fst ` set (mo_entries m) \<subseteq> set (mo_paths m) \<and>
     al_ok (mo_path_to_group m) \<and> al_ok (mo_temp m) \<and>
     fst ` set (mo_path_to_group m) \<subseteq> set (mo_paths m) \<and>
     groups_ok (mo_groups m) \<and> list_all (\<lambda>x. fst x < mo_next m) (mo_groups m) \<and>
     (\<forall>k. group_refs m k \<le> group_count (mo_groups m) k)"

text \<open>The fields the invariant reads; an operation that leaves them alone keeps it.\<close>

definition core where
  "core m = (mo_paths m, mo_canonical m, mo_entries m, mo_groups m, mo_next m,
     mo_path_to_group m, mo_temp m)"

lemma monitor_ok_core: "core m' = core m \<Longrightarrow> monitor_ok m' = monitor_ok m"
  by (simp add: core_def monitor_ok_def group_refs_def)

lemma core_okI: "core m' = core m \<Longrightarrow> monitor_ok m \<Longrightarrow> monitor_ok m'"
  using monitor_ok_core by blast

lemma core_fields:
  "core m' = core m \<Longrightarrow> mo_paths m' = mo_paths m \<and> mo_canonical m' = mo_canonical m \<and>
     mo_entries m' = mo_entries m \<and> mo_groups m' = mo_groups m \<and> mo_next m' = mo_next m \<and>
     mo_path_to_group m' = mo_path_to_group m \<and> mo_temp m' = mo_temp m"
  by (simp add: core_def)

lemma core_updates [simp]:
  "core (log_action a m) = core m"
  "core (m\<lparr>mo_metrics := x\<rparr>) = core m"
  "core (m\<lparr>mo_readers := r\<rparr>) = core m"
  "core (m\<lparr>mo_watches := ws\<rparr>) = core m"
  "core (m\<lparr>mo_pending := ps\<rparr>) = core m"
  "core (count_entries m) = core m"
  "core (count_pending m) = core m"
  "core (mark_tree w k b c opts m) = core m"
  by (simp_all add: core_def log_action_def count_entries_def count_pending_def mark_tree_def)

lemma core_add_watch [simp]: "core (add_watch w p kd m) = core m" "core (add_watch_once w p kd m) = core m"
  by (auto simp: add_watch_def add_watch_once_def core_def log_action_def split: option.splits)

lemma fold_core:
  assumes "\<And>x s. core (f x s) = core s"
  shows "core (fold f xs m) = core m"
  by (induction xs arbitrary: m) (simp_all add: assms)

lemma core_setup_inotify [simp]: "core (setup_inotify_watches w m) = core m"
proof -
  have 1: "core (fold (\<lambda>(p, _) s. case nearest_existing_ancestor (w_fs w) p of
      None \<Rightarrow> s | Some q \<Rightarrow> add_watch_once w q WatchNew s) xs s) = core s"
    for xs :: "(path \<times> path_entry) list" and s
    by (rule fold_core) (auto split: option.splits)
  have 2: "core (fold (\<lambda>(p, opts) s. if \<not> po_recursive opts \<or> \<not> fs_is_dir (w_fs w) p then s
      else add_watch_once w p WatchRoot s) xs s) = core s" for xs s
    by (rule fold_core) auto
  have 3: "core (fold (\<lambda>(p, opts) s. if po_recursive opts \<or> \<not> fs_is_dir (w_fs w) p then s
      else add_watch_once w p WatchSelf s) xs s) = core s" for xs s
    by (rule fold_core) auto
  show ?thesis
    unfolding setup_inotify_watches_def Let_def
    by (cases "mo_inotify m") (simp_all only: simp_thms if_True if_False 1 2 3)
qed

lemma core_queue_once [simp]: "core (queue_once w p opts m) = core m"
  by (simp add: queue_once_def)

lemma monitor_ok_updates [simp]:
  "monitor_ok (log_action a m) = monitor_ok m"
  "monitor_ok (m\<lparr>mo_metrics := x\<rparr>) = monitor_ok m"
  "monitor_ok (m\<lparr>mo_readers := r\<rparr>) = monitor_ok m"
  "monitor_ok (m\<lparr>mo_pending := ps\<rparr>) = monitor_ok m"
  "monitor_ok (count_entries m) = monitor_ok m"
  "monitor_ok (count_pending m) = monitor_ok m"
  "monitor_ok (mark_tree w k b c opts m) = monitor_ok m"
  "monitor_ok (setup_inotify_watches w m) = monitor_ok m"
  "monitor_ok (add_watch w p kd m) = monitor_ok m"
  by (rule monitor_ok_core, simp)+

lemma mark_tree_fields [simp]:
  "mo_paths (mark_tree w k b c opts m) = mo_paths m"
  "mo_canonical (mark_tree w k b c opts m) = mo_canonical m"
  "mo_entries (mark_tree w k b c opts m) = mo_entries m"
  "mo_groups (mark_tree w k b c opts m) = mo_groups m"
  "mo_next (mark_tree w k b c opts m) = mo_next m"
  "mo_path_to_group (mark_tree w k b c opts m) = mo_path_to_group m"
  "mo_temp (mark_tree w k b c opts m) = mo_temp m"
  using core_fields [OF core_updates(8)] by metis+

lemma log_action_fields [simp]:
  "mo_paths (log_action a m) = mo_paths m"
  "mo_canonical (log_action a m) = mo_canonical m"
  "mo_entries (log_action a m) = mo_entries m"
  "mo_groups (log_action a m) = mo_groups m"
  "mo_next (log_action a m) = mo_next m"
  "mo_path_to_group (log_action a m) = mo_path_to_group m"
  "mo_temp (log_action a m) = mo_temp m"
  "mo_pending (log_action a m) = mo_pending m"
  by (simp_all add: log_action_def)

section \<open>References and groups\<close>

lemma monitor_ok_groups:
  "monitor_ok m \<Longrightarrow> groups_ok (mo_groups m) \<and> (\<forall>k. group_refs m k \<le> group_count (mo_groups m) k)"
  by (simp add: monitor_ok_def)

lemma length_filter_pos: "x \<in> set xs \<Longrightarrow> P x \<Longrightarrow> 0 < length (filter P xs)"
  by (induction xs) auto

text \<open>A key that a path or a temporary mark names is the key of a live group.\<close>

lemma path_group_live:
  assumes "monitor_ok m" and "map_of (mo_path_to_group m) p = Some k"
  shows "map_of (mo_groups m) k \<noteq> None"
proof -
  have "(p, k) \<in> set (mo_path_to_group m)" using assms(2) by (rule map_of_SomeD)
  then have "0 < length (filter (\<lambda>x. snd x = k) (mo_path_to_group m))"
    by (rule length_filter_pos) simp
  then have "0 < group_refs m k" by (simp add: group_refs_def)
  with monitor_ok_groups [OF assms(1)] have "0 < group_count (mo_groups m) k"
    by (meson order_less_le_trans)
  then show ?thesis using group_count_pos monitor_ok_groups [OF assms(1)] by blast
qed

lemma find_group_live: "find_group m dev = Some k \<Longrightarrow> groups_ok (mo_groups m) \<Longrightarrow>
    \<exists>g. map_of (mo_groups m) k = Some g \<and> gr_dev_id g = dev"
proof -
  assume "find_group m dev = Some k" and ok: "groups_ok (mo_groups m)"
  then obtain g where "(k, g) \<in> set (mo_groups m)" "gr_dev_id g = dev"
    by (auto simp: find_group_def dest!: find_SomeD)
  with ok show ?thesis by (auto simp: groups_ok_def al_ok_def)
qed

lemma find_group_None: "find_group m dev = None \<Longrightarrow> dev \<notin> (\<lambda>x. gr_dev_id (snd x)) ` set (mo_groups m)"
  by (force simp: find_group_def find_None_iff)

lemma length_filter_put:
  "length (filter P (al_put k v m)) \<le> length (filter P m) + (if P (k, v) then 1 else 0)"
  by (induction k v m rule: al_put.induct) auto

lemma length_filter_del_le: "length (filter P (al_del k m)) \<le> length (filter P m)"
  by (induction m) (auto simp: al_del_def)

lemma length_filter_del:
  "map_of m k = Some v \<Longrightarrow>
     length (filter P (al_del k m)) + (if P (k, v) then 1 else 0) \<le> length (filter P m)"
proof (induction m)
  case (Cons x m)
  then show ?case
    using length_filter_del_le [of P k m] by (auto simp: al_del_def)
qed simp

lemma keys_al_del: "fst ` set (al_del k m) = fst ` set m - {k}"
  by (auto simp: al_del_def)

lemma list_all_release:
  "list_all (\<lambda>x. P (fst x)) gs \<Longrightarrow> list_all (\<lambda>x. P (fst x)) (release_group k gs)"
proof -
  assume a: "list_all (\<lambda>x. P (fst x)) gs"
  have "P k" if "map_of gs k = Some g" for g
    using a map_of_SomeD [OF that] by (auto simp: list_all_iff)
  moreover have "list_all (\<lambda>x. P (fst x)) (al_del k gs)"
    using a by (auto simp: al_del_def list_all_iff)
  ultimately show ?thesis
    using a by (auto simp: release_group_def Let_def intro: list_all_al_put split: option.splits)
qed

lemma list_all_retain:
  "list_all (\<lambda>x. P (fst x)) gs \<Longrightarrow> list_all (\<lambda>x. P (fst x)) (retain_group k gs)"
proof -
  assume a: "list_all (\<lambda>x. P (fst x)) gs"
  have "P k" if "map_of gs k = Some g" for g
    using a map_of_SomeD [OF that] by (auto simp: list_all_iff)
  with a show ?thesis
    by (auto simp: retain_group_def intro: list_all_al_put split: option.splits)
qed

lemma insert_group_ok:
  assumes "monitor_ok m" and "find_group m dev = None"
  shows "monitor_ok (insert_group dev m) \<and> map_of (mo_groups (insert_group dev m)) (mo_next m) \<noteq> None"
proof -
  let ?g = "\<lparr>gr_dev_id = dev, gr_ref_count = 1\<rparr>"
  have fresh: "mo_next m \<notin> fst ` set (mo_groups m)"
    using assms(1) by (auto simp: monitor_ok_def list_all_iff)
  then have none: "map_of (mo_groups m) (mo_next m) = None" by (simp add: map_of_eq_None_iff)
  have gs: "mo_groups (insert_group dev m) = mo_groups m @ [(mo_next m, ?g)]"
    by (simp add: insert_group_def al_put_fresh [OF none])
  have "groups_ok (mo_groups m)" using assms(1) by (simp add: monitor_ok_def)
  then have "groups_ok (mo_groups m @ [(mo_next m, ?g)])"
    using fresh find_group_None [OF assms(2)] by (auto simp: groups_ok_def al_ok_def)
  moreover have "group_refs (insert_group dev m) k \<le> group_count (mo_groups m @ [(mo_next m, ?g)]) k" for k
  proof -
    have "group_refs m k \<le> group_count (mo_groups m) k" using assms(1) by (simp add: monitor_ok_def)
    then show ?thesis
      using none by (auto simp: group_refs_def insert_group_def group_count_def map_add_def split: option.splits)
  qed
  moreover have "list_all (\<lambda>x. fst x < mo_next (insert_group dev m)) (mo_groups m @ [(mo_next m, ?g)])"
    using assms(1) by (auto simp: monitor_ok_def insert_group_def list_all_iff)
  ultimately have "monitor_ok (insert_group dev m)"
    using assms(1) unfolding monitor_ok_def gs by (simp add: insert_group_def)
  then show ?thesis unfolding gs by (simp add: none map_add_def)
qed

section \<open>Operations\<close>

lemma spawn_fd_reader_core:
  "mo_event_tx m \<and> mo_shared_cache m \<longrightarrow> map_of (mo_groups m) k \<noteq> None \<Longrightarrow>
     returns (spawn_fd_reader w k m) (\<lambda>m'. core m' = core m)"
  by (auto simp: spawn_fd_reader_def core_def log_action_def split: option.splits)

lemma restart_reader_core:
  "returns (restart_reader w k m) (\<lambda>m'. core m' = core m)"
proof -
  consider (up) "gives_up w (map_of (mo_readers m) k)"
    | (gone) "\<not> gives_up w (map_of (mo_readers m) k)" "map_of (mo_groups m) k = None"
    | (on) "\<not> gives_up w (map_of (mo_readers m) k)" "map_of (mo_groups m) k \<noteq> None"
    by blast
  then show ?thesis
  proof cases
    case on
    then show ?thesis using spawn_fd_reader_core [of m k w] by (simp add: restart_reader_def Let_def)
  qed (auto simp: restart_reader_def Let_def core_def split: option.splits)
qed

lemma remark_path_core:
  assumes "monitor_ok m"
  shows "returns (remark_path w p m) (\<lambda>m'. core m' = core m)"
proof (cases "map_of (mo_path_to_group m) p")
  case None
  then show ?thesis by (simp add: remark_path_def Let_def)
next
  case (Some k)
  then show ?thesis using path_group_live [OF assms Some] by (auto simp: remark_path_def Let_def)
qed

lemma create_group_core:
  "create_group w dev b c m = (r, m1) \<Longrightarrow> core m1 = core m \<and> (\<forall>k. r = Inr k \<longrightarrow> k = mo_next m)"
  by (auto simp: create_group_def Let_def split: if_splits)

lemma join_group_fields:
  "core (join_group w k b c opts m) = core (m\<lparr>mo_groups := retain_group k (mo_groups m)\<rparr>)"
  by (simp add: join_group_def Let_def core_def)

lemma retain_ok:
  assumes "monitor_ok m" and "map_of (mo_groups m) k \<noteq> None"
  shows "monitor_ok (m\<lparr>mo_groups := retain_group k (mo_groups m)\<rparr>) \<and>
    group_refs m k < group_count (retain_group k (mo_groups m)) k"
proof -
  have g: "groups_ok (mo_groups m)" "\<And>j. group_refs m j \<le> group_count (mo_groups m) j"
    using monitor_ok_groups [OF assms(1)] by auto
  have pos: "0 < group_count (mo_groups m) k" using assms(2) group_count_pos [OF g(1)] by blast
  have c: "group_count (retain_group k (mo_groups m)) = (group_count (mo_groups m))(k := Suc (group_count (mo_groups m) k))"
    by (rule gt.count_retain [OF g(1) pos])
  have "group_refs m j \<le> group_count (retain_group k (mo_groups m)) j" for j
    by (rule gt.retain_covers [OF g(1) pos g(2)]) simp
  then have "monitor_ok (m\<lparr>mo_groups := retain_group k (mo_groups m)\<rparr>)"
    using assms(1) gt.ok_retain [OF g(1), of k] list_all_retain [of "\<lambda>i. i < mo_next m"]
    by (simp add: monitor_ok_def group_refs_def)
  moreover have "group_refs m k < group_count (retain_group k (mo_groups m)) k"
    using g(2) [of k] by (simp add: c)
  ultimately show ?thesis ..
qed

text \<open>One reference more is covered by a count that has one to spare.\<close>

definition spare :: "monitor \<Rightarrow> nat \<Rightarrow> bool" where
  "spare m k \<longleftrightarrow> group_refs m k < group_count (mo_groups m) k"

lemma spare_core: "core m' = core m \<Longrightarrow> spare m' k = spare m k"
  by (simp add: core_def spare_def group_refs_def)

lemma register_path_ok:
  assumes "monitor_ok m" and "spare m k" and "p \<notin> set (mo_paths m)"
  shows "monitor_ok (register_path w p c opts k m)"
proof -
  let ?m = "m\<lparr>mo_path_to_group := al_put p k (mo_path_to_group m), mo_paths := mo_paths m @ [p],
      mo_canonical := mo_canonical m @ [c], mo_entries := mo_entries m @ [(p, opts)]\<rparr>"
  have "group_refs ?m j \<le> group_count (mo_groups m) j" for j
  proof -
    have "group_refs ?m j \<le> group_refs m j + (if k = j then 1 else 0)"
      using length_filter_put [of "\<lambda>x. snd x = j" p k "mo_path_to_group m"]
      by (auto simp: group_refs_def)
    moreover have "group_refs m j \<le> group_count (mo_groups m) j"
      using assms(1) by (simp add: monitor_ok_def)
    ultimately show ?thesis using assms(2) by (auto simp: spare_def split: if_splits)
  qed
  moreover have "fst ` set (al_put p k (mo_path_to_group m)) \<subseteq> insert p (set (mo_paths m))"
    using keys_al_put [of p k "mo_path_to_group m"] assms(1) by (auto simp: monitor_ok_def)
  ultimately have "monitor_ok ?m"
    using assms(1,3) unfolding monitor_ok_def by (auto simp: al_ok_put)
  then show ?thesis by (simp add: register_path_def Let_def)
qed

text \<open>A new group, its reader running: one reference to spare.\<close>

lemma new_group_ok:
  assumes "monitor_ok m" and "find_group m dev = None" and "k = mo_next m"
  shows "returns (spawn_fd_reader w k (insert_group dev m)) (\<lambda>m2. monitor_ok m2 \<and> spare m2 k \<and>
      mo_paths m2 = mo_paths m)"
proof -
  let ?m = "insert_group dev m"
  have ok: "monitor_ok ?m" and live: "map_of (mo_groups ?m) k \<noteq> None"
    using insert_group_ok [OF assms(1,2)] assms(3) by auto
  have "map_of (mo_groups m) k = None"
    using assms(1,3) by (auto simp: monitor_ok_def list_all_iff map_of_eq_None_iff)
  then have "group_refs m k = 0"
    using assms(1) by (auto simp: monitor_ok_def group_count_def dest!: spec [of _ k])
  then have "group_refs ?m k = 0" by (simp add: group_refs_def insert_group_def)
  moreover have "0 < group_count (mo_groups ?m) k"
    using live group_count_pos monitor_ok_groups [OF ok] by blast
  ultimately have sp: "spare ?m k" by (simp add: spare_def)
  have "returns (spawn_fd_reader w k ?m) (\<lambda>m2. core m2 = core ?m)"
    by (rule spawn_fd_reader_core) (use live in simp)
  then show ?thesis
  proof (rule returns_mono, intro conjI)
    fix m2 :: monitor
    assume c: "core m2 = core ?m"
    show "monitor_ok m2" using c ok by (rule core_okI)
    show "spare m2 k" using sp spare_core [OF c] by blast
    show "mo_paths m2 = mo_paths m" using core_fields [OF c] by (simp add: insert_group_def)
  qed
qed

lemma add_new_path_ok:
  assumes ok: "monitor_ok m" and new: "p \<notin> set (mo_paths m)"
  shows "returns (add_new_path w p opts m) (\<lambda>(_, m'). monitor_ok m')"
proof -
  let ?c = "canonicalize_or (w_fs w) p" and ?b = "path_mask_from_options (w_fan w) opts"
  let ?dev = "dev_of w ?c"
  have g: "groups_ok (mo_groups m)" using monitor_ok_groups [OF ok] by simp
  show ?thesis
  proof (cases "mo_factory m")
    case f: True
    show ?thesis
    proof (cases "find_group m ?dev")
      case (Some k)
      let ?m = "join_group w k ?b ?c opts m"
      have c: "core ?m = core (m\<lparr>mo_groups := retain_group k (mo_groups m)\<rparr>)" by (rule join_group_fields)
      have live: "map_of (mo_groups m) k \<noteq> None" using find_group_live [OF Some g] by auto
      from retain_ok [OF ok live]
      have "monitor_ok ?m" "spare ?m k"
        using monitor_ok_core [OF c] spare_core [OF c] by (auto simp: spare_def group_refs_def)
      moreover have "mo_paths ?m = mo_paths m" using core_fields [OF c] by simp
      ultimately show ?thesis
        using f Some register_path_ok [of ?m k p] new by (simp add: add_new_path_def Let_def)
    next
      case None
      obtain r m1 where cg: "create_group w ?dev ?b ?c m = (r, m1)" by (cases "create_group w ?dev ?b ?c m")
      from create_group_core [OF cg] have c: "core m1 = core m" and k: "\<And>k. r = Inr k \<Longrightarrow> k = mo_next m"
        by auto
      then have ok1: "monitor_ok m1" using ok monitor_ok_core by blast
      show ?thesis
      proof (cases r)
        case (Inl e)
        then show ?thesis using f None cg ok1 by (simp add: add_new_path_def Let_def)
      next
        case (Inr k)
        let ?t = "mark_tree w k ?b ?c opts m1"
        have ct: "core ?t = core m" using c by simp
        have kn: "k = mo_next ?t" using k [OF Inr] core_fields [OF ct] by simp
        have none: "find_group ?t ?dev = None" using None core_fields [OF ct] by (simp add: find_group_def)
        have okt: "monitor_ok ?t" using ok1 by simp
        obtain m2 where m2: "spawn_fd_reader w k (insert_group ?dev ?t) = Some m2"
          and "monitor_ok m2" "spare m2 k" "mo_paths m2 = mo_paths ?t"
          using new_group_ok [OF okt none kn, of w] by (auto simp: returns_iff)
        then have "monitor_ok (register_path w p ?c opts k m2)"
          using register_path_ok [of m2 k p] new core_fields [OF c] by simp
        then show ?thesis using f None cg Inr m2(1) by (simp add: add_new_path_def Let_def)
      qed
    qed
  qed (simp add: add_new_path_def Let_def ok)
qed

lemma add_path_ok:
  assumes "monitor_ok m"
  shows "returns (add_path w e m) (\<lambda>(_, m'). monitor_ok m')"
proof -
  define p where "p = snd (resolve_recursion_check (w_fs w) (pe_path e))"
  show ?thesis
  proof (cases "p \<in> set (mo_paths m)")
    case True
    have ok: "monitor_ok (m\<lparr>mo_entries := mo_entries m @ [(p, opts)]\<rparr>)" for opts
      using assms True by (simp add: monitor_ok_def group_refs_def)
    have "returns (remark_path w p (m\<lparr>mo_entries := mo_entries m @ [(p, opts)]\<rparr>) \<bind>
        (\<lambda>m1. Some (Done, count_entries m1))) (\<lambda>(_, m'). monitor_ok m')" for opts
      by (rule returns_bind [OF remark_path_core [OF ok]]) (simp, erule core_okI, rule ok)
    then show ?thesis
      using True by (cases "try_from_entry (w_parse_size w) e") (simp_all add: add_path_def p_def [symmetric] assms)
  next
    case False
    have "returns (add_new_path w p opts m) (\<lambda>(_, m'). monitor_ok m')" for opts
      by (rule add_new_path_ok [OF assms False])
    then show ?thesis
      using False by (cases "try_from_entry (w_parse_size w) e") (simp_all add: add_path_def p_def [symmetric] assms)
  qed
qed

lemma release_ok:
  assumes "monitor_ok m" and "core m' = core (m\<lparr>mo_groups := release_group k (mo_groups m),
      mo_path_to_group := pg, mo_temp := tm, mo_paths := ps, mo_canonical := cs\<rparr>)"
    and "\<And>j. length (filter (\<lambda>x. snd x = j) pg) + length (filter (\<lambda>x. snd (snd x) = j) tm) +
           (if j = k then 1 else 0) \<le> group_refs m j"
    and "length cs = length ps" "distinct ps" "fst ` set (mo_entries m) \<subseteq> set ps"
    and "al_ok pg" "al_ok tm" "fst ` set pg \<subseteq> set ps"
  shows "monitor_ok m'"
proof -
  let ?m = "m\<lparr>mo_groups := release_group k (mo_groups m), mo_path_to_group := pg, mo_temp := tm,
      mo_paths := ps, mo_canonical := cs\<rparr>"
  have g: "groups_ok (mo_groups m)" "\<And>j. group_refs m j \<le> group_count (mo_groups m) j"
    using monitor_ok_groups [OF assms(1)] by auto
  have "group_refs ?m j \<le> group_count (release_group k (mo_groups m)) j" for j
    by (rule gt.release_covers [OF g]) (use assms(3) in \<open>simp add: group_refs_def\<close>)
  then have "monitor_ok ?m"
    using assms gt.ok_release [OF g(1), of k] list_all_release [of "\<lambda>i. i < mo_next m" "mo_groups m" k]
    by (simp add: monitor_ok_def)
  then show ?thesis using monitor_ok_core [OF assms(2)] by simp
qed

lemma drop_path_ok:
  assumes ok: "monitor_ok m" and gone: "p \<notin> fst ` set (mo_entries m)"
  shows "returns (drop_path w p m) (\<lambda>m'. monitor_ok m' \<and> mo_entries m' = mo_entries m \<and>
      set (mo_paths m') = set (mo_paths m) - {p})"
proof (cases "position (\<lambda>q. q = p) (mo_paths m)")
  case None
  then have "p \<notin> set (mo_paths m)" by (auto simp: position_None_iff)
  then show ?thesis unfolding drop_path_def None using ok by simp
next
  case (Some i)
  then have i: "i < length (mo_paths m)" "mo_paths m ! i = p" by (auto dest: position_SomeD)
  have okm: "length (mo_canonical m) = length (mo_paths m)" "distinct (mo_paths m)"
    "al_ok (mo_path_to_group m)" "al_ok (mo_temp m)"
    "fst ` set (mo_path_to_group m) \<subseteq> set (mo_paths m)"
    using ok by (simp_all add: monitor_ok_def)
  note ra = conjI [OF set_remove_at_distinct [OF okm(2) i(1)] distinct_remove_at [OF okm(2), of i]]
  have len: "length (remove_at i (mo_canonical m)) = length (remove_at i (mo_paths m))"
    using i okm(1) by (simp add: length_remove_at)
  have es: "fst ` set (mo_entries m) \<subseteq> set (remove_at i (mo_paths m))"
  proof -
    have "fst ` set (mo_entries m) \<subseteq> set (mo_paths m)" using ok by (simp add: monitor_ok_def)
    then show ?thesis
      unfolding conjunct1 [OF ra] i(2) using gone by (simp only: subset_Diff_insert Diff_empty simp_thms)
  qed
  have pg: "fst ` set (al_del p (mo_path_to_group m)) \<subseteq> set (remove_at i (mo_paths m))"
    unfolding keys_al_del conjunct1 [OF ra] i(2) by (rule Diff_mono [OF okm(5)]) simp
  have aok: "al_ok (al_del p (mo_path_to_group m))" using okm(3) by (rule al_ok_del)
  show ?thesis
  proof (cases "map_of (mo_path_to_group m) p")
    case n: None
    have del: "al_del p (mo_path_to_group m) = mo_path_to_group m"
      using n by (auto simp: al_del_def filter_id_conv map_of_eq_None_iff image_iff)
    let ?m = "m\<lparr>mo_paths := remove_at i (mo_paths m), mo_canonical := remove_at i (mo_canonical m),
        mo_path_to_group := al_del p (mo_path_to_group m)\<rparr>"
    have "monitor_ok ?m"
      using ok len ra es pg unfolding monitor_ok_def group_refs_def del by simp
    then show ?thesis using Some n i ra okm(1) by (simp add: drop_path_def)
  next
    case (Some k)
    note k = Some
    have live: "map_of (mo_groups m) k \<noteq> None" by (rule path_group_live [OF ok k])
    define m1 where "m1 = (if mo_factory m \<and> fs_open_dir (w_fs w) (mo_canonical m ! i)
        then log_action (UnmarkDir k (mo_canonical m ! i)) m else m)"
    have c1: "core m1 = core m" by (simp add: m1_def)
    let ?m = "m1\<lparr>mo_groups := release_group k (mo_groups m1), mo_paths := remove_at i (mo_paths m1),
        mo_canonical := remove_at i (mo_canonical m1), mo_path_to_group := al_del p (mo_path_to_group m1)\<rparr>"
    have cm: "core ?m = core (m\<lparr>mo_groups := release_group k (mo_groups m),
        mo_path_to_group := al_del p (mo_path_to_group m), mo_temp := mo_temp m,
        mo_paths := remove_at i (mo_paths m), mo_canonical := remove_at i (mo_canonical m)\<rparr>)"
      using core_fields [OF c1] by (simp add: core_def)
    have "monitor_ok ?m"
    proof (rule release_ok [OF ok cm])
      fix j
      show "length (filter (\<lambda>x. snd x = j) (al_del p (mo_path_to_group m))) +
          length (filter (\<lambda>x. snd (snd x) = j) (mo_temp m)) + (if j = k then 1 else 0) \<le> group_refs m j"
        using length_filter_del [OF k, of "\<lambda>x. snd x = j"] by (auto simp: group_refs_def)
    qed (use len ra es pg aok okm in auto)
    moreover have "drop_path w p m = Some ?m"
      using \<open>position _ _ = Some i\<close> k live i okm(1) by (simp add: drop_path_def Let_def m1_def)
    moreover have "mo_entries ?m = mo_entries m \<and> set (mo_paths ?m) = set (mo_paths m) - {p}"
      using core_fields [OF c1] ra i by simp
    ultimately show ?thesis by (simp only: returns_Some simp_thms)
  qed
qed

lemma remove_path_ok:
  assumes "monitor_ok m"
  shows "returns (remove_path w p cmd m) (\<lambda>(_, m'). monitor_ok m')"
proof -
  let ?kept = "filter (\<lambda>x. \<not> removes p cmd x) (mo_entries m)"
  let ?m = "m\<lparr>mo_entries := ?kept\<rparr>"
  have ok: "monitor_ok ?m" using assms by (auto simp: monitor_ok_def group_refs_def)
  have "returns (if \<not> list_ex (\<lambda>(q, _). q = p) ?kept then drop_path w p ?m else remark_path w p ?m) monitor_ok"
  proof (cases "list_ex (\<lambda>(q, _). q = p) ?kept")
    case True
    have "returns (remark_path w p ?m) monitor_ok"
      by (rule returns_mono [OF remark_path_core [OF ok]]) (erule core_okI, rule ok)
    with True show ?thesis by simp
  next
    case False
    then have "p \<notin> fst ` set (mo_entries ?m)" by (auto simp: list_ex_iff)
    from drop_path_ok [OF ok this, of w] False show ?thesis by (auto simp: returns_iff)
  qed
  then have "returns ((if \<not> list_ex (\<lambda>(q, _). q = p) ?kept then drop_path w p ?m else remark_path w p ?m) \<bind>
      (\<lambda>m2. let m3 = count_entries m2 in Some (Done, m3\<lparr>mo_metrics :=
        set_reader_groups (of_nat (length (mo_groups m3))) (mo_metrics m3)\<rparr>)))
      (\<lambda>(_, m'). monitor_ok m')"
    by (rule returns_bind) (simp add: Let_def)
  then show ?thesis unfolding remove_path_def Let_def using assms by simp
qed

text \<open>The temporary marks.\<close>

lemma insert_temp_ok:
  assumes "monitor_ok m" and "spare m k"
  shows "monitor_ok (insert_temp target par k m)"
proof -
  have "group_refs (insert_temp target par k m) j \<le> group_count (mo_groups m) j" for j
  proof -
    have "group_refs (insert_temp target par k m) j \<le> group_refs m j + (if k = j then 1 else 0)"
      using length_filter_put [of "\<lambda>x. snd (snd x) = j" target "(par, k)" "mo_temp m"]
      by (auto simp: group_refs_def insert_temp_def)
    moreover have "group_refs m j \<le> group_count (mo_groups m) j"
      using assms(1) by (simp add: monitor_ok_def)
    ultimately show ?thesis using assms(2) by (auto simp: spare_def split: if_splits)
  qed
  then show ?thesis using assms(1) by (simp add: monitor_ok_def insert_temp_def al_ok_put)
qed

lemma add_temp_parent_mark_ok:
  assumes ok: "monitor_ok m"
  shows "returns (add_temp_parent_mark w target m) (\<lambda>(_, m'). monitor_ok m')"
proof (cases "nearest_existing_ancestor (w_fs w) target")
  case None
  then show ?thesis by (simp add: add_temp_parent_mark_def ok)
next
  case (Some par)
  define c where "c = canonicalize_or (w_fs w) par"
  define saved where "saved = map snd (entries_of target (mo_entries m))"
  define pend where "pend = pending_options w target m"
  define b where "b = or_masks (map (path_mask_from_options (w_fan w)) (saved @ pend))"
  note defs = c_def [symmetric] saved_def [symmetric] pend_def [symmetric] b_def [symmetric]
  have g: "groups_ok (mo_groups m)" using monitor_ok_groups [OF ok] by simp
  have join: "monitor_ok (insert_temp target par k (m1\<lparr>mo_groups := retain_group k (mo_groups m1)\<rparr>))"
    if "find_group m (dev_of w c) = Some k" and c1: "core m1 = core m" for k m1
  proof -
    have ok1: "monitor_ok m1" using c1 ok by (rule core_okI)
    have "map_of (mo_groups m) k \<noteq> None" using find_group_live [OF that(1) g] by auto
    then have live: "map_of (mo_groups m1) k \<noteq> None" using core_fields [OF c1] by simp
    show ?thesis
      by (rule insert_temp_ok) (use retain_ok [OF ok1 live] in \<open>simp_all add: spare_def group_refs_def\<close>)
  qed
  have new: "returns (spawn_fd_reader w k (insert_group (dev_of w c) m1) \<bind>
        (\<lambda>m2. Some (True, insert_temp target par k m2))) (\<lambda>(_, m'). monitor_ok m')"
    if "find_group m (dev_of w c) = None" "create_group w (dev_of w c) b c m = (Inr k, m1)" for k m1
  proof -
    from create_group_core [OF that(2)] have c1: "core m1 = core m" and k: "k = mo_next m" by auto
    have "monitor_ok m1" using c1 ok by (rule core_okI)
    moreover have "find_group m1 (dev_of w c) = None" "k = mo_next m1"
      using that(1) k core_fields [OF c1] by (simp_all add: find_group_def)
    ultimately show ?thesis
      by (intro returns_bind [OF new_group_ok]) (simp_all add: insert_temp_ok)
  qed
  have fail: "monitor_ok m1" if "create_group w (dev_of w c) b c m = (r, m1)" for r m1
    using create_group_core [OF that] ok core_okI by blast
  show ?thesis
  proof (cases "par = target \<or> saved = [] \<and> pend = [] \<or> b = 0 \<or> \<not> mo_factory m")
    case True
    then show ?thesis
      unfolding add_temp_parent_mark_def Some by (auto simp: Let_def defs ok simp del: map_append)
  next
    case go: False
    show ?thesis
    proof (cases "find_group m (dev_of w c)")
      case k: (Some k)
      have "returns (if \<not> fs_open_dir (w_fs w) c then Some (False, m)
           else let m1 = log_action (MarkDir k (safe_mask w b) c) m in
             if \<not> w_mark w k c then Some (False, m1)
             else Some (True, insert_temp target par k (m1\<lparr>mo_groups := retain_group k (mo_groups m1)\<rparr>)))
          (\<lambda>(_, m'). monitor_ok m')"
        using join [OF k, of "log_action (MarkDir k (safe_mask w b) c) m"] ok by (simp add: Let_def)
      with go k show ?thesis
        unfolding add_temp_parent_mark_def Some by (simp only: Let_def defs option.case) (auto simp del: map_append)
    next
      case n: None
      obtain r m1 where cg: "create_group w (dev_of w c) b c m = (r, m1)"
        by (cases "create_group w (dev_of w c) b c m")
      show ?thesis
      proof (cases r)
        case (Inl e)
        with go n cg fail [OF cg] show ?thesis
          unfolding add_temp_parent_mark_def Some by (auto simp: Let_def defs simp del: map_append)
      next
        case (Inr k)
        with go n cg new [OF n] show ?thesis
          unfolding add_temp_parent_mark_def Some by (auto simp: Let_def defs simp del: map_append)
      qed
    qed
  qed
qed

lemma remove_temp_parent_mark_ok:
  assumes "monitor_ok m"
  shows "monitor_ok (remove_temp_parent_mark w target m)"
proof (cases "map_of (mo_temp m) target")
  case None
  then show ?thesis by (simp add: remove_temp_parent_mark_def assms)
next
  case (Some pk)
  then obtain par k where pk: "map_of (mo_temp m) target = Some (par, k)" by (cases pk) auto
  show ?thesis
  proof (rule release_ok [OF assms, where k = k and pg = "mo_path_to_group m"
        and tm = "al_del target (mo_temp m)" and ps = "mo_paths m" and cs = "mo_canonical m"])
    show "core (remove_temp_parent_mark w target m) = core (m\<lparr>mo_groups := release_group k (mo_groups m),
        mo_path_to_group := mo_path_to_group m, mo_temp := al_del target (mo_temp m),
        mo_paths := mo_paths m, mo_canonical := mo_canonical m\<rparr>)"
      by (simp add: remove_temp_parent_mark_def pk Let_def core_def)
  next
    fix j
    show "length (filter (\<lambda>x. snd x = j) (mo_path_to_group m)) +
        length (filter (\<lambda>x. snd (snd x) = j) (al_del target (mo_temp m))) +
        (if j = k then 1 else 0) \<le> group_refs m j"
      using length_filter_del [OF pk, of "\<lambda>x. snd (snd x) = j"] by (auto simp: group_refs_def)
  qed (use assms in \<open>auto simp: monitor_ok_def al_ok_del\<close>)
qed

lemma cleanup_ok: "monitor_ok m \<Longrightarrow> monitor_ok (cleanup_temp_parent_marks w m)"
  unfolding cleanup_temp_parent_marks_def
  by (rule fold_preserves) (simp_all add: remove_temp_parent_mark_ok)

lemma check_pending_ok:
  assumes "monitor_ok m"
  shows "returns (check_pending w m) monitor_ok"
proof (cases "mo_pending m = [] \<and> mo_temp m = []")
  case False
  have "returns (fold_opt (try_pending w) (mo_pending m) ([], m\<lparr>mo_pending := []\<rparr>))
      (\<lambda>(_, m'). monitor_ok m')"
  proof (rule returns_fold_opt)
    fix x :: "path \<times> path_entry" and st :: "(path \<times> path_entry) list \<times> monitor"
    assume "case st of (_, m') \<Rightarrow> monitor_ok m'"
    then obtain still m' where st: "st = (still, m')" and ok: "monitor_ok m'" by (cases st) auto
    obtain p e where x: "x = (p, e)" by (cases x)
    show "returns (try_pending w x st) (\<lambda>(_, m'). monitor_ok m')"
      unfolding try_pending_def x st
      using returns_bind [OF add_path_ok [OF ok], of "\<lambda>(res, m'). Some (case res of Done \<Rightarrow> (still, m')
        | Failed _ \<Rightarrow> (still @ [(p, e)], m'))" "\<lambda>(_, m'). monitor_ok m'" w e] ok
      by (auto split: outcome.splits)
  qed (simp add: assms)
  then show ?thesis
    unfolding check_pending_def using False
    by (auto intro!: returns_bind [where Q = "\<lambda>(_, m'). monitor_ok m'"] simp: Let_def cleanup_ok)
qed (simp add: check_pending_def assms)

section \<open>New directories and inotify events\<close>

text \<open>
  A directory tree has no infinite descent: every entry of a directory has a smaller rank (the
  kernel bounds the length of a path and the number of links followed).
\<close>

definition well_founded_tree :: "dir_tree \<Rightarrow> bool" where
  "well_founded_tree t \<longleftrightarrow> (\<exists>rank :: path \<Rightarrow> nat. \<forall>p es q k.
     dt_entries t p = Some es \<longrightarrow> (q, k) \<in> set es \<longrightarrow> rank q < rank p)"

lemma watch_loop_core:
  assumes "well_founded_tree (w_tree w)"
  shows "returns (watch_loop w ds m) (\<lambda>m'. core m' = core m)"
proof -
  define quiet where "quiet ds \<longleftrightarrow> (\<forall>m. returns (watch_loop w ds m) (\<lambda>m'. core m' = core m))" for ds
  obtain rank :: "path \<Rightarrow> nat" where
    rank: "\<And>p es q k. dt_entries (w_tree w) p = Some es \<Longrightarrow> (q, k) \<in> set es \<Longrightarrow> rank q < rank p"
    using assms unfolding well_founded_tree_def by blast
  have child: "rank q < rank d" if "q \<in> set (watch_children w d)" for q d
    using that by (cases "dt_entries (w_tree w) d") (auto simp: watch_children_def intro: rank)
  have step: "quiet (d # rest)" if "rank d < n" "quiet rest" for d rest n
    using that
  proof (induction n arbitrary: d rest)
    case (Suc n)
    have kids: "quiet (cs @ rest)" if "set cs \<subseteq> set (watch_children w d)" for cs
      using that
    proof (induction cs)
      case Nil
      then show ?case using Suc.prems(2) by simp
    next
      case (Cons c cs)
      then have "rank c < n" using child [of c d] Suc.prems(1) by simp
      then show ?case using Suc.IH [of c "cs @ rest"] Cons by simp
    qed
    show ?case
      unfolding quiet_def
    proof
      fix m
      have r: "returns (watch_loop w rest m) (\<lambda>m'. core m' = core m)"
        using Suc.prems(2) by (simp add: quiet_def)
      have "returns (watch_loop w (watch_children w d @ rest) (add_watch w d WatchNew m))
          (\<lambda>m'. core m' = core (add_watch w d WatchNew m))"
        by (rule spec [OF kids [OF subset_refl, unfolded quiet_def]])
      then show "returns (watch_loop w (d # rest) m) (\<lambda>m'. core m' = core m)"
        using r by (subst watch_loop.simps) simp
    qed
  qed simp
  have "quiet ds"
  proof (induction ds)
    case Nil
    show ?case by (simp add: quiet_def watch_loop.simps)
  next
    case (Cons d ds)
    then show ?case using step [of d "Suc (rank d)" ds] by simp
  qed
  then show ?thesis by (simp add: quiet_def)
qed

lemma walk_ends:
  assumes "well_founded_tree t"
  shows "\<exists>h. level t None dir h = []"
proof -
  obtain rank :: "path \<Rightarrow> nat" where
    rank: "\<And>p es q k. dt_entries t p = Some es \<Longrightarrow> (q, k) \<in> set es \<Longrightarrow> rank q < rank p"
    using assms unfolding well_founded_tree_def by blast
  have child: "rank q < rank p" if "q \<in> set (children t None n p)" for p q n
    using that by (cases "dt_entries t p") (auto simp: children_def subdirs_def split: if_splits intro: rank)
  have "rank p + n \<le> rank dir" if "p \<in> set (level t None dir n)" for p n
    using that
  proof (induction n arbitrary: p)
    case (Suc n)
    then obtain q where q: "q \<in> set (level t None dir n)" "p \<in> set (children t None n q)" by auto
    show ?case using child [OF q(2)] Suc.IH [OF q(1)] by simp
  qed simp
  then have "set (level t None dir (Suc (rank dir))) = {}"
    by (metis add_Suc_right add_leD2 all_not_in_conv not_less_eq_eq order_refl)
  then show ?thesis by blast
qed

lemma on_new_subdirectory_core:
  assumes t: "well_founded_tree (w_tree w)"
  shows "returns (on_new_subdirectory w p m) (\<lambda>(_, m'). core m' = core m)"
proof -
  define c where "c = canonicalize_or (w_fs w) p"
  define b where "b = entries_mask (w_fan w) (mo_entries m)"
  define d where "d = min_max_depth (mo_entries m)"
  note defs = c_def [symmetric] b_def [symmetric] d_def [symmetric]
  have "d = None \<longrightarrow> (\<exists>h. level (w_tree w) None c h = [])" using walk_ends [OF t] by blast
  then obtain st where walk: "mark_recursive_with_depth (w_fan w) (w_tree w) b c d = Some st"
    using walk_returns by blast
  have watch: "returns (watch_recursive w c s \<bind> (\<lambda>m4. Some (x, m4))) (\<lambda>(_, m'). core m' = core m)"
    if "core s = core m" for s and x :: "path list"
    unfolding watch_recursive_def
    by (rule returns_bind [OF watch_loop_core [OF t]]) (simp add: that)
  show ?thesis
    unfolding on_new_subdirectory_def Let_def defs
    by (auto simp: walk split: option.split intro: watch)
qed

lemma on_new_subdirectory_ok:
  "well_founded_tree (w_tree w) \<Longrightarrow> monitor_ok m \<Longrightarrow>
     returns (on_new_subdirectory w p m) (\<lambda>(_, m'). monitor_ok m')"
  by (rule returns_mono [OF on_new_subdirectory_core [of w p m]]) (auto intro: core_okI)

lemma handle_created_ok:
  assumes "well_founded_tree (w_tree w)" and "monitor_ok m"
  shows "returns (handle_created w ev m) monitor_ok"
proof -
  have "returns (map_option snd (on_new_subdirectory w p m)) monitor_ok" for p
    using on_new_subdirectory_ok [OF assms, of p] by (auto simp: returns_iff)
  then show ?thesis by (simp add: handle_created_def assms(2) split: option.split)
qed

lemma fold_queue_core: "core (fold (queue_once w p) os m) = core m"
  by (rule fold_core) simp

lemma handle_deleted_ok:
  assumes "monitor_ok m"
  shows "returns (handle_deleted w p m) monitor_ok"
  unfolding handle_deleted_def Let_def
proof (rule returns_bind [OF remove_path_ok [OF assms]])
  fix x :: "outcome \<times> monitor"
  assume "case x of (_, m') \<Rightarrow> monitor_ok m'"
  then obtain o1 m1 where x: "x = (o1, m1)" "monitor_ok m1" by (cases x) auto
  let ?m2 = "fold (queue_once w p) (opts_for_path (mo_entries m) p) m1"
  have "monitor_ok ?m2" by (rule core_okI [OF fold_queue_core x(2)])
  from returns_bind [OF add_temp_parent_mark_ok [OF this], of "\<lambda>(_, m3). Some m3" monitor_ok w p]
  show "returns (case x of (_, m1) \<Rightarrow>
      add_temp_parent_mark w p (fold (queue_once w p) (opts_for_path (mo_entries m) p) m1) \<bind>
      (\<lambda>(_, m3). Some m3)) monitor_ok"
    unfolding x(1) by auto
qed

lemma handle_canonical_root_deleted_ok:
  assumes "monitor_ok m"
  shows "returns (handle_canonical_root_deleted w p m) monitor_ok"
  unfolding handle_canonical_root_deleted_def Let_def
proof (rule returns_bind [OF remove_path_ok [OF assms]])
  fix x :: "outcome \<times> monitor"
  assume "case x of (_, m') \<Rightarrow> monitor_ok m'"
  then obtain o1 m1 where x: "x = (o1, m1)" "monitor_ok m1" by (cases x) auto
  let ?m2 = "setup_inotify_watches w (m1\<lparr>mo_pending := mo_pending m1 @
      map (\<lambda>opts. (p, entry_from_options w p opts)) (opts_for_path (mo_entries m) p)\<rparr>)"
  have "monitor_ok ?m2" using x(2) by simp
  from returns_bind [OF add_temp_parent_mark_ok [OF this], of "\<lambda>(_, m3). check_pending w m3" monitor_ok w p]
  show "returns (case x of (_, m1) \<Rightarrow> add_temp_parent_mark w p (setup_inotify_watches w
      (m1\<lparr>mo_pending := mo_pending m1 @ map (\<lambda>opts. (p, entry_from_options w p opts))
        (opts_for_path (mo_entries m) p)\<rparr>)) \<bind> (\<lambda>(_, m3). check_pending w m3)) monitor_ok"
    unfolding x(1) by (auto intro: check_pending_ok)
qed

lemma handle_inotify_events_ok:
  assumes t: "well_founded_tree (w_tree w)" and ok: "monitor_ok m"
  shows "returns (handle_inotify_events w read m) monitor_ok"
proof (cases "mo_inotify m \<and> read \<noteq> None")
  case True
  then obtain evs where evs: "read = Some evs" by blast
  let ?gone = "deleted_paths m evs"
  have 1: "returns (fold_opt (handle_deleted w) ?gone m) monitor_ok"
    by (rule returns_fold_opt [of monitor_ok, OF ok]) (rule handle_deleted_ok)
  have 2: "returns (if ?gone \<noteq> [] then check_pending w (setup_inotify_watches w m1) else Some m1) monitor_ok"
    if "monitor_ok m1" for m1
    using that check_pending_ok [of "setup_inotify_watches w m1" w] by simp
  have 3: "returns (fold_opt (handle_created w) evs m2) monitor_ok" if "monitor_ok m2" for m2
    by (rule returns_fold_opt [of monitor_ok, OF that]) (rule handle_created_ok [OF t])
  have "returns (fold_opt (handle_deleted w) ?gone m \<bind> (\<lambda>m1.
      (if ?gone \<noteq> [] then check_pending w (setup_inotify_watches w m1) else Some m1) \<bind> (\<lambda>m2.
      fold_opt (handle_created w) evs m2 \<bind> (\<lambda>m3. check_pending w m3)))) monitor_ok"
    by (rule returns_bind [OF 1], rule returns_bind [OF 2], assumption,
        rule returns_bind [OF 3], assumption, rule check_pending_ok, assumption)
  then show ?thesis using True by (simp add: handle_inotify_events_def evs Let_def)
next
  case False
  then show ?thesis
    using ok check_pending_ok [OF ok] by (auto simp: handle_inotify_events_def split: option.split)
qed

end
