(* ===== verification/Monitor_Init.thy ===== *)
theory Monitor_Init
  imports Monitor_Inv
begin

text \<open>
  How a monitor comes up: \<^verbatim>\<open>Monitor::new\<close>, \<^verbatim>\<open>init_fanotify\<close> and \<^verbatim>\<open>spawn_tasks\<close> of
  \<^verbatim>\<open>src/common/monitor.rs\<close> and \<^verbatim>\<open>monitor/init.rs\<close>, and the runs of its operations.
\<close>

section \<open>Construction\<close>

record monitor_config =
  mc_paths_and_options :: entries
  mc_log_dir :: "path option"
  mc_buffer_size :: "nat option"
  mc_cache_buffer_size :: nat
  mc_file_size_capacity :: nat
  mc_subscribe_buf :: "nat option"
  mc_metrics_interval :: "nat option"

fun collect_paths ::
  "world \<Rightarrow> path option \<Rightarrow> entries \<Rightarrow> path list \<times> entries \<Rightarrow> mon_error + path list \<times> entries" where
  "collect_paths w log_dir [] st = Inr st"
| "collect_paths w log_dir ((p, opts) # rest) (paths, es) =
     (let resolved = snd (resolve_recursion_check (w_fs w) p) in
      if overlaps_log_dir w log_dir resolved (po_recursive opts) then Inl (LogOverlap p)
      else if po_cmd opts = Some ''fsmon'' then Inl CmdFsmon
      else collect_paths w log_dir rest
             (if resolved \<in> set paths then paths else paths @ [resolved], es @ [(resolved, opts)]))"

text \<open>
  \<open>None\<close> is a panic: the cache of file sizes has capacity 0, or the constructor of that cache or of the
  broadcast channel does not take its capacity (it allocates that many slots; the channel is
  documented to panic above half of \<^verbatim>\<open>usize::MAX\<close>).
\<close>

definition monitor_new :: "world \<Rightarrow> u32 \<Rightarrow> monitor_config \<Rightarrow> (mon_error + monitor) option" where
  "monitor_new w pid cfg =
     (let buffer_size = (case mc_buffer_size cfg of Some n \<Rightarrow> n | None \<Rightarrow> mc_cache_buffer_size cfg) in
      if buffer_size < 4096 then Some (Inl BufferTooSmall)
      else if buffer_size > 1024 * 1024 then Some (Inl BufferTooLarge)
      else
        (case collect_paths w (mc_log_dir cfg) (mc_paths_and_options cfg) ([], []) of
           Inl e \<Rightarrow> Some (Inl e)
         | Inr (paths, es) \<Rightarrow>
             if mc_file_size_capacity cfg = 0 \<or> \<not> w_lru_new w (mc_file_size_capacity cfg) then None
             else if \<not> w_broadcast_new w (max (case mc_subscribe_buf cfg of Some n \<Rightarrow> n | None \<Rightarrow> 4096) 1)
             then None
             else Some (Inr
               \<lparr>mo_paths = paths, mo_canonical = [], mo_entries = es, mo_log_dir = mc_log_dir cfg,
                mo_groups = [], mo_next = 0, mo_path_to_group = [], mo_shared_cache = False,
                mo_factory = False, mo_inotify = False, mo_watches = [], mo_pending = [],
                mo_temp = [], mo_buffer_size = buffer_size, mo_event_tx = False,
                mo_daemon_pid = pid, mo_readers = [],
                mo_metrics = metrics_new (mc_metrics_interval cfg \<noteq> None),
                mo_privileged = False, mo_trace = []\<rparr>)))"

section \<open>Start-up\<close>

definition init_path :: "world \<Rightarrow> path \<Rightarrow> path list \<times> monitor \<Rightarrow> path list \<times> monitor" where
  "init_path w p st =
     (let (keep, m) = st in
      if fs_exists (w_fs w) p
      then (keep @ [p], m\<lparr>mo_canonical := mo_canonical m @ [canonicalize_or (w_fs w) p]\<rparr>)
      else
        (keep, m\<lparr>mo_pending := mo_pending m @
                   map (\<lambda>(_, opts). (p, entry_from_options w p opts)) (entries_of p (mo_entries m)),
                 mo_entries := filter (\<lambda>(q, _). q \<noteq> p) (mo_entries m)\<rparr>))"

definition option_at :: "monitor \<Rightarrow> nat \<Rightarrow> path_options option" where
  "option_at m i =
     (if i < length (mo_paths m) then first_opt_for_path (mo_entries m) (mo_paths m ! i) else None)"

definition mark_first :: "world \<Rightarrow> nat \<Rightarrow> u64 \<Rightarrow> path \<Rightarrow> path_options option \<Rightarrow> monitor \<Rightarrow> monitor" where
  "mark_first w k b c opts m = (case opts of None \<Rightarrow> m | Some o' \<Rightarrow> mark_tree w k b c o' m)"

definition map_path :: "nat \<Rightarrow> nat \<Rightarrow> monitor \<Rightarrow> monitor option" where
  "map_path i k m =
     (if i < length (mo_paths m)
      then Some (m\<lparr>mo_path_to_group := al_put (mo_paths m ! i) k (mo_path_to_group m)\<rparr>)
      else None)"

text \<open>One canonical path; \<open>devs\<close> is the local map from device to group.\<close>

definition init_group ::
  "world \<Rightarrow> u64 \<Rightarrow> nat \<times> path \<Rightarrow> (u64, nat) hash \<times> monitor \<Rightarrow> ((u64, nat) hash \<times> monitor) option" where
  "init_group w b ic st =
     (let (i, c) = ic; (devs, m) = st; dev = dev_of w c in
      case map_of devs dev of
        Some k \<Rightarrow>
          if map_of (mo_groups m) k = None then None
          else if \<not> fs_open_dir (w_fs w) c then Some (devs, m)
          else
            (let m1 = log_action (MarkDir k (safe_mask w b) c) m;
                 m2 = (if \<not> w_mark w k c then m1 else mark_first w k b c (option_at m i) m1);
                 m3 = m2\<lparr>mo_groups := retain_group k (mo_groups m2)\<rparr>
             in do { m4 \<leftarrow> map_path i k m3; Some (devs, m4) })
      | None \<Rightarrow>
          (case create_group w dev b c m of
             (Inl _, m1) \<Rightarrow> Some (devs, m1)
           | (Inr k, m1) \<Rightarrow> do {
               m2 \<leftarrow> map_path i k (insert_group dev (mark_first w k b c (option_at m i) m1));
               Some (al_put dev k devs, m2)
             }))"

definition cache_root :: "world \<Rightarrow> nat \<times> path \<Rightarrow> monitor \<Rightarrow> monitor" where
  "cache_root w ic m =
     (let (i, c) = ic in
      if \<not> fs_is_dir (w_fs w) c then m
      else if (case option_at m i of None \<Rightarrow> False | Some o' \<Rightarrow> po_recursive o') then m
      else log_action (CacheDir c) m)"

definition init_fanotify :: "world \<Rightarrow> monitor \<Rightarrow> ((mon_error + nat) \<times> monitor) option" where
  "init_fanotify w m =
     (let combined_mask = entries_mask (w_fan w) (mo_entries m);
          (keep, m1) = fold (init_path w) (mo_paths m) ([], m);
          m2 = m1\<lparr>mo_paths := keep\<rparr>
      in if \<not> w_inotify_init w then Some (Inl InotifyFailed, m2)
         else
           (let m3 = setup_inotify_watches w (m2\<lparr>mo_inotify := True\<rparr>) in
            if \<not> mo_factory m3 then Some (Inl NoFactory, m3)
            else do {
              (_, m4) \<leftarrow> fold_opt (init_group w combined_mask) (List.enumerate 0 (mo_canonical m3)) ([], m3);
              let m5 = (if mo_groups m4 \<noteq> []
                        then fold (cache_root w) (List.enumerate 0 (mo_canonical m4)) m4 else m4);
              Some (Inr (length (mo_groups m4)), m5)
            }))"

text \<open>
  The readers; the event channel that is made before them, with its panic, is \<open>make_channel\<close> of
  \<open>Bootstrap\<close>, where the two are put together.
\<close>

definition spawn_tasks :: "world \<Rightarrow> monitor \<Rightarrow> monitor option" where
  "spawn_tasks w m =
     fold_opt (spawn_fd_reader w) (map fst (mo_groups m)) (m\<lparr>mo_event_tx := True, mo_shared_cache := True\<rparr>)"

text \<open>The gauges that \<^verbatim>\<open>print_startup_status\<close> sets before the tasks are spawned.\<close>

definition start_metrics :: "monitor \<Rightarrow> monitor" where
  "start_metrics m =
     m\<lparr>mo_metrics :=
         set_reader_groups (of_nat (length (mo_groups m)))
           (set_pending_paths (of_nat (length (mo_pending m)))
             (set_monitored_paths (of_nat (length (mo_entries m))) (mo_metrics m)))\<rparr>"

section \<open>Privileges and the report\<close>

definition check_privileges :: "bool \<Rightarrow> monitor \<Rightarrow> bool" where
  "check_privileges unprivileged_allowed m \<longleftrightarrow> mo_privileged m \<or> unprivileged_allowed"

definition group_init_flags :: "u32 \<Rightarrow> u32 \<Rightarrow> monitor \<Rightarrow> u32" where
  "group_init_flags GROUP_INIT_FLAGS UNLIMITED_MARKS m =
     (if mo_privileged m then GROUP_INIT_FLAGS OR UNLIMITED_MARKS else GROUP_INIT_FLAGS)"

text \<open>The part of a report that is read from the monitor's own state.\<close>

record metrics_report =
  mr_reader_groups_total :: nat
  mr_reader_groups_alive :: nat
  mr_reader_groups_gave_up :: nat
  mr_subscribers :: u64
  mr_monitored_paths :: u64
  mr_pending_paths :: u64
  mr_disk_buffer_events :: u64
  mr_events_unresolved_rename :: u64
  mr_unparsed_info_records :: u64
  mr_unprivileged :: bool

definition collect_metrics :: "monitor \<Rightarrow> metrics_report" where
  "collect_metrics m =
     (let g = mo_metrics m in
      \<lparr>mr_reader_groups_total = length (mo_groups m),
       mr_reader_groups_alive = length (filter (\<lambda>(_, s). \<not> rs_gave_up s) (mo_readers m)),
       mr_reader_groups_gave_up = length (filter (\<lambda>(_, s). rs_gave_up s) (mo_readers m)),
       mr_subscribers = gauge_get (m_subscribers g),
       mr_monitored_paths = gauge_get (m_monitored_paths g),
       mr_pending_paths = gauge_get (m_pending_paths g),
       mr_disk_buffer_events = gauge_get (m_disk_buffer_events g),
       mr_events_unresolved_rename = m_unresolved_renames g,
       mr_unparsed_info_records = m_unparsed_info_records g,
       mr_unprivileged = (\<not> mo_privileged m)\<rparr>)"

section \<open>Construction is correct\<close>

lemma collect_paths_result:
  "collect_paths w log_dir es (ps, rs) = Inr (paths, out) \<Longrightarrow> distinct ps \<Longrightarrow> fst ` set rs = set ps \<Longrightarrow>
     distinct paths \<and> fst ` set out = set paths \<and>
     out = rs @ map (\<lambda>(p, opts). (snd (resolve_recursion_check (w_fs w) p), opts)) es \<and>
     list_all (\<lambda>(p, opts). \<not> overlaps_log_dir w log_dir (snd (resolve_recursion_check (w_fs w) p)) (po_recursive opts) \<and>
        po_cmd opts \<noteq> Some ''fsmon'') es"
proof (induction w log_dir es "(ps, rs)" arbitrary: ps rs rule: collect_paths.induct)
  case (2 w log_dir p opts rest ps rs)
  define x where "x = snd (resolve_recursion_check (w_fs w) p)"
  from "2.prems"(1) have n: "\<not> overlaps_log_dir w log_dir x (po_recursive opts)" "po_cmd opts \<noteq> Some ''fsmon''"
    and rec: "collect_paths w log_dir rest (if x \<in> set ps then ps else ps @ [x], rs @ [(x, opts)]) =
      Inr (paths, out)"
    by (auto simp: Let_def x_def split: if_splits)
  have "distinct (if x \<in> set ps then ps else ps @ [x])"
    and "fst ` set (rs @ [(x, opts)]) = set (if x \<in> set ps then ps else ps @ [x])"
    using "2.prems"(2,3) by auto
  note ih = "2.hyps" [OF x_def n rec this]
  show ?case
  proof (intro conjI)
    show "distinct paths" "fst ` set out = set paths" using ih by blast+
    show "out = rs @ map (\<lambda>(p, opts). (snd (resolve_recursion_check (w_fs w) p), opts)) ((p, opts) # rest)"
      using ih by (simp add: x_def)
  qed (use ih n in \<open>simp add: x_def\<close>)
qed auto

text \<open>What the start expects: no group yet, every entry's path listed once.\<close>

definition fresh :: "monitor \<Rightarrow> bool" where
  "fresh m \<longleftrightarrow> mo_canonical m = [] \<and> mo_groups m = [] \<and> mo_path_to_group m = [] \<and> mo_temp m = [] \<and>
     mo_pending m = [] \<and> distinct (mo_paths m) \<and> fst ` set (mo_entries m) = set (mo_paths m)"

lemma monitor_new_fresh: "monitor_new w pid cfg = Some (Inr m) \<Longrightarrow> fresh m"
proof -
  assume "monitor_new w pid cfg = Some (Inr m)"
  then obtain paths es where c: "collect_paths w (mc_log_dir cfg) (mc_paths_and_options cfg) ([], []) =
      Inr (paths, es)" and m: "mo_canonical m = []" "mo_groups m = []" "mo_path_to_group m = []"
      "mo_temp m = []" "mo_pending m = []" "mo_paths m = paths" "mo_entries m = es"
    by (auto simp: monitor_new_def Let_def split: if_splits sum.splits)
  have "distinct paths" by (rule conjunct1 [OF collect_paths_result [OF c]]) simp_all
  moreover have "fst ` set es = set paths"
    by (rule conjunct1 [OF conjunct2 [OF collect_paths_result [OF c]]]) simp_all
  ultimately
  show ?thesis using m by (simp add: fresh_def)
qed

section \<open>Start-up keeps the invariant\<close>

lemma fold_init_path:
  "distinct ps \<Longrightarrow>
   fold (init_path w) ps (keep, m) =
     (keep @ filter (fs_exists (w_fs w)) ps,
      m\<lparr>mo_canonical := mo_canonical m @ map (canonicalize_or (w_fs w)) (filter (fs_exists (w_fs w)) ps),
        mo_pending := mo_pending m @ concat (map (\<lambda>p. map (\<lambda>(_, opts). (p, entry_from_options w p opts))
          (entries_of p (mo_entries m))) (filter (\<lambda>p. \<not> fs_exists (w_fs w) p) ps)),
        mo_entries := filter (\<lambda>(q, _). q \<in> set ps \<longrightarrow> fs_exists (w_fs w) q) (mo_entries m)\<rparr>)"
proof (induction ps arbitrary: keep m)
  case Nil
  have "filter (\<lambda>(q, _). True) es = es" for es :: entries by (simp add: case_prod_unfold)
  then show ?case by simp
next
  case (Cons p ps)
  have e: "entries_of q (filter (\<lambda>(q', _). q' \<noteq> p) es) = entries_of q es" if "q \<in> set ps" for q es
    using that Cons.prems by (auto simp: entries_of_def filter_filter intro!: filter_cong)
  have c: "concat (map (\<lambda>q. map (\<lambda>(_, opts). (q, entry_from_options w q opts))
        (entries_of q (filter (\<lambda>(q', _). q' \<noteq> p) (mo_entries m)))) (filter (\<lambda>p. \<not> fs_exists (w_fs w) p) ps)) =
      concat (map (\<lambda>q. map (\<lambda>(_, opts). (q, entry_from_options w q opts))
        (entries_of q (mo_entries m))) (filter (\<lambda>p. \<not> fs_exists (w_fs w) p) ps))"
    by (intro arg_cong [where f = concat] map_cong refl) (simp add: e)
  have d: "distinct ps" using Cons.prems by simp
  show ?case
  proof (cases "fs_exists (w_fs w) p")
    case True
    then have st: "init_path w p (keep, m) =
        (keep @ [p], m\<lparr>mo_canonical := mo_canonical m @ [canonicalize_or (w_fs w) p]\<rparr>)"
      by (simp add: init_path_def)
    show ?thesis using True by (simp add: st Cons.IH [OF d])
  next
    case False
    then have st: "init_path w p (keep, m) =
        (keep, m\<lparr>mo_pending := mo_pending m @
           map (\<lambda>(_, opts). (p, entry_from_options w p opts)) (entries_of p (mo_entries m)),
          mo_entries := filter (\<lambda>(q, _). q \<noteq> p) (mo_entries m)\<rparr>)"
      by (simp add: init_path_def)
    have f: "filter (\<lambda>(q, _). q \<in> set ps \<longrightarrow> fs_exists (w_fs w) q) (filter (\<lambda>(q, _). q \<noteq> p) es) =
        filter (\<lambda>(q, _). q \<in> set (p # ps) \<longrightarrow> fs_exists (w_fs w) q) es" for es :: entries
      unfolding filter_filter using False by (intro filter_cong refl) auto
    show ?thesis
      unfolding fold.simps comp_def st Cons.IH [OF d] using False by (simp add: c f [simplified])
  qed
qed

lemma mark_first_core [simp]: "core (mark_first w k b c opts m) = core m"
  by (simp add: mark_first_def split: option.split)

lemma map_path_ok:
  assumes "monitor_ok m" and "spare m k" and "i < length (mo_paths m)"
  shows "returns (map_path i k m) (\<lambda>m'. monitor_ok m' \<and> mo_groups m' = mo_groups m \<and>
    mo_paths m' = mo_paths m \<and> mo_canonical m' = mo_canonical m \<and> mo_entries m' = mo_entries m)"
proof -
  let ?p = "mo_paths m ! i"
  let ?m = "m\<lparr>mo_path_to_group := al_put ?p k (mo_path_to_group m)\<rparr>"
  have "group_refs ?m j \<le> group_count (mo_groups m) j" for j
  proof -
    have "group_refs ?m j \<le> group_refs m j + (if k = j then 1 else 0)"
      using length_filter_put [of "\<lambda>x. snd x = j" ?p k "mo_path_to_group m"] by (auto simp: group_refs_def)
    moreover have "group_refs m j \<le> group_count (mo_groups m) j" using assms(1) by (simp add: monitor_ok_def)
    ultimately show ?thesis using assms(2) by (auto simp: spare_def split: if_splits)
  qed
  moreover have "fst ` set (al_put ?p k (mo_path_to_group m)) \<subseteq> set (mo_paths m)"
    using keys_al_put [of ?p k "mo_path_to_group m"] assms(1,3) by (auto simp: monitor_ok_def)
  ultimately have "monitor_ok ?m" using assms(1) unfolding monitor_ok_def by (auto simp: al_ok_put)
  then show ?thesis using assms(3) by (simp add: map_path_def)
qed

lemma insert_group_spare:
  assumes "monitor_ok m" and "find_group m dev = None"
  shows "spare (insert_group dev m) (mo_next m)"
proof -
  have "map_of (mo_groups m) (mo_next m) = None"
    using assms(1) by (auto simp: monitor_ok_def list_all_iff map_of_eq_None_iff)
  then have "group_refs m (mo_next m) = 0"
    using assms(1) by (auto simp: monitor_ok_def group_count_def dest!: spec [of _ "mo_next m"])
  then have "group_refs (insert_group dev m) (mo_next m) = 0" by (simp add: group_refs_def insert_group_def)
  moreover have "0 < group_count (mo_groups (insert_group dev m)) (mo_next m)"
    using insert_group_ok [OF assms] group_count_pos monitor_ok_groups by blast
  ultimately show ?thesis by (simp add: spare_def)
qed

text \<open>The local map agrees with the devices of the groups.\<close>

definition devs_ok :: "(u64, nat) hash \<Rightarrow> monitor \<Rightarrow> bool" where
  "devs_ok devs m \<longleftrightarrow>
     (\<forall>dev k. map_of devs dev = Some k \<longrightarrow> map_of (mo_groups m) k \<noteq> None) \<and>
     (\<forall>dev. map_of devs dev = None \<longrightarrow> find_group m dev = None)"

lemma map_of_retain: "map_of (retain_group k gs) j \<noteq> None \<longleftrightarrow> map_of gs j \<noteq> None"
  by (auto simp: retain_group_def al_get_put split: option.splits)

lemma find_retain: "find_group (m\<lparr>mo_groups := retain_group k (mo_groups m)\<rparr>) dev = None \<longleftrightarrow> find_group m dev = None"
proof -
  have "map (\<lambda>x. gr_dev_id (snd x)) (retain_group k gs) = map (\<lambda>x. gr_dev_id (snd x)) gs" for gs
    by (auto simp: retain_group_def intro!: map_al_put_same split: option.split)
  then have "(\<lambda>x. gr_dev_id (snd x)) ` set (retain_group k gs) = (\<lambda>x. gr_dev_id (snd x)) ` set gs" for gs
    by (metis list.set_map)
  moreover have "find_group s dev = None \<longleftrightarrow> dev \<notin> (\<lambda>x. gr_dev_id (snd x)) ` set (mo_groups s)" for s :: monitor
    by (force simp: find_group_def find_None_iff)
  ultimately show ?thesis by simp
qed

lemma devs_ok_core: "core m' = core m \<Longrightarrow> devs_ok devs m' = devs_ok devs m"
  using core_fields [of m' m] by (simp add: devs_ok_def find_group_def)

lemma devs_ok_groups: "mo_groups m' = mo_groups m \<Longrightarrow> devs_ok devs m' = devs_ok devs m"
  by (simp add: devs_ok_def find_group_def)

lemma devs_ok_insert:
  assumes "devs_ok devs m" and "monitor_ok m"
  shows "devs_ok (al_put dev (mo_next m) devs) (insert_group dev m)"
proof -
  have "map_of (mo_groups m) (mo_next m) = None"
    using assms(2) by (auto simp: monitor_ok_def list_all_iff map_of_eq_None_iff)
  then have g: "mo_groups (insert_group dev m) = mo_groups m @ [(mo_next m, \<lparr>gr_dev_id = dev, gr_ref_count = 1\<rparr>)]"
    by (simp add: insert_group_def al_put_fresh)
  show ?thesis
    unfolding devs_ok_def
  proof (intro conjI allI impI)
    fix d k
    assume "map_of (al_put dev (mo_next m) devs) d = Some k"
    then have "k = mo_next m \<or> map_of devs d = Some k" by (auto simp: al_get_put split: if_splits)
    then have "k = mo_next m \<or> map_of (mo_groups m) k \<noteq> None" using assms(1) unfolding devs_ok_def by blast
    then show "map_of (mo_groups (insert_group dev m)) k \<noteq> None"
      unfolding g by (auto simp: map_add_def split: option.split)
  next
    fix d
    assume "map_of (al_put dev (mo_next m) devs) d = None"
    then have "d \<noteq> dev" "map_of devs d = None" by (auto simp: al_get_put split: if_splits)
    then have "d \<noteq> dev" "find_group m d = None" using assms(1) by (auto simp: devs_ok_def)
    then show "find_group (insert_group dev m) d = None"
      unfolding find_group_def g by (auto simp: find_None_iff)
  qed
qed

definition starting :: "path list \<Rightarrow> path list \<Rightarrow> (u64, nat) hash \<times> monitor \<Rightarrow> bool" where
  "starting ps cs st \<longleftrightarrow> (case st of (devs, m) \<Rightarrow>
     monitor_ok m \<and> devs_ok devs m \<and> mo_paths m = ps \<and> mo_canonical m = cs)"

lemma starting_map_path:
  assumes "starting ps cs (devs, m)" and "spare m k" and "i < length ps"
  shows "returns (map_path i k m \<bind> (\<lambda>m'. Some (devs, m'))) (starting ps cs)"
proof -
  from assms have "monitor_ok m" "i < length (mo_paths m)" by (auto simp: starting_def)
  from map_path_ok [OF this(1) assms(2) this(2)] show ?thesis
  proof (rule returns_bind)
    fix m'
    assume "monitor_ok m' \<and> mo_groups m' = mo_groups m \<and> mo_paths m' = mo_paths m \<and>
      mo_canonical m' = mo_canonical m \<and> mo_entries m' = mo_entries m"
    then show "returns (Some (devs, m')) (starting ps cs)"
      using assms(1) devs_ok_groups [of m' m] by (simp add: starting_def)
  qed
qed

lemma init_group_ok:
  assumes "starting ps cs st" and "i < length ps"
  shows "returns (init_group w b (i, c) st) (starting ps cs)"
proof -
  obtain devs m where st: "st = (devs, m)" by (cases st)
  with assms have ok: "monitor_ok m" and d: "devs_ok devs m" and ps: "mo_paths m = ps" and cs: "mo_canonical m = cs"
    by (auto simp: starting_def)
  have g: "groups_ok (mo_groups m)" using monitor_ok_groups [OF ok] by simp
  define dev where "dev = dev_of w c"
  show ?thesis
  proof (cases "map_of devs dev")
    case (Some k)
    have live: "map_of (mo_groups m) k \<noteq> None" using d Some by (auto simp: devs_ok_def)
    define m2 where "m2 = (let m1 = log_action (MarkDir k (safe_mask w b) c) m in
      if \<not> w_mark w k c then m1 else mark_first w k b c (option_at m i) m1)"
    have c2: "core m2 = core m" by (simp add: m2_def Let_def)
    let ?m3 = "m2\<lparr>mo_groups := retain_group k (mo_groups m2)\<rparr>"
    have c3: "core ?m3 = core (m\<lparr>mo_groups := retain_group k (mo_groups m)\<rparr>)"
      using core_fields [OF c2] by (simp add: core_def)
    have ok3: "monitor_ok ?m3" by (rule core_okI [OF c3 conjunct1 [OF retain_ok [OF ok live]]])
    have sp3: "spare ?m3 k"
      unfolding spare_core [OF c3] using retain_ok [OF ok live] by (simp add: spare_def group_refs_def)
    have d3: "devs_ok devs ?m3"
      using d by (simp add: devs_ok_core [OF c3]) (simp add: devs_ok_def map_of_retain find_retain del: not_None_eq)
    have "starting ps cs (devs, ?m3)"
      using ok3 d3 core_fields [OF c3] ps cs by (simp add: starting_def)
    then have "returns (map_path i k ?m3 \<bind> (\<lambda>m4. Some (devs, m4))) (starting ps cs)"
      by (rule starting_map_path [OF _ sp3 assms(2)])
    with Some live assms(1) show ?thesis
      unfolding st init_group_def Let_def m2_def by (simp add: dev_def)
  next
    case None
    obtain r m1 where cg: "create_group w dev b c m = (r, m1)" by (cases "create_group w dev b c m")
    from create_group_core [OF cg] have c1: "core m1 = core m" and k: "\<And>k. r = Inr k \<Longrightarrow> k = mo_next m" by auto
    show ?thesis
    proof (cases r)
      case (Inl e)
      have "starting ps cs (devs, m1)"
        using core_okI [OF c1 ok] devs_ok_core [OF c1] core_fields [OF c1] d ps cs by (simp add: starting_def)
      then show ?thesis using None cg Inl unfolding st init_group_def by (simp add: dev_def Let_def)
    next
      case (Inr k)
      let ?t = "mark_first w k b c (option_at m i) m1"
      have ct: "core ?t = core m" using c1 by simp
      have kn: "k = mo_next ?t" using k [OF Inr] core_fields [OF ct] by simp
      have none: "find_group m dev = None" using d None by (simp add: devs_ok_def)
      then have nt: "find_group ?t dev = None" using core_fields [OF ct] by (simp add: find_group_def)
      have okt: "monitor_ok ?t" by (rule core_okI [OF ct ok])
      let ?m = "insert_group dev ?t"
      have okm: "monitor_ok ?m" using insert_group_ok [OF okt nt] by simp
      have spm: "spare ?m k" using insert_group_spare [OF okt nt] kn by simp
      have dm: "devs_ok (al_put dev k devs) ?m"
        using devs_ok_insert [of devs ?t dev] devs_ok_core [OF ct] d okt kn by simp
      have "starting ps cs (al_put dev k devs, ?m)"
        using okm dm core_fields [OF ct] ps cs by (simp add: starting_def insert_group_def)
      then have "returns (map_path i k ?m \<bind> (\<lambda>m2. Some (al_put dev k devs, m2))) (starting ps cs)"
        by (rule starting_map_path [OF _ spm assms(2)])
      then show ?thesis using None cg Inr unfolding st init_group_def by (simp add: dev_def Let_def)
    qed
  qed
qed

lemma started_ok:
  assumes "fresh m" and "fold (init_path w) (mo_paths m) ([], m) = (keep, m1)"
  shows "monitor_ok (m1\<lparr>mo_paths := keep\<rparr>) \<and> keep = filter (fs_exists (w_fs w)) (mo_paths m) \<and>
    mo_groups m1 = [] \<and> mo_canonical m1 = map (canonicalize_or (w_fs w)) keep"
proof -
  have d: "distinct (mo_paths m)" using assms(1) by (simp add: fresh_def)
  have keep: "keep = filter (fs_exists (w_fs w)) (mo_paths m)"
    and m1: "mo_canonical m1 = map (canonicalize_or (w_fs w)) keep" "mo_groups m1 = []"
      "mo_path_to_group m1 = []" "mo_temp m1 = []" "mo_next m1 = mo_next m"
      "mo_entries m1 = filter (\<lambda>(q, _). q \<in> set (mo_paths m) \<longrightarrow> fs_exists (w_fs w) q) (mo_entries m)"
    using assms unfolding fold_init_path [OF d] by (auto simp: fresh_def)
  have "fst ` set (mo_entries m1) \<subseteq> set keep"
  proof
    fix q
    assume "q \<in> fst ` set (mo_entries m1)"
    then have "q \<in> fst ` set (mo_entries m)" "q \<in> set (mo_paths m) \<longrightarrow> fs_exists (w_fs w) q"
      unfolding m1 by auto
    then show "q \<in> set keep" using assms(1) by (simp add: keep fresh_def)
  qed
  then have "monitor_ok (m1\<lparr>mo_paths := keep\<rparr>)"
    using d m1 keep by (simp add: monitor_ok_def groups_ok_def group_refs_def)
  with keep m1 show ?thesis by simp
qed

lemma cache_root_core: "core (fold (cache_root w) xs m) = core m"
  by (rule fold_core) (simp add: cache_root_def split: prod.split option.split)

lemma init_fanotify_ok:
  assumes "fresh m"
  shows "returns (init_fanotify w m) (\<lambda>(_, m'). monitor_ok m')"
proof -
  obtain keep m1 where f: "fold (init_path w) (mo_paths m) ([], m) = (keep, m1)"
    by (cases "fold (init_path w) (mo_paths m) ([], m)")
  note st = started_ok [OF assms f]
  define m3 where "m3 = setup_inotify_watches w (m1\<lparr>mo_paths := keep, mo_inotify := True\<rparr>)"
  define b where "b = entries_mask (w_fan w) (mo_entries m)"
  have c3: "core m3 = core (m1\<lparr>mo_paths := keep\<rparr>)" by (simp add: m3_def core_def [of "_\<lparr>mo_inotify := _\<rparr>"] core_def [of "_\<lparr>mo_paths := _\<rparr>"])
  have ok3: "monitor_ok m3" using core_okI [OF c3] st by blast
  have f3: "mo_groups m3 = []" "mo_paths m3 = keep" "length (mo_canonical m3) = length keep"
    using core_fields [OF c3] st by simp_all
  have "returns (fold_opt (init_group w b) (List.enumerate 0 (mo_canonical m3)) ([], m3))
      (starting keep (mo_canonical m3))"
  proof (rule returns_fold_opt)
    show "starting keep (mo_canonical m3) ([], m3)"
      using ok3 f3 by (simp add: starting_def devs_ok_def find_group_def)
  next
    fix x :: "nat \<times> path" and st'
    assume "x \<in> set (List.enumerate 0 (mo_canonical m3))" and s: "starting keep (mo_canonical m3) st'"
    then have "fst x < length keep" using f3(3) by (simp add: in_set_enumerate_eq)
    then obtain i c where x: "x = (i, c)" "i < length keep" by (cases x) auto
    show "returns (init_group w b x st') (starting keep (mo_canonical m3))"
      unfolding x(1) by (rule init_group_ok [OF s x(2)])
  qed
  then have "returns (fold_opt (init_group w b) (List.enumerate 0 (mo_canonical m3)) ([], m3) \<bind> (\<lambda>(_, m4).
      let m5 = (if mo_groups m4 \<noteq> []
                then fold (cache_root w) (List.enumerate 0 (mo_canonical m4)) m4 else m4)
      in Some (Inr (length (mo_groups m4)) :: mon_error + nat, m5))) (\<lambda>(_, m'). monitor_ok m')"
    by (rule returns_bind)
      (auto simp: starting_def Let_def intro: core_okI [OF cache_root_core] split: prod.splits)
  then show ?thesis
    using conjunct1 [OF st] ok3
    unfolding init_fanotify_def f Let_def prod.case b_def [symmetric] m3_def [symmetric] by simp
qed

lemma spawn_tasks_ok:
  assumes "monitor_ok m"
  shows "returns (spawn_tasks w m) monitor_ok"
proof -
  let ?m = "m\<lparr>mo_event_tx := True, mo_shared_cache := True\<rparr>"
  have c: "core ?m = core m" by (simp add: core_def)
  have "returns (fold_opt (spawn_fd_reader w) (map fst (mo_groups m)) ?m) (\<lambda>m'. core m' = core m)"
  proof (rule returns_fold_opt)
    fix k and s :: monitor
    assume "k \<in> set (map fst (mo_groups m))" and s: "core s = core m"
    then have "map_of (mo_groups s) k \<noteq> None"
      using core_fields [OF s] by (simp add: map_of_eq_None_iff)
    then show "returns (spawn_fd_reader w k s) (\<lambda>m'. core m' = core m)"
      using spawn_fd_reader_core [of s k w] s by simp
  qed (rule c)
  then show ?thesis unfolding spawn_tasks_def by (rule returns_mono) (erule core_okI, rule assms)
qed

lemma start_metrics_ok: "monitor_ok m \<Longrightarrow> monitor_ok (start_metrics m)"
  by (erule core_okI [rotated]) (simp add: core_def start_metrics_def)

section \<open>Runs\<close>

text \<open>
  What the daemon does to its monitor, in any order and with any answers of the system. The
  rule \<open>drop_entries\<close> is the \<^verbatim>\<open>retain\<close> of the socket handler.
\<close>

inductive monitor_step :: "monitor \<Rightarrow> monitor \<Rightarrow> bool" where
  add: "add_path w e m = Some (res, m') \<Longrightarrow> monitor_step m m'"
| remove: "remove_path w p cmd m = Some (res, m') \<Longrightarrow> monitor_step m m'"
| drop_entries: "monitor_step m (m\<lparr>mo_entries := filter P (mo_entries m)\<rparr>)"
| new_directory: "well_founded_tree (w_tree w) \<Longrightarrow> on_new_subdirectory w p m = Some (ds, m') \<Longrightarrow>
    monitor_step m m'"
| root_deleted: "handle_canonical_root_deleted w p m = Some m' \<Longrightarrow> monitor_step m m'"
| inotify: "well_founded_tree (w_tree w) \<Longrightarrow> handle_inotify_events w read m = Some m' \<Longrightarrow>
    monitor_step m m'"
| check: "check_pending w m = Some m' \<Longrightarrow> monitor_step m m'"
| restart: "restart_reader w k m = Some m' \<Longrightarrow> monitor_step m m'"

inductive monitor_reach :: "monitor \<Rightarrow> bool" where
  start: "monitor_new w pid cfg = Some (Inr m) \<Longrightarrow>
    init_fanotify w' (m\<lparr>mo_factory := f, mo_privileged := b\<rparr>) = Some (Inr n, m') \<Longrightarrow>
    spawn_tasks w' (start_metrics m') = Some m'' \<Longrightarrow> monitor_reach m''"
| step: "monitor_reach m \<Longrightarrow> monitor_step m m' \<Longrightarrow> monitor_reach m'"

lemma step_ok: "monitor_step m m' \<Longrightarrow> monitor_ok m \<Longrightarrow> monitor_ok m'"
proof (induction rule: monitor_step.induct)
  case (add w e m res m')
  then show ?case using add_path_ok [of m w e] by simp
next
  case (remove w p cmd m res m')
  then show ?case using remove_path_ok [of m w p cmd] by simp
next
  case (drop_entries m P)
  then show ?case by (auto simp: monitor_ok_def group_refs_def)
next
  case (new_directory w p m ds m')
  then show ?case using on_new_subdirectory_ok [of w m p] by simp
next
  case (root_deleted w p m m')
  then show ?case using handle_canonical_root_deleted_ok [of m w p] by simp
next
  case (inotify w read m m')
  then show ?case using handle_inotify_events_ok [of w m read] by simp
next
  case (check w m m')
  then show ?case using check_pending_ok [of m w] by simp
next
  case (restart w k m m')
  then show ?case using restart_reader_core [of w k m] core_okI by auto
qed

lemma reach_ok: "monitor_reach m \<Longrightarrow> monitor_ok m"
proof (induction rule: monitor_reach.induct)
  case (start w pid cfg m w' b f n m' m'')
  have "fresh (m\<lparr>mo_factory := f, mo_privileged := b\<rparr>)"
    using monitor_new_fresh [OF start(1)] by (simp add: fresh_def)
  from init_fanotify_ok [OF this, of w'] start(2) have "monitor_ok m'" by simp
  from spawn_tasks_ok [OF start_metrics_ok [OF this], of w'] start(3) show ?case by simp
next
  case (step m m')
  then show ?case by (blast intro: step_ok)
qed

end
