(* ===== verification/Process_Info.thy ===== *)
theory Process_Info
  imports Event Ordered_Map Text
begin

text \<open>
  Process attribution: \<^verbatim>\<open>src/common/proc_cache.rs\<close> and the process half of
  \<^verbatim>\<open>src/common/utils.rs\<close>. The tracker belongs to the \<^verbatim>\<open>proc-tree\<close> crate and \<^verbatim>\<open>/proc\<close> to the
  kernel: both are records of the calls the code makes. The tracker's state is \<open>'t\<close> and its
  process keys are \<open>'k\<close>.
\<close>

section \<open>What the tracker and the system answer\<close>

record proc_meta =
  pm_comm :: "string option"
  pm_uid :: "u32 option"

record 'k proc_node =
  nd_parent :: "'k option"
  nd_meta :: "proc_meta option"

datatype source_health = Gapped "u64 option" "u64 option" | Overrun u64

datatype lifecycle_event =
    Spawn "u64 option" u64 u32 u32 u32 u32
  | Exec "u64 option" u64 u32 u32
  | Exit "u64 option" u64 u32 u32

record ('t, 'k) tracker_api =
  tk_current :: "'t \<Rightarrow> u32 \<Rightarrow> 'k option"
  tk_node :: "'t \<Rightarrow> 'k \<Rightarrow> 'k proc_node option"
  tk_metadata :: "'t \<Rightarrow> 'k \<Rightarrow> proc_meta option"
  tk_live :: "'t \<Rightarrow> 'k list"
  tk_descendant :: "'t \<Rightarrow> 'k \<Rightarrow> 'k \<Rightarrow> bool"
  tk_ancestors :: "'t \<Rightarrow> 'k \<Rightarrow> 'k list"
  tk_tgid :: "'k \<Rightarrow> u32"
  tk_apply :: "lifecycle_event list \<Rightarrow> 't \<Rightarrow> 't"
  tk_enrich :: "'k \<Rightarrow> proc_meta \<Rightarrow> 't \<Rightarrow> 't"
  tk_report :: "source_health \<Rightarrow> 't \<Rightarrow> 't"

record proc_fs =
  pf_metadata :: "u32 \<Rightarrow> proc_meta option"
  pf_cmdline :: "u32 \<Rightarrow> string option"
  pf_owner :: "path \<Rightarrow> u32 option"
  pf_user :: "u32 \<Rightarrow> string option"

text \<open>\<^verbatim>\<open>unwrap_or_default\<close> on a string.\<close>

definition or_empty :: "string option \<Rightarrow> string" where
  "or_empty s = (case s of Some x \<Rightarrow> x | None \<Rightarrow> [])"

section \<open>Process information\<close>

fun nat_string :: "nat \<Rightarrow> string" where
  "nat_string n = (if n < 10 then [char_of (48 + n)] else nat_string (n div 10) @ [char_of (48 + n mod 10)])"

declare nat_string.simps [simp del]

definition uid_to_username :: "proc_fs \<Rightarrow> u32 \<Rightarrow> string" where
  "uid_to_username pf uid =
     (case pf_user pf uid of Some name \<Rightarrow> name | None \<Rightarrow> nat_string (unat uid))"

definition read_file_owner :: "proc_fs \<Rightarrow> path \<Rightarrow> string option" where
  "read_file_owner pf p = map_option (uid_to_username pf) (pf_owner pf p)"

record proc_info =
  pi_comm :: string
  pi_cmd :: string
  pi_user :: string
  pi_ppid :: u32
  pi_tgid :: u32

definition tracked_info :: "('t, 'k) tracker_api \<Rightarrow> 't option \<Rightarrow> u32 \<Rightarrow> proc_info" where
  "tracked_info api tracker pid =
     (let info = \<lparr>pi_comm = [], pi_cmd = [], pi_user = [], pi_ppid = 0, pi_tgid = 0\<rparr> in
      case Option.bind tracker (\<lambda>t. map_option (Pair t) (tk_current api t pid)) of
        None \<Rightarrow> info
      | Some (t, key) \<Rightarrow>
          info\<lparr>pi_tgid := tk_tgid api key,
               pi_ppid := (case Option.bind (tk_node api t key) nd_parent of
                             Some q \<Rightarrow> tk_tgid api q | None \<Rightarrow> 0),
               pi_comm := (case tk_metadata api t key of
                             Some meta \<Rightarrow> or_empty (pm_comm meta) | None \<Rightarrow> [])\<rparr>)"

definition get_proc_info ::
  "('t, 'k) tracker_api \<Rightarrow> proc_fs \<Rightarrow> 't option \<Rightarrow> u32 \<Rightarrow> path \<Rightarrow> proc_info" where
  "get_proc_info api pf tracker pid p =
     (let info = tracked_info api tracker pid;
          info1 = (case pf_metadata pf pid of
                     None \<Rightarrow> info
                   | Some meta \<Rightarrow>
                       info\<lparr>pi_comm := (if pi_comm info = [] then or_empty (pm_comm meta) else pi_comm info),
                            pi_user := (case pm_uid meta of
                                          Some uid \<Rightarrow> uid_to_username pf uid | None \<Rightarrow> pi_user info)\<rparr>);
          info2 = (if pi_cmd info1 = [] then info1\<lparr>pi_cmd := or_empty (pf_cmdline pf pid)\<rparr> else info1)
      in if pi_user info2 = [] then info2\<lparr>pi_user := or_empty (read_file_owner pf p)\<rparr> else info2)"

definition build_chain ::
  "('t, 'k) tracker_api \<Rightarrow> proc_fs \<Rightarrow> 't \<Rightarrow> u32 \<Rightarrow> chain_link list" where
  "build_chain api pf t pid =
     (case tk_current api t pid of
        None \<Rightarrow> []
      | Some key \<Rightarrow>
          List.map_filter (\<lambda>k.
            case tk_node api t k of
              None \<Rightarrow> None
            | Some node \<Rightarrow>
                Some \<lparr>cl_pid = tk_tgid api k,
                      cl_comm = or_empty (Option.bind (nd_meta node) pm_comm),
                      cl_cmd = or_empty (pf_cmdline pf (tk_tgid api k)),
                      cl_user = or_empty (map_option (uid_to_username pf)
                                  (Option.bind (nd_meta node) pm_uid))\<rparr>)
            (tk_ancestors api t key))"

section \<open>Sequence numbers of the kernel's connector\<close>

text \<open>
  \<^verbatim>\<open>EventMapper\<close>: the last sequence number per processor. \<^verbatim>\<open>last + 1\<close> is 32-bit arithmetic and
  wraps, as in the release profile.
\<close>

type_synonym event_mapper = "(u32, u32) hash"

definition seq_gap :: "u32 \<Rightarrow> u32 \<Rightarrow> source_health option" where
  "seq_gap prev seq =
     (if seq > prev + 1
      then Some (Gapped (Some (ucast prev + 1)) (Some (ucast seq - 1))) else None)"

definition cursor :: "u32 \<Rightarrow> u32 \<Rightarrow> event_mapper \<Rightarrow> (u64 \<times> source_health option) \<times> event_mapper" where
  "cursor cpu seq mapper =
     ((push_bit 32 (ucast cpu) OR ucast seq,
       Option.bind (map_of mapper cpu) (\<lambda>prev. seq_gap prev seq)),
      al_put cpu seq mapper)"

text \<open>The parsed messages of a netlink read.\<close>

datatype proc_event =
    PcFork u32 u32 u32 u32 u32 u32 u64
  | PcExec u32 u32 u32 u32 u64
  | PcExit u32 u32 u32 u32
  | PcComm u32 u32 u32 u32 string
  | PcOther

datatype proc_message = Parsed "proc_event option" | MsgOverrun | MsgTruncated | MsgError

text \<open>
  The constant fields of a lifecycle event (source, epoch, clock domain, weak evidence, task
  scope) are left out; what remains is the timestamp, the cursor and the identifiers.
\<close>

fun map_proc_event :: "proc_event \<Rightarrow> u64 \<Rightarrow> lifecycle_event option" where
  "map_proc_event (PcFork cpu seq ppid ptgid cpid ctgid ts) cur = Some (Spawn (Some ts) cur cpid ctgid ppid ptgid)"
| "map_proc_event (PcExec cpu seq pid tgid ts) cur = Some (Exec (Some ts) cur pid tgid)"
| "map_proc_event (PcExit cpu seq pid tgid) cur = Some (Exit None cur pid tgid)"
| "map_proc_event _ cur = None"

definition trim_nul :: "string \<Rightarrow> string" where
  "trim_nul s = rev (dropWhile (\<lambda>c. c = CHR 0x00) (rev (dropWhile (\<lambda>c. c = CHR 0x00) s)))"

text \<open>What the parse loop collects: lifecycle events, names for later, the first health signal.\<close>

record proc_batch =
  pb_events :: "lifecycle_event list"
  pb_comms :: "(u32 \<times> string) list"
  pb_health :: "source_health option"
  pb_mapper :: event_mapper

definition or_else :: "'a option \<Rightarrow> 'a option \<Rightarrow> 'a option" where
  "or_else a b = (case a of Some x \<Rightarrow> Some x | None \<Rightarrow> b)"

definition take_cursor :: "u32 \<Rightarrow> u32 \<Rightarrow> proc_batch \<Rightarrow> u64 \<times> proc_batch" where
  "take_cursor cpu seq b =
     (let ((cur, h), mapper) = cursor cpu seq (pb_mapper b)
      in (cur, b\<lparr>pb_mapper := mapper, pb_health := or_else (pb_health b) h\<rparr>))"

definition lifecycle :: "proc_event \<Rightarrow> u32 \<Rightarrow> u32 \<Rightarrow> proc_batch \<Rightarrow> proc_batch" where
  "lifecycle ev cpu seq b =
     (let (cur, b') = take_cursor cpu seq b in
      case map_proc_event ev cur of
        Some l \<Rightarrow> b'\<lparr>pb_events := pb_events b' @ [l]\<rparr>
      | None \<Rightarrow> b')"

fun take_message :: "proc_message \<Rightarrow> proc_batch \<Rightarrow> proc_batch" where
  "take_message (Parsed (Some (PcFork cpu seq ppid ptgid cpid ctgid ts))) b =
     lifecycle (PcFork cpu seq ppid ptgid cpid ctgid ts) cpu seq b"
| "take_message (Parsed (Some (PcExec cpu seq pid tgid ts))) b =
     lifecycle (PcExec cpu seq pid tgid ts) cpu seq b"
| "take_message (Parsed (Some (PcExit cpu seq pid tgid))) b =
     lifecycle (PcExit cpu seq pid tgid) cpu seq b"
| "take_message (Parsed (Some (PcComm cpu seq pid tgid comm))) b =
     (let (_, b') = take_cursor cpu seq b;
          name = trim_nul (lossy comm)
      in if name = [] then b' else b'\<lparr>pb_comms := pb_comms b' @ [(tgid, name)]\<rparr>)"
| "take_message MsgOverrun b = b\<lparr>pb_health := or_else (pb_health b) (Some (Overrun 0))\<rparr>"
| "take_message _ b = b"

definition enrich_comm :: "('t, 'k) tracker_api \<Rightarrow> u32 \<times> string \<Rightarrow> 't \<Rightarrow> 't" where
  "enrich_comm api c t =
     (case tk_current api t (fst c) of
        Some key \<Rightarrow> tk_enrich api key \<lparr>pm_comm = Some (snd c), pm_uid = None\<rparr> t
      | None \<Rightarrow> t)"

definition handle_proc_events ::
  "('t, 'k) tracker_api \<Rightarrow> proc_message list \<Rightarrow> 't \<times> event_mapper \<Rightarrow> 't \<times> event_mapper" where
  "handle_proc_events api msgs s =
     (let b = fold (take_message) msgs
                \<lparr>pb_events = [], pb_comms = [], pb_health = None, pb_mapper = snd s\<rparr>;
          t1 = (if pb_events b \<noteq> [] then tk_apply api (pb_events b) (fst s) else fst s);
          t2 = fold (enrich_comm api) (pb_comms b) t1;
          t3 = (case pb_health b of Some h \<Rightarrow> tk_report api h t2 | None \<Rightarrow> t2)
      in (t3, pb_mapper b))"

section \<open>Lemmas\<close>

lemma drop_cursor: "drop_bit 32 (push_bit 32 (ucast (cpu :: u32)) OR ucast (seq :: u32)) = (ucast cpu :: u64)"
  by (rule bit_word_eqI) (auto simp: bit_simps dest: bit_imp_le_length)

lemma low_cursor: "ucast (push_bit 32 (ucast (cpu :: u32)) OR ucast (seq :: u32) :: u64) = seq"
  by (rule bit_word_eqI) (auto simp: bit_simps dest: bit_imp_le_length)

lemma cursor_mapper:
  "map_of (snd (cursor cpu seq m)) = (map_of m)(cpu \<mapsto> seq)"
  by (simp add: cursor_def al_get_put fun_upd_def)

lemma unat_succ: "prev \<noteq> -1 \<Longrightarrow> unat (prev + 1 :: u32) = unat prev + 1"
  using unatSuc [of prev] by (metis Suc_eq_plus1 add.commute add_eq_0_iff)

lemma unat_widen [simp]: "unat (ucast (x :: u32) :: u64) = unat x"
proof -
  have "unat x < 2 ^ 32" using unsigned_less [of x] by simp
  then show ?thesis by (simp add: unsigned_ucast_eq take_bit_eq_mod)
qed

lemma widen_minus_one: "ucast (-1 :: u32) = (0xFFFFFFFF :: u64)"
  by code_simp

text \<open>The numbers a reported gap spans, when the previous number is not the largest one.\<close>

lemma seq_gap_exact:
  assumes "prev \<noteq> -1"
  shows "seq_gap prev seq = None \<longleftrightarrow> unat seq \<le> unat prev + 1"
    and "seq_gap prev seq = Some (Gapped (Some a) (Some b)) \<Longrightarrow>
       unat a = unat prev + 1 \<and> unat b + 1 = unat seq \<and> unat a \<le> unat b"
proof -
  have lt: "prev + 1 < seq \<longleftrightarrow> unat prev + 1 < unat seq"
    using unat_succ [OF assms] by (simp add: word_less_nat_alt)
  show "seq_gap prev seq = None \<longleftrightarrow> unat seq \<le> unat prev + 1"
    by (auto simp: seq_gap_def lt)
  assume "seq_gap prev seq = Some (Gapped (Some a) (Some b))"
  then have less: "unat prev + 1 < unat seq" and a: "a = ucast prev + 1" and b: "b = ucast seq - 1"
    by (auto simp: seq_gap_def lt split: if_splits)
  have bound: "unat seq < 2 ^ 32" "unat prev < 2 ^ 32"
    using unsigned_less [of seq] unsigned_less [of prev] by simp_all
  have "unat a = unat prev + 1"
    using bound unfolding a by (simp add: unat_word_ariths)
  moreover have "unat b + 1 = unat seq"
    using bound less unfolding b by (simp add: unat_sub_if')
  ultimately show "unat a = unat prev + 1 \<and> unat b + 1 = unat seq \<and> unat a \<le> unat b"
    using less by simp
qed

text \<open>After the largest number every later one looks like a gap, whose end is before its start.\<close>

lemma seq_gap_wrap:
  assumes "seq \<noteq> 0"
  shows "seq_gap (-1) seq = Some (Gapped (Some 0x100000000) (Some (ucast seq - 1)))"
    and "ucast seq - 1 < (0x100000000 :: u64)"
proof -
  show "seq_gap (-1) seq = Some (Gapped (Some 0x100000000) (Some (ucast seq - 1)))"
    using assms by (simp add: seq_gap_def word_gt_0 widen_minus_one)
  have "unat seq < 2 ^ 32" "0 < unat seq"
    using unsigned_less [of seq] assms by (simp_all add: unat_gt_0)
  then show "ucast seq - 1 < (0x100000000 :: u64)"
    using assms by (simp add: word_less_nat_alt unat_sub_if')
qed

section \<open>What the parse loop collects\<close>

fun comm_update :: "proc_message \<Rightarrow> (u32 \<times> string) option" where
  "comm_update (Parsed (Some (PcComm cpu seq pid tgid comm))) =
     (if trim_nul (lossy comm) = [] then None else Some (tgid, trim_nul (lossy comm)))"
| "comm_update _ = None"

fun seq_of :: "proc_message \<Rightarrow> (u32 \<times> u32) option" where
  "seq_of (Parsed (Some (PcFork cpu seq ppid ptgid cpid ctgid ts))) = Some (cpu, seq)"
| "seq_of (Parsed (Some (PcExec cpu seq pid tgid ts))) = Some (cpu, seq)"
| "seq_of (Parsed (Some (PcExit cpu seq pid tgid))) = Some (cpu, seq)"
| "seq_of (Parsed (Some (PcComm cpu seq pid tgid comm))) = Some (cpu, seq)"
| "seq_of _ = None"

fun is_lifecycle :: "proc_message \<Rightarrow> proc_event option" where
  "is_lifecycle (Parsed (Some (PcFork cpu seq ppid ptgid cpid ctgid ts))) =
     Some (PcFork cpu seq ppid ptgid cpid ctgid ts)"
| "is_lifecycle (Parsed (Some (PcExec cpu seq pid tgid ts))) = Some (PcExec cpu seq pid tgid ts)"
| "is_lifecycle (Parsed (Some (PcExit cpu seq pid tgid))) = Some (PcExit cpu seq pid tgid)"
| "is_lifecycle _ = None"

lemma list_all2_left: "list_all2 P xs ys \<Longrightarrow> x \<in> set xs \<Longrightarrow> \<exists>y \<in> set ys. P x y"
  by (induction rule: list_all2_induct) auto

lemma list_all2_right: "list_all2 P xs ys \<Longrightarrow> y \<in> set ys \<Longrightarrow> \<exists>x \<in> set xs. P x y"
  by (induction rule: list_all2_induct) auto

lemma in_map_filter: "y \<in> set (List.map_filter f xs) \<longleftrightarrow> (\<exists>x \<in> set xs. f x = Some y)"
  by (induction xs) (auto simp: List.map_filter_simps split: option.splits)

lemma is_lifecycle_Some: "is_lifecycle msg = Some ev \<Longrightarrow> msg = Parsed (Some ev)"
  by (cases msg rule: is_lifecycle.cases) auto

lemma in_lifecycle:
  "ev \<in> set (List.map_filter is_lifecycle msgs) \<longleftrightarrow>
     Parsed (Some ev) \<in> set msgs \<and> is_lifecycle (Parsed (Some ev)) = Some ev"
  unfolding in_map_filter using is_lifecycle_Some by blast

lemma take_message_parts:
  "pb_comms (take_message msg b) =
     pb_comms b @ (case comm_update msg of Some c \<Rightarrow> [c] | None \<Rightarrow> [])"
  "map_of (pb_mapper (take_message msg b)) =
     (case seq_of msg of Some (cpu, seq) \<Rightarrow> (map_of (pb_mapper b))(cpu \<mapsto> seq) | None \<Rightarrow> map_of (pb_mapper b))"
  by (induction msg b rule: take_message.induct)
    (auto simp: lifecycle_def take_cursor_def cursor_def Let_def al_get_put fun_eq_iff split: option.splits)

lemma take_message_events:
  "case is_lifecycle msg of
     Some ev \<Rightarrow> \<exists>cur l. map_proc_event ev cur = Some l \<and>
       pb_events (take_message msg b) = pb_events b @ [l]
   | None \<Rightarrow> pb_events (take_message msg b) = pb_events b"
  by (induction msg b rule: take_message.induct)
    (auto simp: lifecycle_def take_cursor_def cursor_def Let_def split: option.splits)

lemma fold_comms:
  "pb_comms (fold take_message msgs b) = pb_comms b @ List.map_filter comm_update msgs"
  by (induction msgs arbitrary: b)
    (auto simp: take_message_parts List.map_filter_def split: option.splits)

lemma fold_events:
  "\<exists>ls. pb_events (fold take_message msgs b) = pb_events b @ ls \<and>
     list_all2 (\<lambda>ev l. \<exists>cur. map_proc_event ev cur = Some l) (List.map_filter is_lifecycle msgs) ls"
proof (induction msgs arbitrary: b)
  case Nil
  then show ?case by (simp add: List.map_filter_def)
next
  case (Cons msg msgs)
  obtain ls where ls: "pb_events (fold take_message msgs (take_message msg b)) =
      pb_events (take_message msg b) @ ls"
    "list_all2 (\<lambda>ev l. \<exists>cur. map_proc_event ev cur = Some l) (List.map_filter is_lifecycle msgs) ls"
    using Cons.IH by blast
  show ?case
  proof (cases "is_lifecycle msg")
    case None
    with ls take_message_events [of msg b] show ?thesis by (auto simp: List.map_filter_simps)
  next
    case (Some ev)
    then obtain cur l where "map_proc_event ev cur = Some l"
      "pb_events (take_message msg b) = pb_events b @ [l]"
      using take_message_events [of msg b] by auto
    with ls Some show ?thesis by (intro exI [of _ "l # ls"]) (auto simp: List.map_filter_simps)
  qed
qed

section \<open>Names attached after the batch\<close>

text \<open>What the code relies on of the tracker: enrichment and health reports leave the live keys
  alone, and enrichment sets the name of its key only.\<close>

definition tracker_laws :: "('t, 'k) tracker_api \<Rightarrow> bool" where
  "tracker_laws api \<longleftrightarrow>
     (\<forall>t g k. tk_current api t g = Some k \<longrightarrow> tk_tgid api k = g) \<and>
     (\<forall>t k meta. tk_current api (tk_enrich api k meta t) = tk_current api t) \<and>
     (\<forall>t h. tk_current api (tk_report api h t) = tk_current api t) \<and>
     (\<forall>t h. tk_metadata api (tk_report api h t) = tk_metadata api t) \<and>
     (\<forall>t k k' g meta. tk_current api t g = Some k \<longrightarrow>
        Option.bind (tk_metadata api (tk_enrich api k meta t) k') pm_comm =
          (if k' = k \<and> pm_comm meta \<noteq> None then pm_comm meta
           else Option.bind (tk_metadata api t k') pm_comm))"

text \<open>A process the batch spawns, and does not end, is current once the batch is applied.\<close>

definition applies_spawns :: "('t, 'k) tracker_api \<Rightarrow> bool" where
  "applies_spawns api \<longleftrightarrow>
     (\<forall>t evs g ts cur pp pt. Spawn ts cur g g pp pt \<in> set evs \<and>
        (\<forall>e \<in> set evs. \<forall>ts' cur' p. e \<noteq> Exit ts' cur' p g) \<longrightarrow>
        tk_current api (tk_apply api evs t) g \<noteq> None)"

definition comm_of_process :: "('t, 'k) tracker_api \<Rightarrow> 't \<Rightarrow> u32 \<Rightarrow> string option" where
  "comm_of_process api t g =
     Option.bind (tk_current api t g) (\<lambda>k. Option.bind (tk_metadata api t k) pm_comm)"

lemma enrich_comms:
  assumes laws: "tracker_laws api" and live: "tk_current api t g = Some k"
  shows "tk_current api (fold (enrich_comm api) cs t) = tk_current api t \<and>
    comm_of_process api (fold (enrich_comm api) cs t) g =
      (case map_of (rev cs) g of Some name \<Rightarrow> Some name | None \<Rightarrow> comm_of_process api t g)"
proof (induction cs rule: rev_induct)
  case Nil
  then show ?case by simp
next
  case (snoc c cs)
  let ?t = "fold (enrich_comm api) cs t"
  have keep: "tk_current api (enrich_comm api c ?t) = tk_current api ?t"
    using laws by (simp add: enrich_comm_def tracker_laws_def split: option.splits)
  have k: "tk_current api ?t g = Some k" using snoc.IH live by simp
  have "comm_of_process api (enrich_comm api c ?t) g =
      (if fst c = g then Some (snd c) else comm_of_process api ?t g)"
  proof (cases "tk_current api ?t (fst c)")
    case None
    then show ?thesis using k by (auto simp: enrich_comm_def)
  next
    case (Some k')
    moreover have "k' = k \<longleftrightarrow> fst c = g"
      using laws Some k unfolding tracker_laws_def by (metis option.inject)
    moreover have "Option.bind (tk_metadata api (tk_enrich api k' meta ?t) k) pm_comm =
        (if k = k' \<and> pm_comm meta \<noteq> None then pm_comm meta
         else Option.bind (tk_metadata api ?t k) pm_comm)" for meta
      using laws Some unfolding tracker_laws_def by blast
    ultimately show ?thesis
      using k keep by (auto simp: enrich_comm_def comm_of_process_def)
  qed
  with snoc.IH keep show ?case by (cases c) (auto split: option.splits)
qed

lemma map_proc_event_Exit:
  "map_proc_event ev c = Some (Exit ts cur p g) \<Longrightarrow> \<exists>cpu seq. ev = PcExit cpu seq p g"
  by (cases ev) auto

lemma spawn_applied:
  assumes api: "applies_spawns api"
    and fork: "Parsed (Some (PcFork cpu seq pp pt g g ts)) \<in> set msgs"
    and alive: "\<And>c q p. Parsed (Some (PcExit c q p g)) \<notin> set msgs"
    and b: "b = fold take_message msgs \<lparr>pb_events = [], pb_comms = [], pb_health = None, pb_mapper = m\<rparr>"
  shows "pb_events b \<noteq> [] \<and> tk_current api (tk_apply api (pb_events b) t) g \<noteq> None"
proof -
  let ?evs = "List.map_filter is_lifecycle msgs"
  have rel: "list_all2 (\<lambda>ev l. \<exists>cur. map_proc_event ev cur = Some l) ?evs (pb_events b)"
    using fold_events [of msgs "\<lparr>pb_events = [], pb_comms = [], pb_health = None, pb_mapper = m\<rparr>"]
    by (auto simp: b)
  have "PcFork cpu seq pp pt g g ts \<in> set ?evs"
    using fork by (simp add: in_lifecycle)
  from list_all2_left [OF rel this] obtain l cur where "l \<in> set (pb_events b)"
    "map_proc_event (PcFork cpu seq pp pt g g ts) cur = Some l" by blast
  then have spawn: "Spawn (Some ts) cur g g pp pt \<in> set (pb_events b)" by simp
  have "e \<noteq> Exit ts' cur' p g" if "e \<in> set (pb_events b)" for e ts' cur' p
  proof
    assume "e = Exit ts' cur' p g"
    with list_all2_right [OF rel that] obtain ev c where "ev \<in> set ?evs"
      "map_proc_event ev c = Some (Exit ts' cur' p g)" by blast
    moreover from this(2) obtain cp sq where "ev = PcExit cp sq p g"
      using map_proc_event_Exit by blast
    ultimately have "Parsed (Some (PcExit cp sq p g)) \<in> set msgs"
      by (simp add: in_lifecycle)
    with alive show False by blast
  qed
  with api spawn have "tk_current api (tk_apply api (pb_events b) t) g \<noteq> None"
    unfolding applies_spawns_def by blast
  with spawn show ?thesis by auto
qed

section \<open>Properties\<close>

text \<open>
  The cursor of a message carries its processor and its sequence number; a gap is reported
  exactly when numbers of that processor are missing, and names the first and last missing one.
\<close>

theorem lost_messages_counted:
  assumes "map_of mapper cpu = Some prev" and "prev \<noteq> -1"
  shows "drop_bit 32 (fst (fst (cursor cpu seq mapper))) = ucast cpu \<and>
    ucast (fst (fst (cursor cpu seq mapper))) = seq \<and>
    map_of (snd (cursor cpu seq mapper)) = (map_of mapper)(cpu \<mapsto> seq) \<and>
    (snd (fst (cursor cpu seq mapper)) = None \<longleftrightarrow> unat seq \<le> unat prev + 1) \<and>
    (\<forall>a b. snd (fst (cursor cpu seq mapper)) = Some (Gapped (Some a) (Some b)) \<longrightarrow>
       unat a = unat prev + 1 \<and> unat b + 1 = unat seq \<and> unat a \<le> unat b)"
proof (intro conjI allI impI)
  show "map_of (snd (cursor cpu seq mapper)) = (map_of mapper)(cpu \<mapsto> seq)" by (rule cursor_mapper)
  show "snd (fst (cursor cpu seq mapper)) = None \<longleftrightarrow> unat seq \<le> unat prev + 1"
    using seq_gap_exact(1) [OF assms(2)] assms(1) by (simp add: cursor_def)
  fix a b assume "snd (fst (cursor cpu seq mapper)) = Some (Gapped (Some a) (Some b))"
  then have "seq_gap prev seq = Some (Gapped (Some a) (Some b))" using assms(1) by (simp add: cursor_def)
  from seq_gap_exact(2) [OF assms(2) this]
  show "unat a = unat prev + 1" "unat b + 1 = unat seq" "unat a \<le> unat b" by auto
next
  show "drop_bit 32 (fst (fst (cursor cpu seq mapper))) = ucast cpu"
    using drop_cursor [of cpu seq] by (simp only: cursor_def fst_conv)
  show "ucast (fst (fst (cursor cpu seq mapper))) = seq"
    using low_cursor [of cpu seq] by (simp only: cursor_def fst_conv)
qed

theorem lost_messages_counted_witness:
  "snd (fst (cursor 1 9 [(1, 5)])) = Some (Gapped (Some 6) (Some 8)) \<and>
   drop_bit 32 (fst (fst (cursor 1 9 [(1, 5)]))) = 1"
  using lost_messages_counted [of "[(1, 5)]" 1 5 9] by (simp add: cursor_def seq_gap_def)

text \<open>
  After the largest sequence number the reported gap is nonsense: it starts beyond every
  32-bit number and ends before it starts, whatever number comes next but 0.
\<close>

theorem wrap_reports_false_gap:
  assumes "map_of mapper cpu = Some (-1)" and "seq \<noteq> 0"
  shows "snd (fst (cursor cpu seq mapper)) = Some (Gapped (Some 0x100000000) (Some (ucast seq - 1))) \<and>
    ucast seq - 1 < (0x100000000 :: u64)"
  using seq_gap_wrap [OF assms(2)] assms(1) by (simp add: cursor_def)

theorem wrap_reports_false_gap_witness:
  "snd (fst (cursor 0 1 [(0, -1)])) = Some (Gapped (Some 0x100000000) (Some 0))"
  using wrap_reports_false_gap [of "[(0, -1)]" 0 1] by simp

text \<open>
  A process that a read of the connector spawns and does not end gets the last non-empty
  name the same read gives it: names are attached after the lifecycle events are applied.
\<close>

theorem comm_reaches_new_process:
  assumes laws: "tracker_laws api" and api: "applies_spawns api"
    and fork: "Parsed (Some (PcFork cpu seq pp pt g g ts)) \<in> set msgs"
    and alive: "\<And>c q p. Parsed (Some (PcExit c q p g)) \<notin> set msgs"
    and name: "map_of (rev (List.map_filter comm_update msgs)) g = Some name"
  shows "comm_of_process api (fst (handle_proc_events api msgs s)) g = Some name"
proof -
  let ?b = "fold take_message msgs \<lparr>pb_events = [], pb_comms = [], pb_health = None, pb_mapper = snd s\<rparr>"
  obtain k where ev: "pb_events ?b \<noteq> []" and live: "tk_current api (tk_apply api (pb_events ?b) (fst s)) g = Some k"
    using spawn_applied [OF api fork alive refl, of "snd s" "fst s"] by blast
  let ?t = "fold (enrich_comm api) (pb_comms ?b) (tk_apply api (pb_events ?b) (fst s))"
  have "comm_of_process api ?t g = Some name"
    using enrich_comms [OF laws live, of "pb_comms ?b"] name by (simp add: fold_comms)
  moreover have "comm_of_process api (tk_report api h t) g = comm_of_process api t g" for h t
    using laws by (simp add: comm_of_process_def tracker_laws_def)
  ultimately show ?thesis
    using ev by (simp add: handle_proc_events_def Let_def split: option.splits)
qed

text \<open>A small tracker for the witness: the live processes and their names.\<close>

definition sample_api :: "(u32 list \<times> (u32 \<rightharpoonup> string), u32) tracker_api" where
  "sample_api =
     \<lparr>tk_current = (\<lambda>t g. if g \<in> set (fst t) then Some g else None),
      tk_node = (\<lambda>t k. None),
      tk_metadata = (\<lambda>t k. Some \<lparr>pm_comm = snd t k, pm_uid = None\<rparr>),
      tk_live = fst, tk_descendant = (\<lambda>_ _ _. False), tk_ancestors = (\<lambda>_ k. [k]), tk_tgid = id,
      tk_apply = (\<lambda>evs t. (List.map_filter (\<lambda>e. case e of Spawn _ _ _ g _ _ \<Rightarrow> Some g | _ \<Rightarrow> None) evs @ fst t, snd t)),
      tk_enrich = (\<lambda>k meta t. (fst t, if pm_comm meta = None then snd t else (snd t)(k := pm_comm meta))),
      tk_report = (\<lambda>_ t. t)\<rparr>"

lemma sample_api_ok: "tracker_laws sample_api" "applies_spawns sample_api"
  by (force simp: tracker_laws_def applies_spawns_def sample_api_def in_map_filter)+

theorem comm_reaches_new_process_witness:
  "comm_of_process sample_api (fst (handle_proc_events sample_api
     [Parsed (Some (PcFork 0 1 1 1 9 9 5)), Parsed (Some (PcComm 0 2 9 9 ''vi''))] (([], \<lambda>_. None), []))) 9
   = Some ''vi''"
  by (rule comm_reaches_new_process [OF sample_api_ok, where cpu = 0 and seq = 1 and pp = 1 and pt = 1 and ts = 5])
    (simp_all add: List.map_filter_simps trim_nul_def lossy_ascii ascii_def byte_def)

end
