(* ===== verification/Socket_Cmd.thy ===== *)
theory Socket_Cmd
  imports Monitor_Init Process_Info
begin

text \<open>
  The daemon's socket: the commands and replies of \<^verbatim>\<open>src/common/socket.rs\<close>, the path check of
  \<^verbatim>\<open>src/common/security.rs\<close>, the handlers of \<^verbatim>\<open>src/common/monitor/socket_handler.rs\<close> and the
  accept loop of \<^verbatim>\<open>src/common/monitor.rs\<close>. The JSON writer and reader are parameters.
\<close>

section \<open>Messages\<close>

datatype socket_cmd =
    Add path "bool option" "string list option" "string option" "string option" "u32 option"
  | Remove path "string option"
  | ListCmd
  | HealthCmd
  | Subscribe "string list option" "string option" "bool option"

record reader_health =
  rh_alive :: bool
  rh_restarts :: u32
  rh_fd :: i32

record health_info =
  hi_uptime_secs :: u64
  hi_channel_type :: string
  hi_monitored_paths :: nat
  hi_reader_groups :: nat
  hi_readers :: "reader_health list"
  hi_unprivileged :: bool
  hi_dir_cache_misses :: u64
  hi_factory_alive :: bool

datatype socket_response = RespOk | RespPaths "path_entry list" | RespHealth health_info

datatype socket_error = Permanent string | Transient string

type_synonym reply = "socket_error + socket_response"

section \<open>The path check\<close>

definition DEFAULT_BLOCKED :: "(string \<times> string) list" where
  "DEFAULT_BLOCKED = [(''/proc/self'', ''fsmon process (self-monitoring)'')]"

definition quoted_path :: "path \<Rightarrow> string" where
  "quoted_path p = [CHR 0x27] @ path_str p @ [CHR 0x27]"

definition check_path_allowed :: "path \<Rightarrow> string list \<Rightarrow> string + unit" where
  "check_path_allowed p user_blocked =
     (let s = path_str p in
      case find (\<lambda>(blocked, _). prefix blocked s) DEFAULT_BLOCKED of
        Some (_, reason) \<Rightarrow> Inl (''Path '' @ quoted_path p @ '' is blocked: '' @ reason)
      | None \<Rightarrow>
          if list_ex (\<lambda>blocked. blocked \<noteq> [] \<and> prefix blocked s) user_blocked
          then Inl (''Path '' @ quoted_path p @ '' is blocked by user configuration'')
          else Inr ())"

section \<open>Error texts and their class\<close>

definition str_contains :: "string \<Rightarrow> string \<Rightarrow> bool" where
  "str_contains s pat \<longleftrightarrow> str_find pat s \<noteq> None"

fun entry_error_text :: "entry_error \<Rightarrow> string" where
  "entry_error_text (SizeError m) = m"
| "entry_error_text (TypeError (ParseEventTypeError s)) = ''Unknown event type: '' @ s"

definition overlap_reason :: "world \<Rightarrow> path option \<Rightarrow> path \<Rightarrow> string" where
  "overlap_reason w log_dir p =
     (case log_dir of
        None \<Rightarrow> ''''
      | Some d \<Rightarrow>
          if canonicalize_or (w_fs w) d = p then ''this path is the log directory itself''
          else ''log directory '' @ quoted_path d @ '' is inside this path'')"

fun error_text :: "world \<Rightarrow> path option \<Rightarrow> mon_error \<Rightarrow> string" where
  "error_text w log_dir BufferTooSmall = ''buffer_size must be at least 4096 bytes (4KB)''"
| "error_text w log_dir BufferTooLarge = ''buffer_size must not exceed 1048576 bytes (1MB)''"
| "error_text w log_dir (LogOverlap p) =
     ''Cannot monitor '' @ quoted_path p @ '': '' @ overlap_reason w log_dir p @
     [CHR '' '', CHR 0xE2, CHR 0x80, CHR 0x94, CHR '' ''] @
     ''Tip: use a path outside the log directory, or use a different logging.path''"
| "error_text w log_dir CmdFsmon =
     ''Cannot monitor '' @ [CHR 0x27] @ ''fsmon'' @ [CHR 0x27] @
     '' process: fsmon daemon'' @ [CHR 0x27] @ ''s own events are excluded from monitoring.''"
| "error_text w log_dir (BadEntry e) = entry_error_text e"
| "error_text w log_dir NoFactory = ''fanotify factory has not been started''"
| "error_text w log_dir (Monitor_State.OpenFailed p) = ''open_dir_safe failed: '' @ path_str p"
| "error_text w log_dir (Monitor_State.CreateFailed p) =
     ''fanotify group creation failed for '' @ path_str p @ '' (requires Linux 5.9+ kernel)''"
| "error_text w log_dir (PathNotFound p) = ''Path not found: '' @ path_str p"
| "error_text w log_dir InotifyFailed = ''inotify initialisation failed''"

definition classify :: "string \<Rightarrow> socket_error" where
  "classify msg =
     (if str_contains msg ''infinite recursion'' \<or> str_contains msg ''log directory''
      then Permanent msg else Transient msg)"

definition reply_of :: "world \<Rightarrow> monitor \<Rightarrow> outcome \<Rightarrow> reply" where
  "reply_of w m out =
     (case out of Done \<Rightarrow> Inr RespOk | Failed e \<Rightarrow> Inl (classify (error_text w (mo_log_dir m) e)))"

section \<open>Commands on the monitor\<close>

text \<open>What the health reply reads outside the monitor's own state.\<close>

record health_env =
  he_uptime :: u64
  he_channel_capacity :: "nat option"
  he_misses :: u64
  he_fd :: "nat \<Rightarrow> i32"
  he_factory_alive :: bool

definition reader_health_of :: "health_env \<Rightarrow> monitor \<Rightarrow> nat \<Rightarrow> reader_health" where
  "reader_health_of he m k =
     (case map_of (mo_readers m) k of
        Some st \<Rightarrow> \<lparr>rh_alive = \<not> rs_gave_up st, rh_restarts = rs_restart_count st, rh_fd = he_fd he k\<rparr>
      | None \<Rightarrow> \<lparr>rh_alive = False, rh_restarts = 0, rh_fd = he_fd he k\<rparr>)"

definition health :: "health_env \<Rightarrow> monitor \<Rightarrow> health_info" where
  "health he m =
     \<lparr>hi_uptime_secs = he_uptime he,
      hi_channel_type = (case he_channel_capacity he of
                           Some cap \<Rightarrow> ''bounded('' @ nat_string cap @ '')'' | None \<Rightarrow> ''unbounded''),
      hi_monitored_paths = length (mo_entries m), hi_reader_groups = length (mo_groups m),
      hi_readers = map (\<lambda>(k, _). reader_health_of he m k) (mo_groups m),
      hi_unprivileged = (\<not> mo_privileged m), hi_dir_cache_misses = he_misses he,
      hi_factory_alive = (mo_factory m \<and> he_factory_alive he)\<rparr>"

definition listed_entry :: "world \<Rightarrow> path \<times> path_options \<Rightarrow> path_entry" where
  "listed_entry w x =
     (entry_from_options w (fst x) (snd x))\<lparr>pe_cmd := Some (cmd_or_global (po_cmd (snd x)))\<rparr>"

definition handle_add ::
  "world \<Rightarrow> path \<Rightarrow> bool option \<Rightarrow> string list option \<Rightarrow> string option \<Rightarrow> string option \<Rightarrow>
     u32 option \<Rightarrow> monitor \<Rightarrow> (reply \<times> monitor) option" where
  "handle_add w p recursive types sz track_cmd max_depth m =
     (case check_path_allowed p [] of
        Inl e \<Rightarrow> Some (Inl (Permanent e), m)
      | Inr _ \<Rightarrow>
          (let cmd = entry_cmd track_cmd;
               m1 = m\<lparr>mo_entries := filter (\<lambda>(q, opts). \<not> (q = p \<and> po_cmd opts = cmd)) (mo_entries m)\<rparr>
           in do {
             m2 \<leftarrow> (if \<not> list_ex (\<lambda>(q, _). q = p) (mo_entries m1)
                    then map_option snd (remove_path w p None m1) else Some m1);
             (out, m3) \<leftarrow> add_path w \<lparr>pe_cmd = cmd, pe_path = p, pe_recursive = recursive, pe_types = types,
                 pe_size = sz, pe_max_depth = max_depth, pe_symlink_target = None\<rparr> m2;
             Some (reply_of w m3 out, m3)
           }))"

definition unknown_command :: "(socket_cmd \<Rightarrow> string) \<Rightarrow> socket_cmd \<Rightarrow> reply" where
  "unknown_command show_cmd cmd = Inl (Transient (''Unknown command: '' @ show_cmd cmd))"

definition handle_socket_cmd ::
  "world \<Rightarrow> health_env \<Rightarrow> (socket_cmd \<Rightarrow> string) \<Rightarrow> socket_cmd \<Rightarrow> monitor \<Rightarrow> (reply \<times> monitor) option" where
  "handle_socket_cmd w he show_cmd cmd m =
     (case cmd of
        Add p recursive types sz track_cmd max_depth \<Rightarrow>
          handle_add w p recursive types sz track_cmd max_depth m
      | Remove p track_cmd \<Rightarrow>
          map_option (\<lambda>(out, m'). (reply_of w m' out, m')) (remove_path w p track_cmd m)
      | ListCmd \<Rightarrow> Some (Inr (RespPaths (map (listed_entry w) (mo_entries m))), m)
      | HealthCmd \<Rightarrow> Some (Inr (RespHealth (health he m)), m)
      | Subscribe _ _ _ \<Rightarrow> Some (unknown_command show_cmd cmd, m))"

section \<open>Reloading the store\<close>

definition reload_add :: "world \<Rightarrow> path_entry \<Rightarrow> monitor \<Rightarrow> monitor option" where
  "reload_add w e m = (if pe_path e \<in> set (mo_paths m) then Some m else map_option snd (add_path w e m))"

definition reload_remove :: "world \<Rightarrow> path_entry list \<Rightarrow> path \<Rightarrow> monitor \<Rightarrow> monitor option" where
  "reload_remove w flat p m =
     (if list_ex (\<lambda>e. pe_path e = p) flat then Some m else map_option snd (remove_path w p None m))"

text \<open>The store path may be missing, and loading may fail; both leave the monitor as it is.\<close>

definition reload_config ::
  "world \<Rightarrow> (load_error + monitored) option \<Rightarrow> monitor \<Rightarrow> (bool \<times> monitor) option" where
  "reload_config w loaded m =
     (case loaded of
        None \<Rightarrow> Some (False, m)
      | Some (Inl _) \<Rightarrow> Some (False, m)
      | Some (Inr store) \<Rightarrow>
          (let flat = flatten (w_fs w) store in do {
             m1 \<leftarrow> fold_opt (reload_add w) flat m;
             m2 \<leftarrow> fold_opt (reload_remove w flat) (mo_paths m1) m1;
             Some (True, m2)
           }))"

section \<open>Subscribers\<close>

definition chains_contain :: "chain_link list \<Rightarrow> string \<Rightarrow> bool" where
  "chains_contain chain cmd_name = list_ex (\<lambda>link. cl_comm link = cmd_name) chain"

definition own_event :: "file_event \<Rightarrow> bool" where
  "own_event ev \<longleftrightarrow>
     ev_cmd ev = ''fsmon'' \<or>
     starts_with (ev_path ev) [RootDir, Normal ''var'', Normal ''log'', Normal ''fsmon'']"

definition subscriber_wants :: "string option \<Rightarrow> event_type list option \<Rightarrow> file_event \<Rightarrow> bool" where
  "subscriber_wants track_cmd type_filter ev =
     (if track_cmd = Some CMD_GLOBAL \<and> own_event ev then False
      else if (case track_cmd of
                 None \<Rightarrow> False
               | Some wanted \<Rightarrow>
                   \<not> (if wanted = CMD_GLOBAL then ev_chain ev = []
                      else ev_chain ev \<noteq> [] \<and> chains_contain (ev_chain ev) wanted)) then False
      else if (case type_filter of None \<Rightarrow> False | Some allowed \<Rightarrow> ev_type ev \<notin> set allowed) then False
      else True)"

datatype recv = Received file_event | Lagged nat

definition lag_warning :: "nat \<Rightarrow> string" where
  "lag_warning n =
     ''{'' @ [CHR 0x22] @ ''warning'' @ [CHR 0x22] @ '':'' @ [CHR 0x22] @ ''subscriber too slow, dropped '' @
     nat_string n @ '' events'' @ [CHR 0x22] @ '','' @ [CHR 0x22] @ ''path'' @ [CHR 0x22] @ '':'' @
     [CHR 0x22, CHR 0x22] @ ''}''"

text \<open>
  The channel gives so many messages and then closes; \<open>write_ok i\<close> says whether the \<open>i\<close>-th write
  succeeds. The result is what has been written.
\<close>

fun subscriber_loop ::
  "(file_event \<Rightarrow> string) \<Rightarrow> string option \<Rightarrow> event_type list option \<Rightarrow> (nat \<Rightarrow> bool) \<Rightarrow> nat \<Rightarrow>
     recv list \<Rightarrow> string list" where
  "subscriber_loop line track_cmd types write_ok i [] = []"
| "subscriber_loop line track_cmd types write_ok i (Received ev # rs) =
     (if \<not> subscriber_wants track_cmd types ev then subscriber_loop line track_cmd types write_ok i rs
      else if write_ok i then (line ev @ [NL]) # subscriber_loop line track_cmd types write_ok (Suc i) rs
      else [])"
| "subscriber_loop line track_cmd types write_ok i (Lagged n # rs) =
     (if write_ok i then (lag_warning n @ [NL]) # subscriber_loop line track_cmd types write_ok (Suc i) rs
      else subscriber_loop line track_cmd types write_ok (Suc i) rs)"

text \<open>The task of a subscriber: the counter goes down only if the greeting could be written.\<close>

definition subscriber_task ::
  "(file_event \<Rightarrow> string) \<Rightarrow> (file_event \<Rightarrow> string) \<Rightarrow> string \<Rightarrow> string option \<Rightarrow> event_type list option \<Rightarrow>
     bool \<Rightarrow> (nat \<Rightarrow> bool) \<Rightarrow> recv list \<Rightarrow> metrics \<Rightarrow> string list \<times> metrics" where
  "subscriber_task utc loc ok_json track_cmd types local_time write_ok rs mt =
     (if \<not> write_ok 0 then ([], mt)
      else ((ok_json @ [NL]) #
              subscriber_loop (if local_time then loc else utc) track_cmd types write_ok 1 rs,
            dec_subscribers mt))"

text \<open>What a subscribe command starts: the filters of the task and the counted subscriber.\<close>

definition handle_subscribe ::
  "bool \<Rightarrow> bool \<Rightarrow> socket_cmd \<Rightarrow> metrics \<Rightarrow>
     socket_error + (string option \<times> event_type list option \<times> bool) \<times> metrics" where
  "handle_subscribe stream_open daemon_local cmd mt =
     (case cmd of
        Subscribe types track_cmd local_time \<Rightarrow>
          if \<not> stream_open then Inl (Permanent ''subscriptions disabled'')
          else Inr ((track_cmd,
                     map_option (List.map_filter (\<lambda>t. case parse_event_type t of Inr u \<Rightarrow> Some u | Inl _ \<Rightarrow> None)) types,
                     (case local_time of Some b \<Rightarrow> b | None \<Rightarrow> daemon_local)), inc_subscribers mt)
      | _ \<Rightarrow> Inl (Permanent ''Expected Subscribe command''))"

section \<open>A connection\<close>

datatype read_result = ReadMsg string | ReadError

text \<open>
  Reading a command: line by line until the input ends, a blank line follows some text, or what
  has been read is a complete JSON value.
\<close>

function read_message :: "(string \<Rightarrow> bool) \<Rightarrow> string \<Rightarrow> string \<Rightarrow> read_result" where
  "read_message is_json msg input =
     (let line = fst (next_line input); rest = snd (next_line input) in
      if \<not> utf8_ok line then ReadError
      else if line = [] then ReadMsg (str_trim msg)
      else if str_trim line = [] \<and> msg \<noteq> [] then ReadMsg (str_trim msg)
      else if is_json (str_trim (msg @ line)) then ReadMsg (str_trim (msg @ line))
      else read_message is_json (msg @ line) rest)"
  by auto

termination
proof (relation "measure (\<lambda>(_, _, s). length s)", goal_cases)
  case (2 is_json msg input line rest)
  then have "input \<noteq> []" by auto
  from next_line_shorter [OF this] 2(2) show ?case by simp
qed simp

declare read_message.simps [simp del]

record json_api =
  js_show_cmd :: "socket_cmd \<Rightarrow> string"
  js_parse_cmd :: "string \<Rightarrow> string + socket_cmd"
  js_show_reply :: "reply \<Rightarrow> string"
  js_parse_reply :: "string \<Rightarrow> string + reply"
  js_value :: "string \<Rightarrow> bool"
  js_debug :: "socket_cmd \<Rightarrow> string"

datatype dispatch = Replied string | Subscribed socket_cmd | Dropped

definition handle_socket_accept ::
  "json_api \<Rightarrow> world \<Rightarrow> health_env \<Rightarrow> read_result \<Rightarrow> monitor \<Rightarrow> (dispatch \<times> monitor) option" where
  "handle_socket_accept js w he read m =
     (case read of
        ReadError \<Rightarrow> Some (Dropped, m)
      | ReadMsg cmd_str \<Rightarrow>
          (case js_parse_cmd js cmd_str of
             Inl e \<Rightarrow> Some (Replied (js_show_reply js (Inl (Transient (''Invalid command: '' @ e))) @ [NL]), m)
           | Inr cmd \<Rightarrow>
               (case cmd of
                  Subscribe _ _ _ \<Rightarrow>
                    Some (Subscribed cmd, m\<lparr>mo_metrics := inc_subscribers (mo_metrics m)\<rparr>)
                | _ \<Rightarrow> map_option (\<lambda>(r, m'). (Replied (js_show_reply js r @ [NL]), m'))
                         (handle_socket_cmd w he (js_debug js) cmd m))))"

text \<open>The client's side, with the daemon's answer as a function of the bytes sent.\<close>

definition send_cmd :: "json_api \<Rightarrow> socket_cmd \<Rightarrow> (string \<Rightarrow> string option) \<Rightarrow> reply" where
  "send_cmd js cmd daemon =
     (case daemon (js_show_cmd js cmd @ [NL]) of
        None \<Rightarrow> Inl (Transient ''Failed to connect to daemon'')
      | Some response \<Rightarrow>
          if str_trim response = [] then Inl (Transient ''Empty response from daemon'')
          else (case js_parse_reply js (str_trim response) of
                  Inl e \<Rightarrow> Inl (Transient (''Failed to parse daemon response: '' @ e))
                | Inr r \<Rightarrow> r))"

end
