(* ===== verification/Log_Query.thy ===== *)
theory Log_Query
  imports Event_Mask Fs_View Text "HOL-Library.Multiset"
begin

text \<open>
  \<^verbatim>\<open>src/common/query/core.rs\<close> and the time filters of \<^verbatim>\<open>src/common/utils.rs\<close>: reading the
  events of a log, which is searched by bisection for its first interesting line, and the two
  queries over the log files of a directory. The JSON reader is a parameter.
\<close>

section \<open>Time filters\<close>

datatype time_op = TGt | TGe | TLt | TLe | TEq

record time_filter =
  tf_op :: time_op
  tf_time :: int

definition time_matches :: "time_filter \<Rightarrow> int \<Rightarrow> bool" where
  "time_matches f t =
     (case tf_op f of
        TGt \<Rightarrow> t > tf_time f
      | TGe \<Rightarrow> t \<ge> tf_time f
      | TLt \<Rightarrow> t < tf_time f
      | TLe \<Rightarrow> t \<le> tf_time f
      | TEq \<Rightarrow> t = tf_time f)"

definition is_lower_bound :: "time_filter \<Rightarrow> bool" where
  "is_lower_bound f \<longleftrightarrow> tf_op f = TGt \<or> tf_op f = TGe"

definition is_upper_bound :: "time_filter \<Rightarrow> bool" where
  "is_upper_bound f \<longleftrightarrow> tf_op f = TLt \<or> tf_op f = TLe"

record query =
  q_log_dir :: path
  q_cmd_filter :: "string option"
  q_path_filters :: "path list option"
  q_time_filters :: "time_filter list"
  q_local_time :: bool

fun since_of :: "time_filter list \<Rightarrow> int option \<Rightarrow> int option" where
  "since_of [] since = since"
| "since_of (f # fs) since =
     since_of fs
       (if is_lower_bound f \<and> (case since of None \<Rightarrow> True | Some s \<Rightarrow> tf_time f > s)
        then Some (tf_time f) else since)"

definition extract_since :: "query \<Rightarrow> int option" where
  "extract_since q = since_of (q_time_filters q) None"

fun until_of :: "time_filter list \<Rightarrow> int option \<Rightarrow> int option" where
  "until_of [] until = until"
| "until_of (f # fs) until =
     until_of fs
       (if is_upper_bound f \<and> (case until of None \<Rightarrow> True | Some u \<Rightarrow> tf_time f < u)
        then Some (tf_time f) else until)"

definition extract_until :: "query \<Rightarrow> int option" where
  "extract_until q = until_of (q_time_filters q) None"

section \<open>The bisection\<close>

definition SCAN_BACK_BYTES :: nat where
  "SCAN_BACK_BYTES = 4096"

datatype read_error = OpenFailed | ShortRead | InvalidUtf8

text \<open>What one round finds at the start of the line around \<open>mid\<close>.\<close>

datatype probe = EndOfFile | NoEvent | EventAt int

definition line_start :: "string \<Rightarrow> nat" where
  "line_start content =
     (case rposition (\<lambda>c. c = NL) content of Some p \<Rightarrow> p + 1 | None \<Rightarrow> 0)"

definition probe_at :: "(string \<Rightarrow> file_event option) \<Rightarrow> string \<Rightarrow> nat \<Rightarrow> read_error + probe" where
  "probe_at from_json log mid =
     (let scan_start = mid - SCAN_BACK_BYTES in
      if mid > length log then Inl ShortRead
      else
        (let content = lossy (take (mid - scan_start) (drop scan_start log));
             adjusted_pos = scan_start + line_start content;
             line = fst (next_line (drop adjusted_pos log))
         in if \<not> utf8_ok line then Inl InvalidUtf8
            else if line = [] then Inr EndOfFile
            else (let trimmed = str_trim line in
                  if trimmed = [] then Inr NoEvent
                  else (case parse_log_line_jsonl from_json trimmed of
                          Some e \<Rightarrow> Inr (EventAt (ev_time e))
                        | None \<Rightarrow> Inr NoEvent))))"

function find_loop ::
  "(string \<Rightarrow> file_event option) \<Rightarrow> string \<Rightarrow> int \<Rightarrow> nat \<Rightarrow> nat \<Rightarrow> read_error + nat" where
  "find_loop from_json log since low high =
     (if low < high then
        (let mid = low + (high - low) div 2 in
         case probe_at from_json log mid of
           Inl e \<Rightarrow> Inl e
         | Inr EndOfFile \<Rightarrow> find_loop from_json log since low mid
         | Inr (EventAt t) \<Rightarrow>
             if t < since then find_loop from_json log since (mid + 1) high
             else find_loop from_json log since low mid
         | Inr NoEvent \<Rightarrow> find_loop from_json log since (mid + 1) high)
      else Inr low)"
  by auto

termination
  by (relation "measure (\<lambda>(_, _, _, low, high). high - low)") auto

declare find_loop.simps [simp del]

definition find_first_event_after ::
  "(string \<Rightarrow> file_event option) \<Rightarrow> nat \<Rightarrow> string option \<Rightarrow> int \<Rightarrow> read_error + nat" where
  "find_first_event_after from_json file_len file since =
     (case file of
        None \<Rightarrow> Inl OpenFailed
      | Some log \<Rightarrow> find_loop from_json log since 0 file_len)"

section \<open>Reading a log\<close>

function read_loop ::
  "(string \<Rightarrow> file_event option) \<Rightarrow> time_filter list \<Rightarrow> int option \<Rightarrow> string \<Rightarrow>
     read_error + file_event list" where
  "read_loop from_json filters until s =
     (if s = [] then Inr []
      else
        (let line = fst (next_line s);
             rest = snd (next_line s);
             trimmed = str_trim line in
         if \<not> utf8_ok line then Inl InvalidUtf8
         else
           (case (if trimmed = [] then None else parse_log_line_jsonl from_json trimmed) of
              None \<Rightarrow> read_loop from_json filters until rest
            | Some event \<Rightarrow>
                if list_all (\<lambda>f. time_matches f (ev_time event)) filters then
                  (if (case until of Some u \<Rightarrow> ev_time event > u | None \<Rightarrow> False) then Inr []
                   else (case read_loop from_json filters until rest of
                           Inl e \<Rightarrow> Inl e
                         | Inr events \<Rightarrow> Inr (event # events)))
                else read_loop from_json filters until rest)))"
  by auto

termination
  by (relation "measure (\<lambda>(_, _, _, s). length s)") (auto simp: next_line_shorter)

declare read_loop.simps [simp del]

definition read_events_from ::
  "(string \<Rightarrow> file_event option) \<Rightarrow> query \<Rightarrow> string option \<Rightarrow> int option \<Rightarrow> int option \<Rightarrow>
     read_error + file_event list" where
  "read_events_from from_json q file since until =
     (case file of
        None \<Rightarrow> Inl OpenFailed
      | Some log \<Rightarrow>
          if length log = 0 then Inr []
          else
            (case (case since of
                     Some t \<Rightarrow> find_first_event_after from_json (length log) file t
                   | None \<Rightarrow> Inr 0) of
               Inl e \<Rightarrow> Inl e
             | Inr start_pos \<Rightarrow>
                 read_loop from_json (q_time_filters q) until (drop start_pos log)))"

section \<open>Queries\<close>

text \<open>
  The log directory: whether it exists, what \<^verbatim>\<open>read_dir\<close> lists (\<open>None\<close> when it fails) and the
  content of each regular file. A file is given only if it exists, and its content only if it
  opens.
\<close>

record log_dir_view =
  ld_exists :: bool
  ld_listing :: "path list option"
  ld_file :: "path \<Rightarrow> string option option"
  ld_is_file :: "path \<Rightarrow> bool"

datatype query_error = ListFailed | LogError read_error

definition resolve_log_files :: "log_dir_view \<Rightarrow> query \<Rightarrow> query_error + path list" where
  "resolve_log_files d q =
     (if \<not> ld_exists d then Inr []
      else
        (case q_cmd_filter q of
           Some cmd \<Rightarrow>
             (let log_path = path_join (q_log_dir q) (path_of (cmd_to_log_name cmd)) in
              if ld_file d log_path \<noteq> None then Inr [log_path] else Inr [])
         | None \<Rightarrow>
             (case ld_listing d of
                None \<Rightarrow> Inl ListFailed
              | Some listing \<Rightarrow>
                  Inr (sort (filter (\<lambda>p. suffix ''_log.jsonl''
                                 (case file_name p of Some n \<Rightarrow> n | None \<Rightarrow> []) \<and> ld_is_file d p)
                               listing)))))"

definition path_passes :: "query \<Rightarrow> file_event \<Rightarrow> bool" where
  "path_passes q ev =
     (case q_path_filters q of
        None \<Rightarrow> True
      | Some pfs \<Rightarrow> list_ex (\<lambda>pf. starts_with (ev_path ev) pf) pfs)"

fun read_all ::
  "(string \<Rightarrow> file_event option) \<Rightarrow> log_dir_view \<Rightarrow> query \<Rightarrow> path list \<Rightarrow>
     query_error + file_event list" where
  "read_all from_json d q [] = Inr []"
| "read_all from_json d q (p # ps) =
     (case read_events_from from_json q (case ld_file d p of Some c \<Rightarrow> c | None \<Rightarrow> None)
             (extract_since q) (extract_until q) of
        Inl e \<Rightarrow> Inl (LogError e)
      | Inr evs \<Rightarrow>
          (case read_all from_json d q ps of Inl e \<Rightarrow> Inl e | Inr evs' \<Rightarrow> Inr (evs @ evs')))"

text \<open>The result is the list of events the code prints, one line each.\<close>

definition execute ::
  "(string \<Rightarrow> file_event option) \<Rightarrow> log_dir_view \<Rightarrow> query \<Rightarrow> query_error + file_event list" where
  "execute from_json d q =
     (case resolve_log_files d q of
        Inl e \<Rightarrow> Inl e
      | Inr files \<Rightarrow>
          if files = [] then Inr []
          else (case read_all from_json d q files of
                  Inl e \<Rightarrow> Inl e
                | Inr events \<Rightarrow> Inr (filter (path_passes q) events)))"

definition keep_latest ::
  "(path \<rightharpoonup> file_event) \<Rightarrow> file_event \<Rightarrow> (path \<rightharpoonup> file_event)" where
  "keep_latest m ev =
     (case m (ev_path ev) of
        Some old \<Rightarrow> if ev_time ev > ev_time old then m(ev_path ev \<mapsto> ev) else m
      | None \<Rightarrow> m(ev_path ev \<mapsto> ev))"

text \<open>
  \<open>values\<close> is the iteration of the hash map, in an order the standard library leaves open.
\<close>

definition execute_changes ::
  "(string \<Rightarrow> file_event option) \<Rightarrow> ((path \<rightharpoonup> file_event) \<Rightarrow> file_event list) \<Rightarrow>
     log_dir_view \<Rightarrow> query \<Rightarrow> query_error + file_event list" where
  "execute_changes from_json map_values d q =
     (case resolve_log_files d q of
        Inl e \<Rightarrow> Inl e
      | Inr files \<Rightarrow>
          if files = [] then Inr []
          else (case read_all from_json d q files of
                  Inl e \<Rightarrow> Inl e
                | Inr events \<Rightarrow>
                    Inr (sort_key (\<lambda>e. - ev_time e)
                           (map_values (foldl keep_latest Map.empty
                              (filter (path_passes q) events))))))"

section \<open>Well-formed logs\<close>

text \<open>
  What the code relies on in the JSON writer and reader, for the events of a log: one object per
  line that is read back as the event. Lines are shorter than the window scanned back and ASCII;
  the bisection goes wrong on others.
\<close>

definition event_json_ok ::
  "(file_event \<Rightarrow> string) \<Rightarrow> (string \<Rightarrow> file_event option) \<Rightarrow> file_event \<Rightarrow> bool" where
  "event_json_ok to_json from_json e \<longleftrightarrow>
     from_json (to_json e) = Some e \<and> NL \<notin> set (to_json e) \<and> ascii (to_json e) \<and>
     length (to_json e) < SCAN_BACK_BYTES \<and> to_json e \<noteq> [] \<and>
     hd (to_json e) = CHR ''{'' \<and> last (to_json e) = CHR ''}''"

abbreviation log_of :: "(file_event \<Rightarrow> string) \<Rightarrow> file_event list \<Rightarrow> string" where
  "log_of to_json evs \<equiv> unlines (map to_json evs)"

lemma ws_len_brace: "ws_len (CHR ''{'' # s) = 0"
  by (auto simp: ws_len_def ascii_ws_def ws2_def ws3_def split: list.splits)

lemma str_trim_line:
  assumes "w \<noteq> []" and "hd w = CHR ''{''" and "last w = CHR ''}''"
  shows "str_trim (w @ [NL]) = w"
proof -
  obtain v where v: "w = CHR ''{'' # v" using assms by (cases w) auto
  obtain u where u: "rev w = CHR ''}'' # u"
    using assms last_rev [of "rev w"] by (cases "rev w") auto
  have a: "trim_with ws_len (w @ [NL]) = w @ [NL]"
    by (rule trim_with_stop) (simp add: v ws_len_brace)
  have "ws_len_rev (rev w) = 0"
    by (auto simp: u ws_len_rev_def ascii_ws_def ws2_def ws3_def split: list.splits)
  then have b: "trim_with ws_len_rev (rev w) = rev w" by (rule trim_with_stop)
  have "ws_len_rev (NL # rev w) = 1" by (simp add: ws_len_rev_def ascii_ws_def)
  then have "trim_with ws_len_rev (NL # rev w) = rev w"
    by (subst trim_with.simps) (simp add: b)
  then show ?thesis by (simp add: str_trim_def a)
qed

lemma parse_line:
  assumes "event_json_ok to_json from_json e"
  shows "str_trim (to_json e @ [NL]) = to_json e"
    and "parse_log_line_jsonl from_json (to_json e) = Some e"
    and "utf8_ok (to_json e @ [NL])"
proof -
  obtain v where v: "to_json e = CHR ''{'' # v"
    using assms by (cases "to_json e") (auto simp: event_json_ok_def)
  show "str_trim (to_json e @ [NL]) = to_json e"
    using assms by (auto simp: event_json_ok_def intro: str_trim_line)
  have "str_trim (to_json e) = to_json e"
    using assms by (intro str_trim_braces [OF v]) (simp add: event_json_ok_def)
  then show "parse_log_line_jsonl from_json (to_json e) = Some e"
    using assms by (simp add: parse_log_line_jsonl_def Let_def event_json_ok_def)
  show "utf8_ok (to_json e @ [NL])"
    using assms by (auto simp: event_json_ok_def byte_def intro: utf8_ok_ascii)
qed
lemma next_line_log:
  "event_json_ok to_json from_json e \<Longrightarrow>
     next_line (log_of to_json (e # evs)) = (to_json e @ [NL], log_of to_json evs)"
  by (simp add: next_line_line event_json_ok_def)

section \<open>The bisection finds the first line in time\<close>

lemma line_start_append:
  assumes "u = [] \<or> last u = NL" and "NL \<notin> set v"
  shows "line_start (u @ v) = length u"
proof -
  have none: "rposition (\<lambda>c. c = NL) v = None" using assms(2) by (auto simp: rposition_None_iff)
  show ?thesis
  proof (cases u rule: rev_cases)
    case Nil
    then show ?thesis by (simp add: line_start_def none)
  next
    case (snoc w c)
    then have c: "c = NL" using assms(1) by simp
    have "rposition (\<lambda>c. c = NL) (w @ NL # v) = Some (length w)"
      by (induction w) (simp_all add: none)
    then show ?thesis by (simp add: snoc c line_start_def)
  qed
qed

lemma last_log_of: "log_of to_json evs = [] \<or> last (log_of to_json evs) = NL"
  by (induction evs rule: rev_induct) simp_all

lemma log_position:
  assumes "mid < length (log_of to_json evs)"
  obtains xs e ys where "evs = xs @ e # ys" and "length (log_of to_json xs) \<le> mid"
    and "mid \<le> length (log_of to_json xs) + length (to_json e)"
  using assms
proof (induction evs arbitrary: mid thesis)
  case Nil
  then show ?case by simp
next
  case (Cons e evs)
  show ?case
  proof (cases "mid \<le> length (to_json e)")
    case True
    then show ?thesis using Cons.prems(1) [of "[]" e evs] by simp
  next
    case False
    let ?m = "mid - length (to_json e) - 1"
    have "?m < length (log_of to_json evs)" using Cons.prems(2) False by simp
    with Cons.IH obtain xs d ys where "evs = xs @ d # ys" "length (log_of to_json xs) \<le> ?m"
      "?m \<le> length (log_of to_json xs) + length (to_json d)" by blast
    then show ?thesis using Cons.prems(1) [of "e # xs" d ys] False by simp
  qed
qed

lemma ascii_log:
  "list_all (event_json_ok to_json from_json) evs \<Longrightarrow> ascii (log_of to_json evs)"
  by (induction evs) (auto simp: event_json_ok_def byte_def)

lemma probe_at_log:
  assumes ok: "list_all (event_json_ok to_json from_json) (xs @ e # ys)"
    and lo: "length (log_of to_json xs) \<le> mid"
    and hi: "mid \<le> length (log_of to_json xs) + length (to_json e)"
  shows "probe_at from_json (log_of to_json (xs @ e # ys)) mid = Inr (EventAt (ev_time e))"
proof -
  let ?log = "log_of to_json (xs @ e # ys)" and ?u = "log_of to_json xs"
  let ?start = "mid - SCAN_BACK_BYTES" and ?d = "mid - length ?u"
  have e: "event_json_ok to_json from_json e" using ok by simp
  then have short: "?d < SCAN_BACK_BYTES" and nl: "NL \<notin> set (to_json e)"
    using hi by (auto simp: event_json_ok_def)
  have "?start \<le> length ?u" using short lo by simp
  have "take (mid - ?start) (drop ?start ?log) = drop ?start (take mid ?log)"
    by (rule drop_take [symmetric])
  also have "take mid ?log = ?u @ take ?d (to_json e)"
    using lo hi by simp
  also have "drop ?start \<dots> = drop ?start ?u @ take ?d (to_json e)"
    using \<open>?start \<le> length ?u\<close> by simp
  finally have "take (mid - ?start) (drop ?start ?log) = drop ?start ?u @ take ?d (to_json e)" .
  moreover have "ascii (take (mid - ?start) (drop ?start ?log))"
    by (rule ascii_take [OF ascii_drop [OF ascii_log [OF ok]]])
  ultimately have content: "lossy (take (mid - ?start) (drop ?start ?log)) =
      drop ?start ?u @ take ?d (to_json e)"
    by (metis lossy_ascii)
  have "drop ?start ?u = [] \<or> last (drop ?start ?u) = NL"
    using last_log_of [of to_json xs] by (metis drop_eq_Nil last_drop not_le drop_Nil)
  moreover have "NL \<notin> set (take ?d (to_json e))" using nl by (auto dest: in_set_takeD)
  ultimately have adjusted: "?start + line_start (drop ?start ?u @ take ?d (to_json e)) = length ?u"
    using line_start_append \<open>?start \<le> length ?u\<close> by fastforce
  have line: "fst (next_line (drop (length ?u) ?log)) = to_json e @ [NL]"
    using next_line_log [OF e, of ys] by simp
  have "\<not> length ?log < mid" "to_json e \<noteq> []"
    using hi e by (simp_all add: event_json_ok_def)
  then show ?thesis
    using parse_line [OF e] unfolding probe_at_def Let_def content adjusted line by simp
qed

text \<open>Where the bisection has to end: after the lines of the earlier events.\<close>

definition split_pos :: "(file_event \<Rightarrow> string) \<Rightarrow> int \<Rightarrow> file_event list \<Rightarrow> nat" where
  "split_pos to_json since evs =
     length (log_of to_json (takeWhile (\<lambda>e. ev_time e < since) evs))"

lemma before_split:
  assumes "sorted (map ev_time (xs @ e # ys))"
    and "length (log_of to_json xs) \<le> mid"
    and "mid \<le> length (log_of to_json xs) + length (to_json e)"
  shows "ev_time e < since \<longleftrightarrow> mid < split_pos to_json since (xs @ e # ys)"
proof (cases "ev_time e < since")
  case True
  then have "\<forall>x \<in> set xs. ev_time x < since"
    using assms(1) by (fastforce simp: sorted_append)
  then have "split_pos to_json since (xs @ e # ys) =
      length (log_of to_json xs) + length (to_json e) + 1 + split_pos to_json since ys"
    using True by (simp add: split_pos_def)
  then show ?thesis using True assms(3) by simp
next
  case False
  then have "takeWhile (\<lambda>e. ev_time e < since) (xs @ e # ys) = takeWhile (\<lambda>e. ev_time e < since) xs"
    by (induction xs) auto
  moreover have "length (log_of to_json (takeWhile P xs)) \<le> length (log_of to_json xs)" for P
    by (induction xs) auto
  ultimately have "split_pos to_json since (xs @ e # ys) \<le> length (log_of to_json xs)"
    by (simp add: split_pos_def)
  then show ?thesis using False assms(2) by simp
qed

lemma find_loop_log:
  assumes ok: "list_all (event_json_ok to_json from_json) evs"
    and srt: "sorted (map ev_time evs)"
    and "low \<le> split_pos to_json since evs" and "split_pos to_json since evs \<le> high"
    and "high \<le> length (log_of to_json evs)"
  shows "find_loop from_json (log_of to_json evs) since low high =
    Inr (split_pos to_json since evs)"
  using assms(3-5)
proof (induction "high - low" arbitrary: low high rule: less_induct)
  case less
  show ?case
  proof (cases "low < high")
    case False
    then show ?thesis using less.prems by (simp add: find_loop.simps)
  next
    case True
    let ?mid = "low + (high - low) div 2"
    have mid: "low \<le> ?mid" "?mid < high" using True by auto
    then have "?mid < length (log_of to_json evs)" using less.prems by simp
    then obtain xs e ys where evs: "evs = xs @ e # ys"
      and lo: "length (log_of to_json xs) \<le> ?mid"
      and hi: "?mid \<le> length (log_of to_json xs) + length (to_json e)"
      by (rule log_position)
    have p: "probe_at from_json (log_of to_json evs) ?mid = Inr (EventAt (ev_time e))"
      using probe_at_log [OF _ lo hi] ok unfolding evs by blast
    have t: "ev_time e < since \<longleftrightarrow> ?mid < split_pos to_json since evs"
      using before_split [OF _ lo hi] srt unfolding evs by blast
    show ?thesis
    proof (cases "ev_time e < since")
      case True
      then have "find_loop from_json (log_of to_json evs) since (?mid + 1) high =
          Inr (split_pos to_json since evs)"
        using less.hyps [of high "?mid + 1"] less.prems t mid by simp
      then show ?thesis
        using \<open>low < high\<close> True p by (subst find_loop.simps) (simp add: Let_def)
    next
      case False
      then have "find_loop from_json (log_of to_json evs) since low ?mid =
          Inr (split_pos to_json since evs)"
        using less.hyps [of ?mid low] less.prems t mid by simp
      then show ?thesis
        using \<open>low < high\<close> False p by (subst find_loop.simps) (simp add: Let_def)
    qed
  qed
qed


section \<open>Reading the rest of the log\<close>

abbreviation passes :: "time_filter list \<Rightarrow> file_event \<Rightarrow> bool" where
  "passes fs e \<equiv> list_all (\<lambda>f. time_matches f (ev_time e)) fs"

lemma since_of_lower:
  "since_of fs since = Some s \<Longrightarrow> since = Some s \<or> (\<exists>f \<in> set fs. is_lower_bound f \<and> tf_time f = s)"
  by (induction fs arbitrary: since) (force split: if_splits)+

lemma until_of_upper:
  "until_of fs until = Some u \<Longrightarrow> until = Some u \<or> (\<exists>f \<in> set fs. is_upper_bound f \<and> tf_time f = u)"
  by (induction fs arbitrary: until) (force split: if_splits)+

lemma since_passes: "extract_since q = Some s \<Longrightarrow> passes (q_time_filters q) e \<Longrightarrow> s \<le> ev_time e"
  using since_of_lower [of "q_time_filters q" None s]
  by (force simp: extract_since_def is_lower_bound_def time_matches_def list_all_iff)

lemma until_passes: "extract_until q = Some u \<Longrightarrow> passes (q_time_filters q) e \<Longrightarrow> ev_time e \<le> u"
  using until_of_upper [of "q_time_filters q" None u]
  by (force simp: extract_until_def is_upper_bound_def time_matches_def list_all_iff)

lemma read_loop_log:
  assumes "list_all (event_json_ok to_json from_json) evs"
    and "\<And>e u. until = Some u \<Longrightarrow> passes fs e \<Longrightarrow> ev_time e \<le> u"
  shows "read_loop from_json fs until (log_of to_json evs) = Inr (filter (passes fs) evs)"
  using assms(1)
proof (induction evs)
  case Nil
  then show ?case by (simp add: read_loop.simps)
next
  case (Cons e evs)
  then have e: "event_json_ok to_json from_json e" by simp
  then have "to_json e \<noteq> []" by (simp add: event_json_ok_def)
  have "\<not> (case until of Some u \<Rightarrow> ev_time e > u | None \<Rightarrow> False)" if "passes fs e"
    using assms(2) [OF _ that] by (auto split: option.splits)
  with Cons \<open>to_json e \<noteq> []\<close> show ?case
    using parse_line [OF e] next_line_log [OF e, of evs]
    by (subst read_loop.simps) (simp add: Let_def)
qed

lemma drop_split_pos:
  "drop (split_pos to_json since evs) (log_of to_json evs) =
     log_of to_json (dropWhile (\<lambda>e. ev_time e < since) evs)"
proof -
  have "log_of to_json evs = log_of to_json (takeWhile (\<lambda>e. ev_time e < since) evs) @
      log_of to_json (dropWhile (\<lambda>e. ev_time e < since) evs)"
    by (simp flip: unlines_simps map_append)
  then show ?thesis by (simp add: split_pos_def)
qed

lemma split_pos_bound: "split_pos to_json since evs \<le> length (log_of to_json evs)"
  by (induction evs) (simp_all add: split_pos_def)

lemma filter_dropWhile:
  "(\<And>e. P e \<Longrightarrow> \<not> Q e) \<Longrightarrow> filter Q (dropWhile P xs) = filter Q xs"
  by (induction xs) auto

lemma keep_latest_apply:
  "keep_latest m x p =
     (if ev_path x = p \<and> (case m p of Some old \<Rightarrow> ev_time old < ev_time x | None \<Rightarrow> True)
      then Some x else m p)"
  by (auto simp: keep_latest_def split: option.splits)

lemma keep_latest_fold:
  "(case foldl keep_latest Map.empty es p of
      None \<Rightarrow> p \<notin> ev_path ` set es
    | Some e \<Rightarrow> e \<in> set es \<and> ev_path e = p \<and>
        (\<forall>e' \<in> set es. ev_path e' = p \<longrightarrow> ev_time e' \<le> ev_time e))"
proof (induction es arbitrary: p rule: rev_induct)
  case Nil
  then show ?case by simp
next
  case (snoc x es)
  define m where "m = foldl keep_latest Map.empty es"
  have step: "foldl keep_latest Map.empty (es @ [x]) p = keep_latest m x p" by (simp add: m_def)
  show ?case
    using snoc.IH [of p] unfolding step unfolding m_def [symmetric]
    by (cases "m p") (auto simp: keep_latest_apply image_iff)
qed

lemma keep_latest_dom: "dom (foldl keep_latest Map.empty es) = ev_path ` set es"
proof -
  have "foldl keep_latest Map.empty es p = None \<longleftrightarrow> p \<notin> ev_path ` set es" for p
    using keep_latest_fold [where es = es and p = p] by (auto split: option.splits)
  then show ?thesis by (auto simp: dom_def)
qed

lemma keep_latest_SomeD:
  assumes "foldl keep_latest Map.empty es p = Some e"
  shows "e \<in> set es" "ev_path e = p" "e' \<in> set es \<Longrightarrow> ev_path e' = p \<Longrightarrow> ev_time e' \<le> ev_time e"
  using keep_latest_fold [where es = es and p = p] assms by auto

lemma mset_sorted_set:
  "finite A \<Longrightarrow> mset (sorted_list_of_set A) = mset_set (A :: 'a::linorder set)"
  using mset_set_set [of "sorted_list_of_set A"] by simp

lemma read_events_log:
  assumes "list_all (event_json_ok to_json from_json) evs" and "sorted (map ev_time evs)"
  shows "read_events_from from_json q (Some (log_of to_json evs)) (extract_since q) (extract_until q) =
    Inr (filter (\<lambda>e. list_all (\<lambda>f. time_matches f (ev_time e)) (q_time_filters q)) evs)"
proof (cases "evs = []")
  case True
  then show ?thesis by (simp add: read_events_from_def)
next
  case False
  then have ne: "log_of to_json evs \<noteq> []" by (cases evs) simp_all
  have until: "\<And>e u. extract_until q = Some u \<Longrightarrow> passes (q_time_filters q) e \<Longrightarrow> ev_time e \<le> u"
    by (rule until_passes)
  show ?thesis
  proof (cases "extract_since q")
    case None
    then show ?thesis
      using ne read_loop_log [OF assms(1) until] by (simp add: read_events_from_def)
  next
    case (Some s)
    let ?rest = "dropWhile (\<lambda>e. ev_time e < s) evs"
    have "list_all (event_json_ok to_json from_json) ?rest"
      using assms(1) by (auto simp: list_all_iff dest: set_dropWhileD)
    from read_loop_log [OF this until]
    have "read_loop from_json (q_time_filters q) (extract_until q) (log_of to_json ?rest) =
        Inr (filter (passes (q_time_filters q)) ?rest)" .
    moreover have "filter (passes (q_time_filters q)) ?rest = filter (passes (q_time_filters q)) evs"
      by (rule filter_dropWhile) (use since_passes [OF Some] in fastforce)
    ultimately show ?thesis
      using ne Some find_loop_log [OF assms, of 0 s "length (log_of to_json evs)"]
        split_pos_bound [of to_json s evs] drop_split_pos [of to_json s evs]
      by (simp add: read_events_from_def find_first_event_after_def)
  qed
qed

lemma read_all_logs:
  assumes "\<And>p. p \<in> set ps \<Longrightarrow> ld_file d p = Some (Some (log_of to_json (evs p))) \<and>
      list_all (event_json_ok to_json from_json) (evs p) \<and> sorted (map ev_time (evs p))"
  shows "read_all from_json d q ps = Inr (filter (passes (q_time_filters q)) (concat (map evs ps)))"
  using assms
proof (induction ps)
  case (Cons p ps)
  then have "ld_file d p = Some (Some (log_of to_json (evs p)))"
    "read_events_from from_json q (Some (log_of to_json (evs p))) (extract_since q)
       (extract_until q) = Inr (filter (passes (q_time_filters q)) (evs p))"
    by (auto intro: read_events_log)
  moreover have "read_all from_json d q ps =
      Inr (filter (passes (q_time_filters q)) (concat (map evs ps)))"
    using Cons by simp
  ultimately show ?case by simp
qed simp

section \<open>Two events for the witnesses\<close>

definition sample_event :: "int \<Rightarrow> string \<Rightarrow> file_event" where
  "sample_event t name =
     \<lparr>ev_time = t, ev_type = Create, ev_path = [RootDir, Normal name], ev_pid = 1, ev_comm = [],
      ev_cmd = [], ev_user = [], ev_file_size = 0, ev_ppid = 0, ev_tgid = 0, ev_chain = [],
      ev_fs_error = None\<rparr>"

definition sample_log :: "file_event list" where
  "sample_log = [sample_event 1 ''a'', sample_event 5 ''b'']"

definition sample_to_json :: "file_event \<Rightarrow> string" where
  "sample_to_json e = (if ev_time e < 3 then ''{a}'' else ''{b}'')"

definition sample_from_json :: "string \<Rightarrow> file_event option" where
  "sample_from_json s =
     (if s = ''{a}'' then Some (sample_event 1 ''a'')
      else if s = ''{b}'' then Some (sample_event 5 ''b'') else None)"

lemma sample_ok: "list_all (event_json_ok sample_to_json sample_from_json) sample_log"
  by code_simp

lemma sample_sorted: "sorted (map ev_time sample_log)"
  by code_simp

section \<open>Properties\<close>

text \<open>
  C10: The bisection of a sorted log returns the byte offset of the first event at or after the
  given time, the length of the file if there is none, for every time and every number of
  events.
\<close>

theorem bisection_finds_first:
  assumes "list_all (event_json_ok to_json from_json) evs" and "sorted (map ev_time evs)"
  shows "find_first_event_after from_json (length (log_of to_json evs)) (Some (log_of to_json evs))
      since = Inr (length (log_of to_json (takeWhile (\<lambda>e. ev_time e < since) evs)))"
  using find_loop_log [OF assms, of 0 since "length (log_of to_json evs)"]
    split_pos_bound [of to_json since evs]
  by (simp add: find_first_event_after_def split_pos_def)

theorem bisection_finds_first_witness:
  "find_first_event_after sample_from_json 8 (Some (''{a}'' @ [CHR 0x0A] @ ''{b}'' @ [CHR 0x0A])) 2 = Inr 4"
proof -
  have l: "log_of sample_to_json sample_log = (''{a}'' @ [CHR 0x0A] @ ''{b}'' @ [CHR 0x0A])"
    and n: "length (log_of sample_to_json (takeWhile (\<lambda>e. ev_time e < 2) sample_log)) = 4"
    by code_simp+
  have len: "length (''{a}'' @ [CHR 0x0A] @ ''{b}'' @ [CHR 0x0A]) = 8" by simp
  from bisection_finds_first [OF sample_ok sample_sorted, of 2] show ?thesis
    unfolding l n len .
qed

text \<open>
  Reading a sorted log through the bisection and the early exit returns what a scan of the
  whole log for the events that pass every time filter would.
\<close>

theorem read_events_complete:
  assumes "list_all (event_json_ok to_json from_json) evs" and "sorted (map ev_time evs)"
  shows "read_events_from from_json q (Some (log_of to_json evs)) (extract_since q) (extract_until q) =
    Inr (filter (\<lambda>e. list_all (\<lambda>f. time_matches f (ev_time e)) (q_time_filters q)) evs)"
  by (rule read_events_log [OF assms])

theorem read_events_complete_witness:
  "read_events_from sample_from_json
     \<lparr>q_log_dir = [], q_cmd_filter = None, q_path_filters = None,
      q_time_filters = [\<lparr>tf_op = TGt, tf_time = 1\<rparr>], q_local_time = False\<rparr>
     (Some (''{a}'' @ [CHR 0x0A] @ ''{b}'' @ [CHR 0x0A])) (Some 1) None = Inr [sample_event 5 ''b'']"
proof -
  let ?q = "\<lparr>q_log_dir = [], q_cmd_filter = None, q_path_filters = None,
      q_time_filters = [\<lparr>tf_op = TGt, tf_time = 1\<rparr>], q_local_time = False\<rparr>"
  have l: "log_of sample_to_json sample_log = (''{a}'' @ [CHR 0x0A] @ ''{b}'' @ [CHR 0x0A])" by code_simp
  have s: "extract_since ?q = Some 1" "extract_until ?q = None" by code_simp+
  have f: "filter (\<lambda>e. list_all (\<lambda>f. time_matches f (ev_time e)) (q_time_filters ?q)) sample_log =
      [sample_event 5 ''b'']"
    by code_simp
  from read_events_complete [OF sample_ok sample_sorted, of ?q] show ?thesis
    unfolding l s f .
qed

text \<open>
  A query prints, file after file in the order of their names, exactly the events that pass
  every time filter and lie under one of the path filters; nothing is lost to the bisection.
\<close>

theorem execute_complete:
  assumes "resolve_log_files d q = Inr files"
    and "list_all (\<lambda>p. ld_file d p = Some (Some (unlines (map to_json (evs p)))) \<and>
           list_all (event_json_ok to_json from_json) (evs p) \<and> sorted (map ev_time (evs p))) files"
  shows "execute from_json d q =
    Inr (filter (\<lambda>e. path_passes q e \<and>
                    list_all (\<lambda>f. time_matches f (ev_time e)) (q_time_filters q))
           (concat (map evs files)))"
proof -
  have "read_all from_json d q files =
      Inr (filter (passes (q_time_filters q)) (concat (map evs files)))"
    using assms(2) by (intro read_all_logs) (auto simp: list_all_iff)
  then show ?thesis
    using assms(1) by (cases files) (simp_all add: execute_def conj_commute)
qed

theorem execute_complete_witness:
  "execute sample_from_json
     \<lparr>ld_exists = True, ld_listing = None, ld_file = (\<lambda>_. Some (Some (''{a}'' @ [CHR 0x0A] @ ''{b}'' @ [CHR 0x0A]))),
      ld_is_file = (\<lambda>_. True)\<rparr>
     \<lparr>q_log_dir = [RootDir], q_cmd_filter = Some ''x'',
      q_path_filters = Some [[RootDir, Normal ''b'']], q_time_filters = [], q_local_time = False\<rparr>
     = Inr [sample_event 5 ''b'']"
proof -
  let ?d = "\<lparr>ld_exists = True, ld_listing = None,
      ld_file = (\<lambda>_. Some (Some (''{a}'' @ [CHR 0x0A] @ ''{b}'' @ [CHR 0x0A]))), ld_is_file = (\<lambda>_. True)\<rparr>"
  let ?q = "\<lparr>q_log_dir = [RootDir], q_cmd_filter = Some ''x'',
      q_path_filters = Some [[RootDir, Normal ''b'']], q_time_filters = [], q_local_time = False\<rparr>"
  let ?p = "[RootDir, Normal ''x_log.jsonl'']"
  have r: "resolve_log_files ?d ?q = Inr [?p]" by code_simp
  have l: "unlines (map sample_to_json sample_log) = (''{a}'' @ [CHR 0x0A] @ ''{b}'' @ [CHR 0x0A])" by code_simp
  have f: "list_all (\<lambda>p. ld_file ?d p = Some (Some (unlines (map sample_to_json sample_log))) \<and>
      list_all (event_json_ok sample_to_json sample_from_json) sample_log \<and>
      sorted (map ev_time sample_log)) [?p]"
    using sample_ok sample_sorted by (simp add: l)
  have g: "filter (\<lambda>e. path_passes ?q e \<and> list_all (\<lambda>f. time_matches f (ev_time e))
      (q_time_filters ?q)) (concat (map (\<lambda>_. sample_log) [?p])) = [sample_event 5 ''b'']"
    by code_simp
  from execute_complete [of ?d ?q "[?p]" sample_to_json "\<lambda>_. sample_log" sample_from_json, OF r f]
  show ?thesis unfolding g .
qed

text \<open>
  The changes query lists, newest first, one event for each path that has one: the latest
  of the events that pass the filters.
\<close>

theorem execute_changes_latest:
  assumes "resolve_log_files d q = Inr files" and "files \<noteq> []"
    and "read_all from_json d q files = Inr events"
    and "\<And>m. finite (dom m) \<Longrightarrow> mset (map_values m) = image_mset (\<lambda>k. the (m k)) (mset_set (dom m))"
    and "execute_changes from_json map_values d q = Inr res"
  shows "sorted_wrt (\<lambda>a b. ev_time a \<ge> ev_time b) res \<and> distinct (map ev_path res) \<and>
    ev_path ` set res = ev_path ` set (filter (path_passes q) events) \<and>
    (\<forall>e \<in> set res. e \<in> set events \<and> path_passes q e \<and>
       (\<forall>e' \<in> set events. path_passes q e' \<and> ev_path e' = ev_path e \<longrightarrow> ev_time e' \<le> ev_time e))"
proof -
  let ?es = "filter (path_passes q) events"
  define m where "m = foldl keep_latest Map.empty ?es"
  have dm: "dom m = ev_path ` set ?es" unfolding m_def by (rule keep_latest_dom)
  then have fin: "finite (dom m)" by simp
  have res: "res = sort_key (\<lambda>e. - ev_time e) (map_values m)"
    using assms(1,2,3,5) by (simp add: execute_changes_def m_def)
  have paths: "ev_path (the (m k)) = k" if "k \<in> dom m" for k
    using that keep_latest_SomeD(2) unfolding m_def by fastforce
  have "mset (map ev_path res) = image_mset (\<lambda>k. ev_path (the (m k))) (mset_set (dom m))"
    by (simp add: res assms(4) [OF fin] multiset.map_comp comp_def)
  also have "\<dots> = mset_set (dom m)"
    using image_mset_cong [of "mset_set (dom m)" "\<lambda>k. ev_path (the (m k))" id] paths fin by simp
  finally have ms: "mset (map ev_path res) = mset (sorted_list_of_set (dom m))"
    by (simp add: mset_sorted_set [OF fin])
  then have dist: "distinct (map ev_path res)"
    using mset_eq_imp_distinct_iff [OF ms] by simp
  from mset_eq_setD [OF ms] have img: "ev_path ` set res = dom m" using fin by simp
  have mem: "\<exists>k. m k = Some e" if "e \<in> set res" for e
  proof -
    have "e \<in># image_mset (\<lambda>k. the (m k)) (mset_set (dom m))"
      using that unfolding res assms(4) [OF fin, symmetric] by simp
    then show ?thesis using fin by (auto simp: dom_def)
  qed
  have srt: "sorted_wrt (\<lambda>a b. ev_time a \<ge> ev_time b) res"
    using sorted_sort_key [of "\<lambda>e. - ev_time e" "map_values m"]
    by (simp add: res sorted_map)
  have latest: "e \<in> set ?es \<and> (\<forall>e' \<in> set ?es. ev_path e' = ev_path e \<longrightarrow> ev_time e' \<le> ev_time e)"
    if "e \<in> set res" for e
  proof -
    from mem [OF that] obtain k where k: "foldl keep_latest Map.empty ?es k = Some e"
      unfolding m_def by blast
    from keep_latest_SomeD [OF k] show ?thesis by blast
  qed
  have "ev_path ` set res = ev_path ` set ?es" using img dm by (rule trans)
  moreover have "\<forall>e \<in> set res. e \<in> set events \<and> path_passes q e \<and>
      (\<forall>e' \<in> set events. path_passes q e' \<and> ev_path e' = ev_path e \<longrightarrow> ev_time e' \<le> ev_time e)"
    using latest by (simp only: set_filter) blast
  ultimately show ?thesis by (intro conjI srt dist)
qed

theorem execute_changes_latest_witness:
  "\<exists>res. execute_changes sample_from_json (\<lambda>m. map (\<lambda>k. the (m k)) (sorted_list_of_set (dom m)))
     \<lparr>ld_exists = True, ld_listing = None, ld_file = (\<lambda>_. Some (Some (''{a}'' @ [CHR 0x0A] @ ''{b}'' @ [CHR 0x0A]))),
      ld_is_file = (\<lambda>_. True)\<rparr>
     \<lparr>q_log_dir = [RootDir], q_cmd_filter = Some ''x'', q_path_filters = None,
      q_time_filters = [], q_local_time = False\<rparr> = Inr res \<and>
     ev_path ` set res = {[RootDir, Normal ''a''], [RootDir, Normal ''b'']}"
proof -
  let ?d = "\<lparr>ld_exists = True, ld_listing = None,
      ld_file = (\<lambda>_. Some (Some (''{a}'' @ [CHR 0x0A] @ ''{b}'' @ [CHR 0x0A]))), ld_is_file = (\<lambda>_. True)\<rparr>"
  let ?q = "\<lparr>q_log_dir = [RootDir], q_cmd_filter = Some ''x'', q_path_filters = None,
      q_time_filters = [], q_local_time = False\<rparr>"
  let ?p = "[RootDir, Normal ''x_log.jsonl'']"
  let ?vals = "\<lambda>m. map (\<lambda>k. the (m k)) (sorted_list_of_set (dom m))"
  have r: "resolve_log_files ?d ?q = Inr [?p]" by code_simp
  have a: "read_all sample_from_json ?d ?q [?p] = Inr sample_log" by code_simp
  have v: "mset (?vals m) = image_mset (\<lambda>k. the (m k)) (mset_set (dom m))"
    if "finite (dom m)" for m :: "path \<rightharpoonup> file_event"
    using mset_sorted_set [OF that] by simp
  obtain res where e: "execute_changes sample_from_json ?vals ?d ?q = Inr res"
    using r a by (simp add: execute_changes_def)
  have "ev_path ` set (filter (path_passes ?q) sample_log) =
      {[RootDir, Normal ''a''], [RootDir, Normal ''b'']}"
    by code_simp
  with execute_changes_latest [OF r _ a v e] e show ?thesis by auto
qed

end
