(* ===== verification/Log_Clean.thy ===== *)
theory Log_Clean
  imports Log_Query
begin

text \<open>
  \<^verbatim>\<open>src/common/clean/core.rs\<close>: cleaning a log by time and by size. The files are a table from
  paths to contents; what each system call does is given by an environment record, so that the
  state after every failure is part of the model.
\<close>

definition should_trim :: "nat \<Rightarrow> size_filter \<Rightarrow> bool" where
  "should_trim kept_bytes f =
     (let max = unat (sf_bytes f) in
      case sf_op f of
        SGt \<Rightarrow> kept_bytes > max
      | SGe \<Rightarrow> kept_bytes \<ge> max
      | SLt \<Rightarrow> kept_bytes < max
      | SLe \<Rightarrow> kept_bytes \<le> max
      | SEq \<Rightarrow> kept_bytes = max)"

definition find_tail_offset :: "string \<Rightarrow> nat \<Rightarrow> nat" where
  "find_tail_offset content max_bytes =
     (let file_len = length content in
      if file_len \<le> max_bytes then 0
      else
        (let target = file_len - max_bytes;
             scan_start = target - 4096;
             buf = drop scan_start content;
             target_rel = target - scan_start
         in case rposition (\<lambda>b. b = NL) (take target_rel buf) of
              Some pos \<Rightarrow> scan_start + pos + 1
            | None \<Rightarrow>
                (case position (\<lambda>b. b = NL) (drop target_rel buf) of
                   Some pos \<Rightarrow> target + pos + 1
                 | None \<Rightarrow> file_len)))"

definition count_lines :: "string \<Rightarrow> nat \<Rightarrow> nat" where
  "count_lines content n = length (filter (\<lambda>b. b = NL) (take n content))"

text \<open>
  The outcomes of the system calls. \<open>ce_write_ok n\<close> is the write at byte \<open>n\<close> of the temporary
  file; \<open>ce_flushed\<close> is what of the written text is in the file once the buffered writer is
  dropped (a failure there is not reported); \<open>ce_copy\<close> is what the copy leaves in the backup.
\<close>

record clean_env =
  ce_symlink :: "path \<Rightarrow> bool"
  ce_open_ok :: bool
  ce_create_ok :: bool
  ce_write_ok :: "nat \<Rightarrow> bool"
  ce_flushed :: "string \<Rightarrow> string"
  ce_scan_ok :: bool
  ce_trim_ok :: bool
  ce_trim_rename_ok :: bool
  ce_copy :: "string \<Rightarrow> string option"
  ce_rename_ok :: bool
  ce_restore_ok :: bool

datatype clean_error =
  NoSuchLog | IsSymlink | LogOpenFailed | TempCreateFailed | LineNotUtf8 | TempWriteFailed
  | ScanFailed | TrimFailed | RenameFailed

definition truncate_from_start ::
  "clean_env \<Rightarrow> path \<Rightarrow> nat \<Rightarrow> files \<Rightarrow> (clean_error + unit) \<times> files" where
  "truncate_from_start env p offset fl =
     (if offset = 0 then (Inr (), fl)
      else
        (case fl p of
           None \<Rightarrow> (Inl NoSuchLog, fl)
         | Some s \<Rightarrow>
             if ce_symlink env p then (Inl IsSymlink, fl)
             else if offset \<ge> length s then
               (if ce_trim_ok env then (Inr (), fl(p \<mapsto> [])) else (Inl TrimFailed, fl))
             else if \<not> ce_trim_ok env then (Inl TrimFailed, fl)
             else if \<not> ce_trim_rename_ok env then (Inl TrimFailed, fl)
             else (Inr (), fl(p \<mapsto> drop offset s))))"

text \<open>The pass over the lines: the text kept and the events dropped.\<close>

fun copy_kept ::
  "clean_env \<Rightarrow> (string \<Rightarrow> file_event option) \<Rightarrow> time_filter option \<Rightarrow> string list \<Rightarrow>
     string \<Rightarrow> file_event list \<Rightarrow> clean_error option \<times> string \<times> file_event list" where
  "copy_kept env from_json tf [] out deleted = (None, out, deleted)"
| "copy_kept env from_json tf (line # lines) out deleted =
     (if \<not> utf8_ok line then (Some LineNotUtf8, out, deleted)
      else
        (let trimmed = str_trim line in
         if trimmed = [] then copy_kept env from_json tf lines out deleted
         else
           (case parse_log_line_jsonl from_json trimmed of
              Some event \<Rightarrow>
                (if (case tf of None \<Rightarrow> True | Some f \<Rightarrow> time_matches f (ev_time event)) then
                   (if ce_write_ok env (length out)
                    then copy_kept env from_json tf lines (out @ line @ [NL]) deleted
                    else (Some TempWriteFailed, out, deleted))
                 else copy_kept env from_json tf lines out (deleted @ [event]))
            | None \<Rightarrow>
                (if ce_write_ok env (length out)
                 then copy_kept env from_json tf lines (out @ line @ [NL]) deleted
                 else (Some TempWriteFailed, out, deleted)))))"

definition trim_temp ::
  "clean_env \<Rightarrow> size_filter option \<Rightarrow> path \<Rightarrow> nat \<Rightarrow> files \<Rightarrow> (clean_error + nat \<times> nat) \<times> files" where
  "trim_temp env max_size tmp kept_bytes fl =
     (case max_size of
        None \<Rightarrow> (Inr (0, kept_bytes), fl)
      | Some f \<Rightarrow>
          if should_trim kept_bytes f then
            (if \<not> ce_scan_ok env then (Inl ScanFailed, fl)
             else
               (case fl tmp of
                  None \<Rightarrow> (Inl ScanFailed, fl)
                | Some content \<Rightarrow>
                    (let trim_start = find_tail_offset content (unat (sf_bytes f));
                         dropped = count_lines content trim_start in
                     case truncate_from_start env tmp trim_start fl of
                       (Inl e, fl') \<Rightarrow> (Inl e, fl')
                     | (Inr _, fl') \<Rightarrow> (Inr (dropped, kept_bytes - trim_start), fl'))))
          else (Inr (0, kept_bytes), fl))"

text \<open>The result is the number of deleted entries and of kept bytes.\<close>

definition clean_single_log ::
  "clean_env \<Rightarrow> (string \<Rightarrow> file_event option) \<Rightarrow> path \<Rightarrow> time_filter option \<Rightarrow>
     size_filter option \<Rightarrow> bool \<Rightarrow> files \<Rightarrow> (clean_error + nat \<times> nat) \<times> files" where
  "clean_single_log env from_json p tf max_size dry_run fl =
     (case fl p of
        None \<Rightarrow> (Inl NoSuchLog, fl)
      | Some s \<Rightarrow>
          if ce_symlink env p then (Inl IsSymlink, fl)
          else if \<not> ce_open_ok env then (Inl LogOpenFailed, fl)
          else if \<not> ce_create_ok env then (Inl TempCreateFailed, fl)
          else
            (let tmp = with_extension p ''tmp'' in
             case copy_kept env from_json tf (str_lines s) [] [] of
               (Some e, out, deleted) \<Rightarrow> (Inl e, fl(tmp \<mapsto> ce_flushed env out))
             | (None, out, deleted) \<Rightarrow>
                 (case trim_temp env max_size tmp (length out) (fl(tmp \<mapsto> ce_flushed env out)) of
                    (Inl e, fl2) \<Rightarrow> (Inl e, fl2)
                  | (Inr (size_deleted, kept_bytes), fl2) \<Rightarrow>
                      (let report = (length deleted + size_deleted, kept_bytes) in
                       if dry_run then (Inr report, fl2(tmp := None))
                       else
                         (let backup = with_extension p ''bak'';
                              fl3 = (case ce_copy env s of
                                       Some t \<Rightarrow> fl2(backup \<mapsto> t)
                                     | None \<Rightarrow> fl2)
                          in if ce_rename_ok env then
                               (Inr report, (fl3(p := fl3 tmp))(tmp := None, backup := None))
                             else
                               (Inl RenameFailed,
                                (if ce_restore_ok env \<and> fl3 backup \<noteq> None
                                 then fl3(p := fl3 backup, backup := None)
                                 else fl3)(tmp := None)))))))"

definition clean_logs ::
  "clean_env \<Rightarrow> (string \<Rightarrow> file_event option) \<Rightarrow> bool \<Rightarrow> path \<Rightarrow> string \<Rightarrow> time_filter option \<Rightarrow>
     size_filter option \<Rightarrow> bool \<Rightarrow> files \<Rightarrow> (clean_error + nat \<times> nat) \<times> files" where
  "clean_logs env from_json dir_exists log_dir cmd tf max_size dry_run fl =
     (if \<not> dir_exists then (Inr (0, 0), fl)
      else clean_single_log env from_json
             (path_join log_dir (path_of (cmd_to_log_name cmd))) tf max_size dry_run fl)"

section \<open>The tail offset\<close>

lemma find_tail_offset_small: "length s \<le> m \<Longrightarrow> find_tail_offset s m = 0"
  by (simp add: find_tail_offset_def)

lemma find_tail_offset_cases:
  assumes "m < length s"
  obtains (before) i where "find_tail_offset s m = Suc i" "i < length s - m" "s ! i = NL"
      "length s - m - 4096 \<le> i" "\<And>j. i < j \<Longrightarrow> j < length s - m \<Longrightarrow> s ! j \<noteq> NL"
  | (after) i where "find_tail_offset s m = Suc i" "length s - m \<le> i" "i < length s" "s ! i = NL"
      "\<And>j. length s - m - 4096 \<le> j \<Longrightarrow> j < length s - m \<Longrightarrow> s ! j \<noteq> NL"
  | (none) "find_tail_offset s m = length s"
      "\<And>j. length s - m - 4096 \<le> j \<Longrightarrow> j < length s - m \<Longrightarrow> s ! j \<noteq> NL"
proof -
  define t where "t = length s - m"
  define b where "b = t - 4096"
  define w where "w = take (t - b) (drop b s)"
  have tb: "t \<le> length s" "b \<le> t" by (simp_all add: t_def b_def)
  then have w: "length w = t - b" "\<And>k. k < t - b \<Longrightarrow> w ! k = s ! (b + k)" by (simp_all add: w_def)
  have d: "drop (t - b) (drop b s) = drop t s" using tb by simp
  have def: "find_tail_offset s m =
      (case rposition (\<lambda>b. b = NL) w of
         Some pos \<Rightarrow> b + pos + 1
       | None \<Rightarrow> (case position (\<lambda>b. b = NL) (drop t s) of
                    Some pos \<Rightarrow> t + pos + 1
                  | None \<Rightarrow> length s))"
    using assms unfolding find_tail_offset_def Let_def t_def [symmetric] b_def [symmetric] d w_def
    by simp
  have in_w: "w ! (j - b) = s ! j \<and> w ! (j - b) \<in> set w" if "b \<le> j" "j < t" for j
  proof -
    have "j - b < length w" using that w(1) by linarith
    then show ?thesis using w that nth_mem [of "j - b" w] by simp
  qed
  show thesis
  proof (cases "rposition (\<lambda>b. b = NL) w")
    case (Some pos)
    have p: "pos < t - b" "s ! (b + pos) = NL"
      using rposition_SomeD [OF Some] w by auto
    show thesis
    proof (rule before)
      show "find_tail_offset s m = Suc (b + pos)" using def Some by simp
      show "s ! j \<noteq> NL" if "b + pos < j" "j < length s - m" for j
        using rposition_greatest [OF Some, of "j - b"] in_w [of j] that w(1) by (simp flip: t_def)
    qed (use p in \<open>simp_all flip: t_def b_def\<close>)
  next
    case None
    have nn: "s ! j \<noteq> NL" if "length s - m - 4096 \<le> j" "j < length s - m" for j
      using in_w [of j] None that unfolding rposition_None_iff t_def [symmetric] b_def [symmetric]
      by metis
    show thesis
    proof (cases "position (\<lambda>b. b = NL) (drop t s)")
      case (Some pos)
      have "pos < length s - t" "s ! (t + pos) = NL" using position_SomeD [OF Some] tb by auto
      moreover have "find_tail_offset s m = Suc (t + pos)" using def None Some by simp
      ultimately show thesis using nn by (intro after) (simp_all flip: t_def)
    next
      case n: None
      have "find_tail_offset s m = length s" using def None n by simp
      then show thesis using nn by (rule none)
    qed
  qed
qed

lemma find_tail_offset_boundary:
  "find_tail_offset s m \<le> length s \<and>
     (find_tail_offset s m = 0 \<or> find_tail_offset s m = length s \<or> s ! (find_tail_offset s m - 1) = NL)"
proof (cases "m < length s")
  case False
  then show ?thesis by (simp add: find_tail_offset_small)
next
  case True
  then show ?thesis by (cases rule: find_tail_offset_cases) simp_all
qed

lemma unlines_last: "unlines ls = [] \<or> last (unlines ls) = NL"
  by (induction ls rule: rev_induct) simp_all

text \<open>An offset after a newline drops whole lines, and the number of newlines before it is theirs.\<close>

lemma unlines_boundary:
  assumes "\<And>l. l \<in> set ks \<Longrightarrow> NL \<notin> set l" and "k \<le> length (unlines ks)"
    and "k = 0 \<or> unlines ks ! (k - 1) = NL"
  shows "\<exists>n \<le> length ks. k = length (unlines (take n ks))"
  using assms
proof (induction ks arbitrary: k)
  case Nil
  then show ?case by simp
next
  case (Cons l ks)
  show ?case
  proof (cases "k = 0")
    case True
    then show ?thesis by (intro exI [of _ 0]) simp
  next
    case False
    have "length l < k"
    proof (rule ccontr)
      assume "\<not> length l < k"
      then have "k - 1 < length l" using False by linarith
      then have "(l @ NL # unlines ks) ! (k - 1) = l ! (k - 1)" "l ! (k - 1) \<in> set l"
        by (simp_all add: nth_append)
      then show False using Cons.prems(1) [of l] Cons.prems(3) False by simp
    qed
    let ?k = "k - Suc (length l)"
    have "?k \<le> length (unlines ks)" using Cons.prems(2) by simp
    moreover have "?k = 0 \<or> unlines ks ! (?k - 1) = NL"
      using Cons.prems(3) \<open>length l < k\<close> by (auto simp: nth_append nth_Cons' split: if_splits)
    ultimately obtain n where "n \<le> length ks" "?k = length (unlines (take n ks))"
      using Cons.IH [of ?k] Cons.prems(1) by auto
    then show ?thesis using \<open>length l < k\<close> by (intro exI [of _ "Suc n"]) simp
  qed
qed

lemma count_newlines: "(\<And>l. l \<in> set ks \<Longrightarrow> NL \<notin> set l) \<Longrightarrow>
    length (filter (\<lambda>b. b = NL) (unlines ks)) = length ks"
proof (induction ks)
  case (Cons l ks)
  then have "filter (\<lambda>b. b = NL) l = []" by (auto simp: filter_empty_conv)
  with Cons show ?case by simp
qed simp

lemma unlines_take_drop: "drop (length (unlines (take n ks))) (unlines ks) = unlines (drop n ks)"
proof -
  have "unlines ks = unlines (take n ks) @ unlines (drop n ks)"
    by (simp flip: unlines_simps(3))
  then show ?thesis by simp
qed

lemma tail_drops_lines:
  assumes "\<And>l. l \<in> set ks \<Longrightarrow> NL \<notin> set l"
  obtains n where "n \<le> length ks" "find_tail_offset (unlines ks) m = length (unlines (take n ks))"
    "drop (find_tail_offset (unlines ks) m) (unlines ks) = unlines (drop n ks)"
    "count_lines (unlines ks) (find_tail_offset (unlines ks) m) = n"
proof -
  let ?k = "find_tail_offset (unlines ks) m"
  have "unlines ks \<noteq> [] \<Longrightarrow> unlines ks ! (length (unlines ks) - 1) = NL"
    using unlines_last [of ks] last_conv_nth by metis
  then have "?k = 0 \<or> unlines ks ! (?k - 1) = NL"
    using find_tail_offset_boundary [of "unlines ks" m] by (cases "unlines ks = []") auto
  with unlines_boundary [OF assms] find_tail_offset_boundary [of "unlines ks" m]
  obtain n where n: "n \<le> length ks" "?k = length (unlines (take n ks))" by blast
  have "take ?k (unlines ks) = unlines (take n ks)"
    unfolding n(2) by (metis append_eq_conv_conj append_take_drop_id unlines_simps(3))
  then have "count_lines (unlines ks) ?k = n"
    unfolding count_lines_def using n(1) assms count_newlines [of "take n ks"]
    by (auto dest: in_set_takeD)
  then show thesis using that [OF n] unlines_take_drop [of n ks] n(2) by simp
qed

section \<open>The pass over the lines\<close>

definition keep_line :: "(string \<Rightarrow> file_event option) \<Rightarrow> time_filter option \<Rightarrow> string \<Rightarrow> bool" where
  "keep_line from_json tf line \<longleftrightarrow>
     (case (parse_log_line_jsonl from_json (str_trim line), tf) of
        (Some event, Some f) \<Rightarrow> time_matches f (ev_time event)
      | _ \<Rightarrow> True)"

definition not_blank :: "string \<Rightarrow> bool" where
  "not_blank line \<longleftrightarrow> str_trim line \<noteq> []"

lemma copy_kept_result:
  assumes "list_all utf8_ok lines" and "\<And>n. ce_write_ok env n"
  shows "\<exists>gone. copy_kept env from_json tf lines out deleted =
      (None, out @ unlines (filter (keep_line from_json tf) (filter not_blank lines)), deleted @ gone) \<and>
    length gone + length (filter (keep_line from_json tf) (filter not_blank lines)) =
      length (filter not_blank lines)"
  using assms
proof (induction lines arbitrary: out deleted)
  case Nil
  then show ?case by simp
next
  case (Cons line lines)
  have IH: "\<exists>gone. copy_kept env from_json tf lines out deleted =
      (None, out @ unlines (filter (keep_line from_json tf) (filter not_blank lines)), deleted @ gone) \<and>
    length gone + length (filter (keep_line from_json tf) (filter not_blank lines)) =
      length (filter not_blank lines)" for out deleted
    using Cons.IH Cons.prems by simp
  have ok: "utf8_ok line" using Cons.prems by simp
  show ?case
  proof (cases "not_blank line")
    case False
    then have "copy_kept env from_json tf (line # lines) out deleted =
        copy_kept env from_json tf lines out deleted"
      using ok by (simp add: not_blank_def Let_def)
    then show ?thesis using IH [of out deleted] False by simp
  next
    case nb: True
    show ?thesis
    proof (cases "keep_line from_json tf line")
      case True
      then have "copy_kept env from_json tf (line # lines) out deleted =
          copy_kept env from_json tf lines (out @ line @ [NL]) deleted"
        using nb ok assms(2) by (auto simp: not_blank_def keep_line_def Let_def split: option.splits)
      then show ?thesis using IH [of "out @ line @ [NL]" deleted] nb True by simp
    next
      case False
      then obtain e where "copy_kept env from_json tf (line # lines) out deleted =
          copy_kept env from_json tf lines out (deleted @ [e])"
        using nb ok by (auto simp: not_blank_def keep_line_def Let_def split: option.splits)
      then show ?thesis using IH [of out "deleted @ [e]"] nb False by force
    qed
  qed
qed

section \<open>The file names\<close>

lemma split_on_single: "d \<notin> set s \<Longrightarrow> split_on d s = [s]"
  by (induction s) auto

lemma log_name_component:
  "path_of (cmd_to_log_name cmd) = [Normal (cmd_to_log_name cmd)]"
proof -
  let ?n = "cmd_to_log_name cmd"
  have ne: "?n \<noteq> []" and l: "last ?n = CHR ''l''" by (simp_all add: cmd_to_log_name_def)
  have "CHR ''/'' \<notin> set ?n" by (rule cmd_to_log_name_no_slash)
  then have "split_on CHR ''/'' ?n = [?n]" "hd ?n \<noteq> CHR ''/''"
    using split_on_single hd_in_set [OF ne] by auto
  moreover have "?n \<noteq> ''.''" "?n \<noteq> ''..''" using l by auto
  ultimately show ?thesis using ne by (simp add: path_of_def component_of_def Let_def)
qed

lemma log_path: "path_join dir (path_of (cmd_to_log_name cmd)) = dir @ [Normal (cmd_to_log_name cmd)]"
  by (simp add: log_name_component path_join_def is_absolute_def)

lemma with_extension_Normal:
  "with_extension (dir @ [Normal s]) (c # e) = dir @ [Normal (file_stem s @ CHR ''.'' # c # e)]"
  by (simp add: with_extension_def file_name_def)

definition clean_names_ok :: "path \<Rightarrow> bool" where
  "clean_names_ok p \<longleftrightarrow>
     with_extension p ''tmp'' \<noteq> p \<and> with_extension p ''bak'' \<noteq> p \<and>
     with_extension p ''tmp'' \<noteq> with_extension p ''bak''"

lemma log_path_names_ok: "clean_names_ok (dir @ [Normal (cmd_to_log_name cmd)])"
proof -
  have l: "last (cmd_to_log_name cmd) = CHR ''l''" by (simp add: cmd_to_log_name_def)
  have "s @ ''.tmp'' \<noteq> cmd_to_log_name cmd" "s @ ''.bak'' \<noteq> cmd_to_log_name cmd" for s :: string
  proof -
    have "last (s @ ''.tmp'') = CHR ''p''" "last (s @ ''.bak'') = CHR ''k''" by simp_all
    then show "s @ ''.tmp'' \<noteq> cmd_to_log_name cmd" "s @ ''.bak'' \<noteq> cmd_to_log_name cmd"
      unfolding atomize_conj using l by (auto simp del: last_appendR)
  qed
  then show ?thesis by (simp add: clean_names_ok_def with_extension_Normal)
qed

section \<open>The handler\<close>

text \<open>Every system call succeeds and the writer's last write reaches the file.\<close>

definition clean_env_ok :: "clean_env \<Rightarrow> bool" where
  "clean_env_ok env \<longleftrightarrow>
     ce_open_ok env \<and> ce_create_ok env \<and> (\<forall>n. ce_write_ok env n) \<and> (\<forall>s. ce_flushed env s = s) \<and>
     ce_scan_ok env \<and> ce_trim_ok env \<and> ce_trim_rename_ok env \<and> ce_rename_ok env \<and>
     (\<forall>p. \<not> ce_symlink env p)"

lemma truncate_other:
  "truncate_from_start env p k fl = (r, fl') \<Longrightarrow> q \<noteq> p \<Longrightarrow> fl' q = fl q"
  by (auto simp: truncate_from_start_def split: if_splits option.splits)

lemma truncate_ok:
  assumes "clean_env_ok env" and "(fl :: files) p = Some s"
  shows "\<exists>fl'. truncate_from_start env p k fl = (Inr (), fl') \<and> fl' p = Some (drop k s)"
  using assms by (auto simp: truncate_from_start_def clean_env_ok_def)

lemma trim_temp_other:
  "trim_temp env max_size tmp k fl = (r, fl') \<Longrightarrow> q \<noteq> tmp \<Longrightarrow> fl' q = fl q"
  by (auto simp: trim_temp_def Let_def truncate_other
      split: if_splits option.splits prod.splits sum.splits)

lemma trim_temp_lines:
  assumes env: "clean_env_ok env" and nl: "\<And>l. l \<in> set ks \<Longrightarrow> NL \<notin> set l"
    and tmp: "fl tmp = Some (unlines ks)"
  shows "\<exists>n fl'. n \<le> length ks \<and>
    trim_temp env max_size tmp (length (unlines ks)) fl =
      (Inr (n, length (unlines (drop n ks))), fl') \<and>
    fl' tmp = Some (unlines (drop n ks)) \<and>
    (case max_size of
       Some f \<Rightarrow> unlines (drop n ks) =
         (if should_trim (length (unlines ks)) f
          then drop (find_tail_offset (unlines ks) (unat (sf_bytes f))) (unlines ks)
          else unlines ks)
     | None \<Rightarrow> n = 0)"
proof (cases max_size)
  case None
  then show ?thesis using tmp by (intro exI [of _ 0]) (simp add: trim_temp_def)
next
  case (Some f)
  show ?thesis
  proof (cases "should_trim (length (unlines ks)) f")
    case False
    then show ?thesis using tmp Some by (intro exI [of _ 0]) (simp add: trim_temp_def)
  next
    case True
    let ?k = "find_tail_offset (unlines ks) (unat (sf_bytes f))"
    obtain n where n: "n \<le> length ks" "?k = length (unlines (take n ks))"
        "drop ?k (unlines ks) = unlines (drop n ks)" "count_lines (unlines ks) ?k = n"
      by (rule tail_drops_lines [OF nl, of ks "unat (sf_bytes f)"])
    obtain fl' where fl': "truncate_from_start env tmp ?k fl = (Inr (), fl')"
        "fl' tmp = Some (unlines (drop n ks))"
      using truncate_ok [of env fl tmp "unlines ks" ?k] env tmp n(3) by auto
    have "length (unlines ks) - ?k = length (unlines (drop n ks))" using n(3) by (metis length_drop)
    moreover have "trim_temp env max_size tmp (length (unlines ks)) fl =
        (Inr (n, length (unlines ks) - ?k), fl')"
      using env True Some tmp fl'(1) n(4)
      by (simp add: trim_temp_def clean_env_ok_def Let_def)
    ultimately show ?thesis
      using n(1,3) fl' True Some by (intro exI [of _ n] exI [of _ fl']) simp
  qed
qed

lemma clean_single_other:
  assumes "clean_names_ok p" and "clean_single_log env from_json p tf max_size dry fl = (r, fl')"
    and "q \<noteq> p" and "q \<noteq> with_extension p ''tmp''" and "q \<noteq> with_extension p ''bak''"
  shows "fl' q = fl q"
  using assms
  by (auto simp: clean_single_log_def Let_def trim_temp_other
      split: option.splits if_splits prod.splits sum.splits)

lemma clean_single_preserves:
  assumes "clean_names_ok p" and "clean_single_log env from_json p tf max_size dry fl = (r, fl')"
    and "dry \<or> (\<exists>e. r = Inl e)" and "\<And>s. fl p = Some s \<Longrightarrow> ce_copy env s = Some s"
  shows "fl' p = fl p"
proof (cases "fl p")
  case None
  then show ?thesis using assms(2) by (auto simp: clean_single_log_def)
next
  case (Some s)
  let ?tmp = "with_extension p ''tmp''"
  have ne: "?tmp \<noteq> p" "with_extension p ''bak'' \<noteq> p" "?tmp \<noteq> with_extension p ''bak''"
    using assms(1) by (simp_all add: clean_names_ok_def)
  have keep: "fl2 p = Some s" if "trim_temp env max_size ?tmp k (fl(?tmp \<mapsto> t)) = (x, fl2)" for k t x fl2
    using trim_temp_other [OF that, of p] ne Some by simp
  have copy: "ce_copy env s = Some s" by (rule assms(4) [OF Some])
  show ?thesis
    using assms(2,3) ne keep unfolding clean_single_log_def Some option.case copy Let_def
    using Some by (auto split: if_splits prod.splits sum.splits option.splits)
qed

section \<open>Properties\<close>

text \<open>
  The tail offset is in the file, at its start, its end or right after a newline. From the
  offset on there are at most 4096 bytes more than asked for; no line end lies between the
  offset and the wanted position, so one line more could not be dropped; and if a line ends in
  the 4096 bytes before the wanted position, at least the asked number of bytes is kept.
\<close>

theorem tail_offset_bounds:
  "find_tail_offset s m \<le> length s \<and>
   (find_tail_offset s m = 0 \<or> find_tail_offset s m = length s \<or> s ! (find_tail_offset s m - 1) = NL) \<and>
   length s - find_tail_offset s m \<le> m + 4096 \<and>
   (\<forall>j. find_tail_offset s m \<le> j \<longrightarrow> j < length s - m \<longrightarrow> s ! j \<noteq> NL) \<and>
   (\<forall>j. length s - m - 4096 \<le> j \<longrightarrow> j < length s - m \<longrightarrow> s ! j = NL \<longrightarrow>
        m \<le> length s - find_tail_offset s m)"
proof (cases "m < length s")
  case False
  then show ?thesis by (simp add: find_tail_offset_small)
next
  case True
  then show ?thesis
  proof (cases rule: find_tail_offset_cases)
    case (before i)
    then show ?thesis by (auto simp: Suc_le_eq)
  next
    case (after i)
    then show ?thesis by auto
  next
    case none
    then show ?thesis by auto
  qed
qed

theorem tail_offset_bounds_witness: "10 - find_tail_offset (''ab'' @ [CHR 0x0A] @ ''cd'' @ [CHR 0x0A] @ ''ef'' @ [CHR 0x0A] @ ''g'') 5 \<le> (5 + 4096 :: nat)"
proof -
  have "length (''ab'' @ [CHR 0x0A] @ ''cd'' @ [CHR 0x0A] @ ''ef'' @ [CHR 0x0A] @ ''g'') = 10" by simp
  with tail_offset_bounds [of "(''ab'' @ [CHR 0x0A] @ ''cd'' @ [CHR 0x0A] @ ''ef'' @ [CHR 0x0A] @ ''g'')" 5] show ?thesis by simp
qed

text \<open>
  C36: When every system call succeeds, cleaning replaces the log by the lines that are not
  blank and whose event, if it is one, passes the time filter, less the first of them that the
  size limit drops; the reported number of deleted entries is the number of lines lost, the
  reported size that of the new log; the temporary and backup files are gone and no other file
  changes.
\<close>

theorem clean_logs_result:
  assumes "clean_env_ok env" and "list_all utf8_ok (str_lines s)"
    and "p = dir @ [Normal (cmd_to_log_name cmd)]" and "fl p = Some s"
    and "kept = filter (keep_line from_json tf) (filter not_blank (str_lines s))"
  shows "\<exists>n fl'. n \<le> length kept \<and>
    clean_logs env from_json True dir cmd tf max_size False fl =
      (Inr (length (filter not_blank (str_lines s)) - length (drop n kept),
            length (unlines (drop n kept))), fl') \<and>
    fl' p = Some (unlines (drop n kept)) \<and>
    (case max_size of
       Some f \<Rightarrow> unlines (drop n kept) =
         (if should_trim (length (unlines kept)) f
          then drop (find_tail_offset (unlines kept) (unat (sf_bytes f))) (unlines kept)
          else unlines kept)
     | None \<Rightarrow> n = 0) \<and>
    fl' (with_extension p ''tmp'') = None \<and> fl' (with_extension p ''bak'') = None \<and>
    (\<forall>q. q \<noteq> p \<longrightarrow> q \<noteq> with_extension p ''tmp'' \<longrightarrow> q \<noteq> with_extension p ''bak'' \<longrightarrow> fl' q = fl q)"
proof -
  let ?tmp = "with_extension p ''tmp''" and ?bak = "with_extension p ''bak''"
  have names: "clean_names_ok p" unfolding assms(3) by (rule log_path_names_ok)
  then have ne: "?tmp \<noteq> p" "?bak \<noteq> p" "?tmp \<noteq> ?bak" by (simp_all add: clean_names_ok_def)
  have nl: "NL \<notin> set l" if "l \<in> set kept" for l
    using that str_lines_no_NL [of l s] unfolding assms(5) by simp
  obtain gone where copy: "copy_kept env from_json tf (str_lines s) [] [] = (None, unlines kept, gone)"
    and gone: "length gone + length kept = length (filter not_blank (str_lines s))"
    using copy_kept_result [OF assms(2), of env from_json tf "[]" "[]"] assms(1)
    unfolding assms(5) clean_env_ok_def by auto
  let ?fl = "fl(?tmp \<mapsto> unlines kept)"
  obtain n fl2 where n: "n \<le> length kept"
    and trim: "trim_temp env max_size ?tmp (length (unlines kept)) ?fl =
      (Inr (n, length (unlines (drop n kept))), fl2)"
    and tmp: "fl2 ?tmp = Some (unlines (drop n kept))"
    and size: "case max_size of
       Some f \<Rightarrow> unlines (drop n kept) =
         (if should_trim (length (unlines kept)) f
          then drop (find_tail_offset (unlines kept) (unat (sf_bytes f))) (unlines kept)
          else unlines kept)
     | None \<Rightarrow> n = 0"
    using trim_temp_lines [OF assms(1) nl, of kept ?fl ?tmp max_size] by auto
  have total: "length gone + n = length (filter not_blank (str_lines s)) - length (drop n kept)"
    using gone n by simp
  let ?res = "clean_logs env from_json True dir cmd tf max_size False fl"
  obtain fl' where run: "?res = (Inr (length gone + n, length (unlines (drop n kept))), fl')"
    and here: "fl' p = fl2 ?tmp" and gone_tmp: "fl' ?tmp = None" "fl' ?bak = None"
    using assms(1,4) copy trim ne
    by (cases "ce_copy env s")
      (auto simp: clean_logs_def clean_single_log_def clean_env_ok_def log_path Let_def
        simp flip: assms(3))
  have "clean_single_log env from_json p tf max_size False fl = ?res"
    by (simp add: clean_logs_def log_path flip: assms(3))
  then have other: "\<forall>q. q \<noteq> p \<longrightarrow> q \<noteq> ?tmp \<longrightarrow> q \<noteq> ?bak \<longrightarrow> fl' q = fl q"
    using clean_single_other [OF names] run by metis
  show ?thesis
    by (intro exI [of _ n] exI [of _ fl'] conjI)
      (rule n run [unfolded total] trans [OF here tmp] size gone_tmp other)+
qed

theorem clean_logs_result_witness:
  "\<exists>fl'. clean_logs
     \<lparr>ce_symlink = (\<lambda>_. False), ce_open_ok = True, ce_create_ok = True, ce_write_ok = (\<lambda>_. True),
      ce_flushed = (\<lambda>s. s), ce_scan_ok = True, ce_trim_ok = True, ce_trim_rename_ok = True,
      ce_copy = Some, ce_rename_ok = True, ce_restore_ok = True\<rparr>
     sample_from_json True [RootDir] ''x'' (Some \<lparr>tf_op = TGt, tf_time = 2\<rparr>) None False
     [[RootDir, Normal ''x_log.jsonl''] \<mapsto> (''{a}'' @ [CHR 0x0A] @ '' '' @ [CHR 0x0A] @ ''{b}'' @ [CHR 0x0A])] = (Inr (1, 4), fl') \<and>
   fl' [RootDir, Normal ''x_log.jsonl''] = Some (''{b}'' @ [CHR 0x0A])"
proof -
  let ?env = "\<lparr>ce_symlink = (\<lambda>_. False), ce_open_ok = True, ce_create_ok = True,
      ce_write_ok = (\<lambda>_. True), ce_flushed = (\<lambda>s. s), ce_scan_ok = True, ce_trim_ok = True,
      ce_trim_rename_ok = True, ce_copy = Some, ce_rename_ok = True, ce_restore_ok = True\<rparr>"
  let ?log = "(''{a}'' @ [CHR 0x0A] @ '' '' @ [CHR 0x0A] @ ''{b}'' @ [CHR 0x0A])" and ?tf = "Some \<lparr>tf_op = TGt, tf_time = 2\<rparr>"
  have env: "clean_env_ok ?env" by (simp add: clean_env_ok_def)
  have u: "list_all utf8_ok (str_lines ?log)" by code_simp
  have p: "[RootDir, Normal ''x_log.jsonl''] = [RootDir] @ [Normal (cmd_to_log_name ''x'')]"
    by code_simp
  have k: "[''{b}''] = filter (keep_line sample_from_json ?tf) (filter not_blank (str_lines ?log))"
    by code_simp
  have c: "length (filter not_blank (str_lines ?log)) = 2" by code_simp
  show ?thesis
    using clean_logs_result [OF env u p _ k, of "[[RootDir, Normal ''x_log.jsonl''] \<mapsto> ?log]" None]
    unfolding c by (auto simp: unlines_def)
qed

text \<open>
  C38: A dry run, and a cleaning that fails at any system call, leave the log with its old
  content and touch no file but the temporary and the backup, provided the backup copy was
  complete.
\<close>

theorem clean_logs_failure_keeps_log:
  assumes "clean_logs env from_json dir_exists dir cmd tf max_size dry fl = (r, fl')"
    and "p = dir @ [Normal (cmd_to_log_name cmd)]"
    and "\<forall>s. fl p = Some s \<longrightarrow> ce_copy env s = Some s"
    and "dry \<or> (\<exists>e. r = Inl e)"
  shows "fl' p = fl p \<and>
    (\<forall>q. q \<noteq> with_extension p ''tmp'' \<longrightarrow> q \<noteq> with_extension p ''bak'' \<longrightarrow> fl' q = fl q)"
proof (cases dir_exists)
  case False
  then show ?thesis using assms(1) by (simp add: clean_logs_def)
next
  case True
  then have run: "clean_single_log env from_json p tf max_size dry fl = (r, fl')"
    using assms(1) by (simp add: clean_logs_def log_path assms(2))
  have names: "clean_names_ok p" unfolding assms(2) by (rule log_path_names_ok)
  have "fl' p = fl p" by (rule clean_single_preserves [OF names run assms(4)]) (use assms(3) in auto)
  then show ?thesis using clean_single_other [OF names run] by metis
qed

theorem clean_logs_failure_keeps_log_witness:
  "\<exists>fl'. clean_logs
     \<lparr>ce_symlink = (\<lambda>_. False), ce_open_ok = True, ce_create_ok = True, ce_write_ok = (\<lambda>_. True),
      ce_flushed = (\<lambda>s. s), ce_scan_ok = True, ce_trim_ok = True, ce_trim_rename_ok = True,
      ce_copy = Some, ce_rename_ok = False, ce_restore_ok = False\<rparr>
     sample_from_json True [RootDir] ''x'' None None False
     [[RootDir, Normal ''x_log.jsonl''] \<mapsto> (''{a}'' @ [CHR 0x0A] @ '' '')] = (Inl RenameFailed, fl') \<and>
   fl' [RootDir, Normal ''x_log.jsonl''] = Some (''{a}'' @ [CHR 0x0A] @ '' '')"
proof -
  let ?env = "\<lparr>ce_symlink = (\<lambda>_. False), ce_open_ok = True, ce_create_ok = True,
      ce_write_ok = (\<lambda>_. True), ce_flushed = (\<lambda>s. s), ce_scan_ok = True, ce_trim_ok = True,
      ce_trim_rename_ok = True, ce_copy = Some, ce_rename_ok = False, ce_restore_ok = False\<rparr>"
  let ?log = "(''{a}'' @ [CHR 0x0A] @ '' '')" and ?p = "[RootDir, Normal ''x_log.jsonl'']"
  let ?res = "clean_logs ?env sample_from_json True [RootDir] ''x'' None None False [?p \<mapsto> ?log]"
  have p: "?p = [RootDir] @ [Normal (cmd_to_log_name ''x'')]" by code_simp
  have "copy_kept ?env sample_from_json None (str_lines ?log) [] [] = (None, (''{a}'' @ [CHR 0x0A]), [])"
    by code_simp
  then have err: "fst ?res = Inl RenameFailed"
    unfolding clean_logs_def clean_single_log_def log_path p [symmetric] trim_temp_def by simp
  have run: "?res = (fst ?res, snd ?res)" by simp
  from clean_logs_failure_keeps_log [OF run p] err have "snd ?res ?p = Some ?log" by simp
  then show ?thesis using err run by metis
qed

text \<open>
  A backup copy that was cut short is still put back when the rename fails: the log then
  holds what the copy managed to write.
\<close>

theorem clean_partial_backup_loses_log:
  assumes "clean_env_ok (env\<lparr>ce_rename_ok := True\<rparr>)" and "\<not> ce_rename_ok env" and "ce_restore_ok env"
    and "ce_copy env s = Some part" and "list_all utf8_ok (str_lines s)"
    and "p = dir @ [Normal (cmd_to_log_name cmd)]" and "fl p = Some s"
  shows "\<exists>fl'. clean_logs env from_json True dir cmd tf None False fl = (Inl RenameFailed, fl') \<and>
    fl' p = Some part"
proof -
  have "clean_names_ok p" unfolding assms(6) by (rule log_path_names_ok)
  then have names: "with_extension p ''tmp'' \<noteq> p" "p \<noteq> with_extension p ''tmp''"
    "with_extension p ''bak'' \<noteq> p" "p \<noteq> with_extension p ''bak''"
    "with_extension p ''tmp'' \<noteq> with_extension p ''bak''"
    by (auto simp: clean_names_ok_def)
  have w: "\<And>n. ce_write_ok env n" using assms(1) by (simp add: clean_env_ok_def)
  obtain kept gone where "copy_kept env from_json tf (str_lines s) [] [] = (None, kept, gone)"
    using copy_kept_result [OF assms(5), of env from_json tf "[]" "[]", OF w] by blast
  then show ?thesis
    using assms names
    by (simp add: clean_logs_def clean_single_log_def clean_env_ok_def log_path trim_temp_def
        flip: assms(6))
qed

theorem clean_partial_backup_loses_log_witness:
  "\<exists>fl'. clean_logs
     \<lparr>ce_symlink = (\<lambda>_. False), ce_open_ok = True, ce_create_ok = True, ce_write_ok = (\<lambda>_. True),
      ce_flushed = (\<lambda>s. s), ce_scan_ok = True, ce_trim_ok = True, ce_trim_rename_ok = True,
      ce_copy = (\<lambda>_. Some []), ce_rename_ok = False, ce_restore_ok = True\<rparr>
     sample_from_json True [RootDir] ''x'' None None False
     [[RootDir, Normal ''x_log.jsonl''] \<mapsto> (''{a}'' @ [CHR 0x0A])] = (Inl RenameFailed, fl') \<and>
   fl' [RootDir, Normal ''x_log.jsonl''] = Some []"
proof -
  let ?env = "\<lparr>ce_symlink = (\<lambda>_. False), ce_open_ok = True, ce_create_ok = True,
      ce_write_ok = (\<lambda>_. True), ce_flushed = (\<lambda>s. s), ce_scan_ok = True, ce_trim_ok = True,
      ce_trim_rename_ok = True, ce_copy = (\<lambda>_. Some []), ce_rename_ok = False, ce_restore_ok = True\<rparr>"
  have p: "[RootDir, Normal ''x_log.jsonl''] = [RootDir] @ [Normal (cmd_to_log_name ''x'')]"
    by code_simp
  have u: "list_all utf8_ok (str_lines (''{a}'' @ [CHR 0x0A]))" by code_simp
  show ?thesis
    by (rule clean_partial_backup_loses_log [OF _ _ _ _ u p])
      (simp_all add: clean_env_ok_def)
qed

end
