(* ===== verification/Cli.thy ===== *)
theory Cli
  imports Config Socket_Cmd Log_Clean
begin

text \<open>
  The commands of \<^verbatim>\<open>src/bin/fsmon/commands/\<close> that edit and show the store, and the start of the
  daemon: \<^verbatim>\<open>add.rs\<close>, \<^verbatim>\<open>remove.rs\<close>, \<^verbatim>\<open>monitored.rs\<close>, \<^verbatim>\<open>query.rs\<close>, \<^verbatim>\<open>changes.rs\<close>, \<^verbatim>\<open>clean.rs\<close> and
  \<^verbatim>\<open>daemon.rs\<close>. A command works on the file table; what it sends to the daemon is recorded, what
  the daemon answers is a parameter. Notes printed for the user are not modelled.
\<close>

section \<open>What a command sees\<close>

record cli_env =
  cl_identity :: identity_env
  cl_from_toml :: "string \<Rightarrow> string + config"
  cl_config_file :: "string option option"
  cl_fs :: fs_view
  cl_clean :: "path \<Rightarrow> path"
  cl_cwd :: "path option"
  cl_mkdir_ok :: bool
  cl_readable :: bool
  cl_from_json :: "string \<Rightarrow> cmd_group option"
  cl_to_json :: "cmd_group \<Rightarrow> string option"
  cl_save :: "nat \<Rightarrow> save_env"
  cl_send :: "socket_cmd \<Rightarrow> reply"
  cl_overflow_checks :: bool

datatype cli_error =
    BadConfig config_error
  | NoMonitoredDir
  | CmdRequired
  | PathRequired
  | MonitorsItself
  | NullByte
  | PathBlocked string
  | LogDirInside
  | BadStore load_error
  | BadType parse_event_type_error
  | SaveFailed save_error
  | GroupNotFound string
  | EntryNotFound path
  | NothingRemoved
  | BadPathEntry entry_error
  | BadTimeFilter string
  | BadSizeFilter string

definition cli_config :: "cli_env \<Rightarrow> config_error + config" where
  "cli_config env =
     (case load_config (cl_from_toml env) (cl_config_file env) of
        Inl e \<Rightarrow> Inl e
      | Inr cfg \<Rightarrow> Inr (resolve_paths (guess_home (cl_identity env)) cfg))"

definition read_store :: "cli_env \<Rightarrow> path \<Rightarrow> files \<Rightarrow> load_error + monitored" where
  "read_store env sp fl =
     load_store (cl_from_json env)
       (case fl sp of None \<Rightarrow> None | Some t \<Rightarrow> Some (if cl_readable env then Some t else None))"

definition resolve_path_arg :: "cli_env \<Rightarrow> path \<Rightarrow> path" where
  "resolve_path_arg env raw =
     (let home = (case fs_home (cl_fs env) of Some h \<Rightarrow> h | None \<Rightarrow> ''/root'');
          cleaned = cl_clean env (path_of (expand_tilde (path_str raw) home))
      in case fs_canonicalize (cl_fs env) cleaned of
           Some c \<Rightarrow> c
         | None \<Rightarrow>
             if \<not> is_absolute cleaned
             then (case cl_cwd env of Some cwd \<Rightarrow> path_join cwd cleaned | None \<Rightarrow> cleaned)
             else cleaned)"

section \<open>Adding\<close>

record add_args =
  aa_cmd :: "string option"
  aa_path :: "path option"
  aa_recursive :: bool
  aa_types :: "string list"
  aa_size :: "string option"
  aa_max_depth :: "u32 option"

definition log_dir_inside :: "fs_view \<Rightarrow> path option \<Rightarrow> bool \<Rightarrow> path \<Rightarrow> bool" where
  "log_dir_inside fs log_path recursive resolved =
     (case log_path of
        None \<Rightarrow> False
      | Some d \<Rightarrow>
          (let c = canonicalize_or fs d in recursive \<and> starts_with c resolved \<or> c = resolved))"

definition check_add_path :: "cli_env \<Rightarrow> path option \<Rightarrow> bool \<Rightarrow> path \<Rightarrow> cli_error + path" where
  "check_add_path env log_path recursive raw =
     (if CHR 0x00 \<in> set (path_str raw) then Inl NullByte
      else
        (case check_path_allowed raw [] of
           Inl e \<Rightarrow> Inl (PathBlocked e)
         | Inr _ \<Rightarrow>
             (let resolved = resolve_path_arg env raw in
              case check_path_allowed resolved [] of
                Inl e \<Rightarrow> Inl (PathBlocked e)
              | Inr _ \<Rightarrow>
                  if log_dir_inside (cl_fs env) log_path recursive resolved then Inl LogDirInside
                  else Inr resolved)))"

definition type_names :: "string list \<Rightarrow> cli_error + string list option" where
  "type_names ts =
     (if ts = [] then Inr None
      else if list_ex (\<lambda>s. map ascii_upper s = ''ALL'') ts then Inr (Some (map show_event_type ALL_types))
      else (case parse_types ts of Inl e \<Rightarrow> Inl (BadType e) | Inr _ \<Rightarrow> Inr (Some ts)))"

datatype add_report = Added | AddedOddReply socket_response | Rejected string

text \<open>Everything before the store is written: its path, its content and the new entry.\<close>

definition prepare_add :: "cli_env \<Rightarrow> add_args \<Rightarrow> files \<Rightarrow> cli_error + path \<times> monitored \<times> path_entry" where
  "prepare_add env args fl =
     (case cli_config env of
        Inl e \<Rightarrow> Inl (BadConfig e)
      | Inr cfg \<Rightarrow>
          if \<not> cl_mkdir_ok env then Inl NoMonitoredDir
          else
            (case (aa_cmd args, aa_path args) of
               (None, _) \<Rightarrow> Inl CmdRequired
             | (Some _, None) \<Rightarrow> Inl PathRequired
             | (Some name, Some raw) \<Rightarrow>
                 if name = ''fsmon'' then Inl MonitorsItself
                 else
                   (case check_add_path env (lc_path (cf_logging cfg)) (aa_recursive args) raw of
                      Inl e \<Rightarrow> Inl e
                    | Inr p \<Rightarrow>
                        (case read_store env (cf_monitored_path cfg) fl of
                           Inl e \<Rightarrow> Inl (BadStore e)
                         | Inr store \<Rightarrow>
                             (case type_names (aa_types args) of
                                Inl e \<Rightarrow> Inl e
                              | Inr types \<Rightarrow>
                                  Inr (cf_monitored_path cfg, store,
                                    \<lparr>pe_cmd = Some name, pe_path = p, pe_recursive = Some (aa_recursive args),
                                     pe_types = types, pe_size = aa_size args,
                                     pe_max_depth = aa_max_depth args,
                                     pe_symlink_target = detect_symlink_target (cl_fs env) p\<rparr>))))))"

definition add_request :: "path_entry \<Rightarrow> socket_cmd" where
  "add_request e =
     Add (pe_path e) (pe_recursive e) (pe_types e) (pe_size e) (pe_cmd e) (pe_max_depth e)"

text \<open>The daemon has refused for good: the store is read again and the entry taken out.\<close>

definition undo_add :: "cli_env \<Rightarrow> path \<Rightarrow> path_entry \<Rightarrow> string \<Rightarrow> files \<Rightarrow> (cli_error + add_report) \<times> files" where
  "undo_add env sp e msg fl =
     (case read_store env sp fl of
        Inl err \<Rightarrow> (Inl (BadStore err), fl)
      | Inr store \<Rightarrow>
          (case save_store (cl_to_json env) (cl_save env 1) sp
                  (snd (remove_entry (pe_path e) (pe_cmd e) store)) fl of
             (Inl err, fl1) \<Rightarrow> (Inl (SaveFailed err), fl1)
           | (Inr _, fl1) \<Rightarrow> (Inr (Rejected msg), fl1)))"

text \<open>The result, the file table and what has been sent.\<close>

definition cmd_add ::
  "cli_env \<Rightarrow> add_args \<Rightarrow> files \<Rightarrow> (cli_error + add_report) \<times> files \<times> socket_cmd list" where
  "cmd_add env args fl =
     (case prepare_add env args fl of
        Inl e \<Rightarrow> (Inl e, fl, [])
      | Inr (sp, store, entry) \<Rightarrow>
          (case save_store (cl_to_json env) (cl_save env 0) sp (add_entry entry store) fl of
             (Inl e, fl1) \<Rightarrow> (Inl (SaveFailed e), fl1, [])
           | (Inr _, fl1) \<Rightarrow>
               (case cl_send env (add_request entry) of
                  Inr RespOk \<Rightarrow> (Inr Added, fl1, [add_request entry])
                | Inr resp \<Rightarrow> (Inr (AddedOddReply resp), fl1, [add_request entry])
                | Inl (Transient _) \<Rightarrow> (Inr Added, fl1, [add_request entry])
                | Inl (Permanent msg) \<Rightarrow>
                    (let (r, fl2) = undo_add env sp entry msg fl1 in (r, fl2, [add_request entry])))))"

section \<open>Removing\<close>

definition edit_remove :: "path list \<Rightarrow> string \<Rightarrow> monitored \<Rightarrow> cli_error + monitored" where
  "edit_remove paths cmd store =
     (if paths = [] then
        (let (found, store1) = remove_cmd_group (Some cmd) store in
         if \<not> found then Inl (GroupNotFound cmd) else Inr store1)
      else
        (case find (\<lambda>p. \<not> has_entry store p (Some cmd)) paths of
           Some p \<Rightarrow> Inl (EntryNotFound p)
         | None \<Rightarrow>
             (let (removed_any, store1) =
                fold (\<lambda>p (any, st). let (r, st1) = remove_entry p (Some cmd) st in (any \<or> r, st1))
                  paths (False, store)
              in if \<not> removed_any then Inl NothingRemoved else Inr store1)))"

text \<open>The live updates stop at the first one that fails.\<close>

fun send_removes :: "(socket_cmd \<Rightarrow> reply) \<Rightarrow> string \<Rightarrow> path list \<Rightarrow> socket_cmd list" where
  "send_removes send cmd [] = []"
| "send_removes send cmd (p # ps) =
     Remove p (Some cmd) #
       (case send (Remove p (Some cmd)) of Inl _ \<Rightarrow> [] | Inr _ \<Rightarrow> send_removes send cmd ps)"

definition cmd_remove ::
  "cli_env \<Rightarrow> string option \<Rightarrow> path list \<Rightarrow> files \<Rightarrow> (cli_error + unit) \<times> files \<times> socket_cmd list" where
  "cmd_remove env cmd raws fl =
     (case cli_config env of
        Inl e \<Rightarrow> (Inl (BadConfig e), fl, [])
      | Inr cfg \<Rightarrow>
          (let paths = map (resolve_path_arg env) raws; sp = cf_monitored_path cfg in
           case read_store env sp fl of
             Inl e \<Rightarrow> (Inl (BadStore e), fl, [])
           | Inr store \<Rightarrow>
               (case cmd of
                  None \<Rightarrow> (Inl CmdRequired, fl, [])
                | Some name \<Rightarrow>
                    (case edit_remove paths name store of
                       Inl e \<Rightarrow> (Inl e, fl, [])
                     | Inr store1 \<Rightarrow>
                         (case save_store (cl_to_json env) (cl_save env 0) sp store1 fl of
                            (Inl e, fl1) \<Rightarrow> (Inl (SaveFailed e), fl1, [])
                          | (Inr _, fl1) \<Rightarrow> (Inr (), fl1, send_removes (cl_send env) name paths))))))"

section \<open>Listing\<close>

fun join_text :: "string \<Rightarrow> string list \<Rightarrow> string" where
  "join_text sep [] = []"
| "join_text sep [s] = s"
| "join_text sep (s # t # ss) = s @ sep @ join_text sep (t # ss)"

text \<open>The text of the types; \<open>None\<close> is a slice past the end of the list, which panics.\<close>

definition types_text :: "string list \<Rightarrow> string option" where
  "types_text ts =
     (if ts = [] then Some ''no types''
      else if length ts \<le> 3 then Some (''types: '' @ join_text '', '' ts)
      else if length ts < 5 then None
      else Some (''types: '' @ join_text '', '' (take 5 ts) @ ''... ('' @ nat_string (length ts) @ '' total)''))"

definition path_line :: "path \<times> path_params \<Rightarrow> string option" where
  "path_line x =
     (let (p, v) = x;
          recursive = (case pp_recursive v of None \<Rightarrow> []
                       | Some r \<Rightarrow> [if r then ''recursive'' else ''non-recursive'']);
          size_part = (case pp_size v of None \<Rightarrow> [] | Some s \<Rightarrow> [''size: '' @ s])
      in case (case pp_types v of None \<Rightarrow> Some [] | Some ts \<Rightarrow> map_option (\<lambda>t. [t]) (types_text ts)) of
           None \<Rightarrow> None
         | Some types \<Rightarrow>
             (let details = recursive @ types @ size_part in
              Some (''  '' @ path_str p @
                (if details = [] then [] else '' ('' @ join_text '', '' details @ '')''))))"

fun map_lines :: "('a \<Rightarrow> string option) \<Rightarrow> 'a list \<Rightarrow> string list option" where
  "map_lines f [] = Some []"
| "map_lines f (x # xs) =
     (case f x of None \<Rightarrow> None | Some l \<Rightarrow> map_option (Cons l) (map_lines f xs))"

definition group_lines :: "cmd_group \<Rightarrow> string list option" where
  "group_lines g =
     (let name = (if cg_cmd g = CMD_GLOBAL then ''_global (all processes)'' else cg_cmd g) in
      map_option (\<lambda>ls. (''Process: '' @ name) # ls @ [[]]) (map_lines path_line (cg_paths g)))"

fun groups_lines :: "cmd_group list \<Rightarrow> string list option" where
  "groups_lines [] = Some []"
| "groups_lines (g # gs) =
     (case group_lines g of None \<Rightarrow> None | Some ls \<Rightarrow> map_option ((@) ls) (groups_lines gs))"

text \<open>A store that cannot be loaded is shown as an empty one.\<close>

definition cmd_monitored :: "cli_env \<Rightarrow> bool \<Rightarrow> files \<Rightarrow> (cli_error + string list) option" where
  "cmd_monitored env paths_only fl =
     (case cli_config env of
        Inl e \<Rightarrow> Some (Inl (BadConfig e))
      | Inr cfg \<Rightarrow>
          (let store = (case read_store env (cf_monitored_path cfg) fl of Inr s \<Rightarrow> s | Inl _ \<Rightarrow> []) in
           if paths_only then Some (Inr (map (\<lambda>e. path_str (pe_path e)) (flatten (cl_fs env) store)))
           else if store = [] then Some (Inr [''No monitored paths.''])
           else map_option (\<lambda>ls. Inr ([''=== Monitored Paths ==='', []] @ ls)) (groups_lines store)))"

section \<open>Queries and cleaning\<close>

fun parse_filters :: "(string \<Rightarrow> string + time_filter) \<Rightarrow> string list \<Rightarrow> string + time_filter list" where
  "parse_filters parse [] = Inr []"
| "parse_filters parse (s # ss) =
     (case parse s of
        Inl e \<Rightarrow> Inl e
      | Inr f \<Rightarrow> (case parse_filters parse ss of Inl e \<Rightarrow> Inl e | Inr fs \<Rightarrow> Inr (f # fs)))"

text \<open>The query both \<^verbatim>\<open>fsmon query\<close> and \<^verbatim>\<open>fsmon changes\<close> run.\<close>

definition query_of_args ::
  "cli_env \<Rightarrow> (string \<Rightarrow> string + time_filter) \<Rightarrow> string option \<Rightarrow> path list \<Rightarrow> string list \<Rightarrow> cli_error + query" where
  "query_of_args env parse cmd paths filters =
     (case cli_config env of
        Inl e \<Rightarrow> Inl (BadConfig e)
      | Inr cfg \<Rightarrow>
          (case cmd of
             None \<Rightarrow> Inl CmdRequired
           | Some name \<Rightarrow>
               (case parse_filters parse filters of
                  Inl e \<Rightarrow> Inl (BadTimeFilter e)
                | Inr fs \<Rightarrow>
                    Inr \<lparr>q_log_dir = (case lc_path (cf_logging cfg) of Some d \<Rightarrow> d | None \<Rightarrow> []),
                         q_cmd_filter = Some name,
                         q_path_filters = (if paths = [] then None else Some paths),
                         q_time_filters = fs,
                         q_local_time = (case lc_local_time (cf_logging cfg) of Some b \<Rightarrow> b | None \<Rightarrow> False)\<rparr>)))"

text \<open>
  The lines that are printed: \<open>local\<close> is the writer that gives times in the local zone. What the
  log directory holds when the command looks is a parameter, as is the iteration of the hash map.
\<close>

definition output_events ::
  "(file_event \<Rightarrow> string) \<Rightarrow> (file_event \<Rightarrow> string) \<Rightarrow> query \<Rightarrow> file_event list \<Rightarrow> string list" where
  "output_events utc local q events = map (if q_local_time q then local else utc) events"

record query_args =
  qa_cmd :: "string option"
  qa_path :: "path list"
  qa_time :: "string list"

definition cmd_query ::
  "cli_env \<Rightarrow> (string \<Rightarrow> string + time_filter) \<Rightarrow> (string \<Rightarrow> file_event option) \<Rightarrow> (path \<Rightarrow> log_dir_view) \<Rightarrow>
     (file_event \<Rightarrow> string) \<Rightarrow> (file_event \<Rightarrow> string) \<Rightarrow> query_args \<Rightarrow> cli_error + (query_error + string list)" where
  "cmd_query env parse from_json view utc local args =
     (case query_of_args env parse (qa_cmd args) (qa_path args) (qa_time args) of
        Inl e \<Rightarrow> Inl e
      | Inr q \<Rightarrow>
          Inr (case execute from_json (view (q_log_dir q)) q of
                 Inl e \<Rightarrow> Inl e | Inr events \<Rightarrow> Inr (output_events utc local q events)))"

definition cmd_changes ::
  "cli_env \<Rightarrow> (string \<Rightarrow> string + time_filter) \<Rightarrow> (string \<Rightarrow> file_event option) \<Rightarrow>
     ((path \<rightharpoonup> file_event) \<Rightarrow> file_event list) \<Rightarrow> (path \<Rightarrow> log_dir_view) \<Rightarrow>
     (file_event \<Rightarrow> string) \<Rightarrow> (file_event \<Rightarrow> string) \<Rightarrow> query_args \<Rightarrow> cli_error + (query_error + string list)" where
  "cmd_changes env parse from_json map_values view utc local args =
     (case query_of_args env parse (qa_cmd args) (qa_path args) (qa_time args) of
        Inl e \<Rightarrow> Inl e
      | Inr q \<Rightarrow>
          Inr (case execute_changes from_json map_values (view (q_log_dir q)) q of
                 Inl e \<Rightarrow> Inl e | Inr events \<Rightarrow> Inr (output_events utc local q events)))"

definition DEFAULT_KEEP_DAYS :: u32 where "DEFAULT_KEEP_DAYS = 30"
definition DEFAULT_MAX_SIZE :: string where "DEFAULT_MAX_SIZE = ''>=1GB''"

record clean_args =
  ca_cmd :: "string option"
  ca_time :: "string option"
  ca_size :: "string option"
  ca_dry_run :: bool

text \<open>Times are in seconds; a number of days before \<open>now\<close>.\<close>

definition days_ago :: "int \<Rightarrow> u32 \<Rightarrow> time_filter" where
  "days_ago now days = \<lparr>tf_op = TGt, tf_time = now - int (unat days) * 86400\<rparr>"

definition clean_time ::
  "(string \<Rightarrow> string + time_filter) \<Rightarrow> int \<Rightarrow> string option \<Rightarrow> config \<Rightarrow> string + time_filter" where
  "clean_time parse now time cfg =
     (case time of
        Some t \<Rightarrow> parse t
      | None \<Rightarrow>
          (case lc_keep_days (cf_logging cfg) of
             Some days \<Rightarrow> Inr (days_ago now days) | None \<Rightarrow> Inr (days_ago now DEFAULT_KEEP_DAYS)))"

definition clean_size :: "(string \<Rightarrow> string + size_filter) \<Rightarrow> string option \<Rightarrow> config \<Rightarrow> string + size_filter" where
  "clean_size parse_sf sz cfg =
     parse_sf (size_text (case or_else sz (lc_size (cf_logging cfg)) of Some s \<Rightarrow> s | None \<Rightarrow> DEFAULT_MAX_SIZE))"

definition cmd_clean ::
  "cli_env \<Rightarrow> (string \<Rightarrow> string + time_filter) \<Rightarrow> (string \<Rightarrow> string + size_filter) \<Rightarrow> int \<Rightarrow> clean_env \<Rightarrow>
     (string \<Rightarrow> file_event option) \<Rightarrow> clean_args \<Rightarrow> files \<Rightarrow> (cli_error + (clean_error + nat \<times> nat)) \<times> files" where
  "cmd_clean env parse parse_sf now ce from_json args fl =
     (case cli_config env of
        Inl e \<Rightarrow> (Inl (BadConfig e), fl)
      | Inr cfg \<Rightarrow>
          (case ca_cmd args of
             None \<Rightarrow> (Inl CmdRequired, fl)
           | Some name \<Rightarrow>
               (case clean_time parse now (ca_time args) cfg of
                  Inl e \<Rightarrow> (Inl (BadTimeFilter e), fl)
                | Inr tf \<Rightarrow>
                    (case clean_size parse_sf (ca_size args) cfg of
                       Inl e \<Rightarrow> (Inl (BadSizeFilter e), fl)
                     | Inr sf \<Rightarrow>
                         (let dir = (case lc_path (cf_logging cfg) of Some d \<Rightarrow> d | None \<Rightarrow> []);
                              (r, fl1) = clean_logs ce from_json (fs_exists (cl_fs env) dir) dir name
                                           (Some tf) (Some sf) (ca_dry_run args) fl
                          in (Inr r, fl1))))))"

section \<open>Starting the daemon\<close>

fun parse_path_entries ::
  "(string \<Rightarrow> string + size_filter) \<Rightarrow> path_entry list \<Rightarrow> entry_error + (path \<times> path_options) list" where
  "parse_path_entries parse_sf [] = Inr []"
| "parse_path_entries parse_sf (e # es) =
     (case try_from_entry parse_sf e of
        Inl err \<Rightarrow> Inl err
      | Inr opts \<Rightarrow>
          (case parse_path_entries parse_sf es of Inl err \<Rightarrow> Inl err | Inr r \<Rightarrow> Inr ((pe_path e, opts) # r)))"

datatype start_error = StartCli cli_error | LockHeld | SocketFailed

text \<open>
  \<open>cl_overflow_checks\<close> says whether the build checks arithmetic; then the product that gives the
  watchdog period may panic. How the start ends before the event loop: an error (exit status 1), exit with status 2, a panic,
  or a monitor with its settings.
\<close>

datatype daemon_start_result =
    StartFailed start_error
  | ExitConfig "mon_error option"
  | StartPanics
  | Started monitor daemon_settings

definition cmd_daemon ::
  "cli_env \<Rightarrow> world \<Rightarrow> u32 \<Rightarrow> bool \<Rightarrow> bool \<Rightarrow> daemon_options \<Rightarrow> files \<Rightarrow> daemon_start_result" where
  "cmd_daemon env w pid lock_ok socket_ok opts fl =
     (if \<not> lock_ok then StartFailed LockHeld
      else
        (case cli_config env of
           Inl e \<Rightarrow> StartFailed (StartCli (BadConfig e))
         | Inr cfg \<Rightarrow>
             (case read_store env (cf_monitored_path cfg) fl of
                Inl e \<Rightarrow> StartFailed (StartCli (BadStore e))
              | Inr store \<Rightarrow>
                  if \<not> socket_ok then StartFailed SocketFailed
                  else
                    (let st = merge_settings opts cfg in
                     case parse_path_entries (w_parse_size w) (flatten (cl_fs env) store) of
                       Inl e \<Rightarrow> StartFailed (StartCli (BadPathEntry e))
                     | Inr paths_and_options \<Rightarrow>
                         if st_watchdog_multiplier st \<le> 1 then ExitConfig None
                         else if watchdog_sec (cl_overflow_checks env) st = None then StartPanics
                         else
                           (case monitor_new w pid
                                   \<lparr>mc_paths_and_options = paths_and_options,
                                    mc_log_dir = lc_path (cf_logging cfg),
                                    mc_buffer_size = Some (rc_buffer_size (st_cache st)),
                                    mc_cache_buffer_size = rc_buffer_size (st_cache st),
                                    mc_file_size_capacity = rc_file_size_capacity (st_cache st),
                                    mc_subscribe_buf = Some (rc_subscribe_buf (st_cache st)),
                                    mc_metrics_interval = map_option unat (st_metrics_interval st)\<rparr> of
                              None \<Rightarrow> StartPanics
                            | Some (Inl e) \<Rightarrow> ExitConfig (Some e)
                            | Some (Inr m) \<Rightarrow> Started m st)))))"

end
