(* ===== verification/Monitor_Props.thy ===== *)
theory Monitor_Props
  imports Monitor_Init
begin

text \<open>
  What the operations of the monitor guarantee: no panic in any run, the effect of adding and
  removing a path on every branch, marks that cover every entry, pending paths that are never
  lost, readers that are restarted a bounded number of times.
\<close>

section \<open>A small system for the witnesses\<close>

definition sample_dir :: path where "sample_dir = [RootDir, Normal ''w'']"

definition sample_fs :: fs_view where
  "sample_fs = \<lparr>fs_exists = (\<lambda>p. p = sample_dir \<or> p = [RootDir]),
     fs_is_dir = (\<lambda>p. p = sample_dir \<or> p = [RootDir]), fs_canonicalize = Some,
     fs_is_symlink = (\<lambda>_. None), fs_dev = (\<lambda>_. Some 1), fs_open_dir = (\<lambda>_. True), fs_home = None\<rparr>"

definition sample_world :: world where
  "sample_world = \<lparr>w_fan = linux_fan, w_fs = sample_fs,
     w_tree = \<lparr>dt_open = (\<lambda>_. True), dt_entries = (\<lambda>_. None)\<rparr>, w_inotify_init = True,
     w_watch = (\<lambda>_. Some 5), w_mark = (\<lambda>_ _. True), w_create = (\<lambda>_. True), w_dup = (\<lambda>_. True),
     w_now = 0, w_parse_size = (\<lambda>_. Inr \<lparr>sf_op = SGe, sf_bytes = 7\<rparr>), w_show_size = (\<lambda>_. ''>=7B''),
     w_lru_new = (\<lambda>_. True), w_broadcast_new = (\<lambda>_. True)\<rparr>"

definition sample_opts :: path_options where
  "sample_opts = \<lparr>po_size_filter = None, po_event_types = Some [Create], po_recursive = True,
     po_cmd = None, po_max_depth = None\<rparr>"

definition sample_config :: monitor_config where
  "sample_config = \<lparr>mc_paths_and_options = [(sample_dir, sample_opts)], mc_log_dir = None,
     mc_buffer_size = Some 4096, mc_cache_buffer_size = 4096, mc_file_size_capacity = 10,
     mc_subscribe_buf = None, mc_metrics_interval = None\<rparr>"

definition sample_new :: "monitor option" where
  "sample_new = (case monitor_new sample_world 7 sample_config of Some (Inr m) \<Rightarrow> Some m | _ \<Rightarrow> None)"

definition sample_init :: "monitor option" where
  "sample_init = (case sample_new of None \<Rightarrow> None | Some m \<Rightarrow>
     (case init_fanotify sample_world (m\<lparr>mo_factory := True, mo_privileged := True\<rparr>) of
        Some (Inr _, m') \<Rightarrow> Some m'
      | _ \<Rightarrow> None))"

definition sample_monitor :: "monitor option" where
  "sample_monitor = (case sample_init of None \<Rightarrow> None | Some m \<Rightarrow> spawn_tasks sample_world (start_metrics m))"

lemma sample_resolve: "resolve_recursion_check sample_fs sample_dir = (sample_dir, sample_dir)"
  by code_simp

lemma sample_new_eq:
  "sample_new = Some \<lparr>mo_paths = [sample_dir], mo_canonical = [],
      mo_entries = [(sample_dir, sample_opts)], mo_log_dir = None, mo_groups = [], mo_next = 0,
      mo_path_to_group = [], mo_shared_cache = False, mo_factory = False, mo_inotify = False,
      mo_watches = [], mo_pending = [], mo_temp = [], mo_buffer_size = 4096, mo_event_tx = False,
      mo_daemon_pid = 7, mo_readers = [], mo_metrics = metrics_new False, mo_privileged = False,
      mo_trace = []\<rparr>"
  by (simp add: sample_new_def monitor_new_def sample_config_def sample_world_def Let_def
      sample_resolve overlaps_log_dir_def sample_opts_def)

lemmas sample_run_defs = init_fanotify_def init_path_def setup_inotify_watches_def add_watch_once_def
  add_watch_def log_action_def init_group_def create_group_def map_path_def mark_first_def
  mark_tree_def option_at_def cache_root_def insert_group_def first_opt_for_path_def dev_of_def
  canonicalize_or_def entries_mask_def

lemma sample_init_eq:
  "sample_init = Some \<lparr>mo_paths = [sample_dir], mo_canonical = [sample_dir],
      mo_entries = [(sample_dir, sample_opts)], mo_log_dir = None,
      mo_groups = [(0, \<lparr>gr_dev_id = 1, gr_ref_count = 1\<rparr>)], mo_next = 1,
      mo_path_to_group = [(sample_dir, 0)], mo_shared_cache = False, mo_factory = True, mo_inotify = True,
      mo_watches = [(sample_dir, 5)], mo_pending = [], mo_temp = [], mo_buffer_size = 4096, mo_event_tx = False,
      mo_daemon_pid = 7, mo_readers = [], mo_metrics = metrics_new False, mo_privileged = True,
      mo_trace = [AddWatch sample_dir WatchRoot, NewGroup 0 True (0x48000100) sample_dir,
         MarkTree 0 0x48000100 sample_dir None False]\<rparr>"
  by (simp add: sample_init_def sample_new_eq sample_run_defs sample_world_def sample_fs_def
      sample_opts_def Let_def enumerate_simps or_masks_def path_mask_from_options_def
      event_type_to_kernel_flag.simps linux_fan_def)

lemma sample_monitor_eq:
  "sample_monitor = Some \<lparr>mo_paths = [sample_dir], mo_canonical = [sample_dir],
      mo_entries = [(sample_dir, sample_opts)], mo_log_dir = None,
      mo_groups = [(0, \<lparr>gr_dev_id = 1, gr_ref_count = 1\<rparr>)], mo_next = 1,
      mo_path_to_group = [(sample_dir, 0)], mo_shared_cache = True, mo_factory = True, mo_inotify = True,
      mo_watches = [(sample_dir, 5)], mo_pending = [], mo_temp = [], mo_buffer_size = 4096, mo_event_tx = True,
      mo_daemon_pid = 7,
      mo_readers = [(0, \<lparr>rs_restart_count = 1, rs_last_restart = 0, rs_gave_up = False\<rparr>)],
      mo_metrics = metrics_new False, mo_privileged = True,
      mo_trace = [AddWatch sample_dir WatchRoot, NewGroup 0 True (0x48000100) sample_dir,
         MarkTree 0 0x48000100 sample_dir None False, SpawnReader 0]\<rparr>"
  by (simp add: sample_monitor_def sample_init_eq spawn_tasks_def spawn_fd_reader_def log_action_def
      sample_world_def spawned_state_def metrics_new_def set_reader_groups_def gauge_set_def gauge_new_def
      start_metrics_def set_pending_paths_def set_monitored_paths_def)

lemma sample_facts:
  assumes "sample_monitor = Some m"
  shows "mo_paths m = [sample_dir]" "mo_canonical m = [sample_dir]" "mo_factory m" "mo_event_tx m"
    "mo_shared_cache m" "mo_groups m = [(0, \<lparr>gr_dev_id = 1, gr_ref_count = 1\<rparr>)]"
    "mo_path_to_group m = [(sample_dir, 0)]" "mo_entries m = [(sample_dir, sample_opts)]"
    "mo_readers m = [(0, \<lparr>rs_restart_count = 1, rs_last_restart = 0, rs_gave_up = False\<rparr>)]"
    "mo_pending m = []"
  using assms by (auto simp: sample_monitor_eq)

lemma sample_exists: "\<exists>m. sample_monitor = Some m"
  by (simp add: sample_monitor_eq)

lemma sample_reach: "sample_monitor = Some m \<Longrightarrow> monitor_reach m"
  by (auto simp: sample_monitor_def sample_init_def sample_new_def intro: monitor_reach.start
      split: option.splits sum.splits)

section \<open>No run panics\<close>

lemma returns_not_None: "returns r P \<Longrightarrow> r \<noteq> None"
  by (cases r) simp_all

text \<open>
  Whatever the daemon does to its monitor, in any order and whatever the system answers,
  the invariant holds: no index into the groups or the canonical paths can fail, and every
  operation returns.
\<close>

theorem monitor_never_panics:
  assumes "monitor_reach m"
  shows "monitor_ok m \<and> (\<forall>w e. add_path w e m \<noteq> None) \<and> (\<forall>w p cmd. remove_path w p cmd m \<noteq> None) \<and>
    (\<forall>w p. handle_canonical_root_deleted w p m \<noteq> None) \<and> (\<forall>w. check_pending w m \<noteq> None) \<and>
    (\<forall>w k. restart_reader w k m \<noteq> None) \<and>
    (\<forall>w p. well_founded_tree (w_tree w) \<longrightarrow> on_new_subdirectory w p m \<noteq> None) \<and>
    (\<forall>w read. well_founded_tree (w_tree w) \<longrightarrow> handle_inotify_events w read m \<noteq> None)"
proof -
  have ok: "monitor_ok m" by (rule reach_ok [OF assms])
  note live = add_path_ok [OF ok] remove_path_ok [OF ok] handle_canonical_root_deleted_ok [OF ok]
    check_pending_ok [OF ok] restart_reader_core on_new_subdirectory_ok [OF _ ok]
    handle_inotify_events_ok [OF _ ok]
  show ?thesis
    by (intro conjI allI impI ok; rule returns_not_None, rule live; assumption)
qed

theorem monitor_never_panics_witness:
  "\<exists>m. sample_monitor = Some m \<and> monitor_ok m \<and> remove_path sample_world sample_dir None m \<noteq> None"
proof -
  obtain m where m: "sample_monitor = Some m" using sample_exists by blast
  from monitor_never_panics [OF sample_reach [OF m]] m show ?thesis by blast
qed

section \<open>Adding and removing\<close>

lemma remark_path_pending: "remark_path w p m = Some m' \<Longrightarrow> core m' = core m \<and> mo_pending m' = mo_pending m"
  by (auto simp: remark_path_def Let_def split: option.splits if_splits)

lemma spawn_fd_reader_pending: "spawn_fd_reader w k m = Some m' \<Longrightarrow> core m' = core m \<and> mo_pending m' = mo_pending m"
  by (auto simp: spawn_fd_reader_def core_def log_action_def split: option.splits if_splits)

lemma join_group_pending: "mo_pending (join_group w k b c opts m) = mo_pending m"
  by (simp add: join_group_def Let_def mark_tree_def)

lemma mark_tree_pending: "mo_pending (mark_tree w k b c opts m) = mo_pending m"
  by (simp add: mark_tree_def)

lemma add_watch_pending: "mo_pending (add_watch_once w p kd m) = mo_pending m"
  by (simp add: add_watch_once_def add_watch_def log_action_def split: option.split)

lemma fold_pending:
  assumes "\<And>x s. mo_pending (f x s) = mo_pending s"
  shows "mo_pending (fold f xs m) = mo_pending m"
  by (induction xs arbitrary: m) (simp_all add: assms)

lemma setup_pending [simp]: "mo_pending (setup_inotify_watches w m) = mo_pending m"
proof -
  have 1: "mo_pending (fold (\<lambda>(p, _) s. case nearest_existing_ancestor (w_fs w) p of
      None \<Rightarrow> s | Some q \<Rightarrow> add_watch_once w q WatchNew s) xs s) = mo_pending s"
    for xs :: "(path \<times> path_entry) list" and s
    by (rule fold_pending) (auto simp: add_watch_pending split: option.splits)
  have 2: "mo_pending (fold (\<lambda>(p, opts) s. if \<not> po_recursive opts \<or> \<not> fs_is_dir (w_fs w) p then s
      else add_watch_once w p WatchRoot s) xs s) = mo_pending s" for xs s
    by (rule fold_pending) (auto simp: add_watch_pending)
  have 3: "mo_pending (fold (\<lambda>(p, opts) s. if po_recursive opts \<or> \<not> fs_is_dir (w_fs w) p then s
      else add_watch_once w p WatchSelf s) xs s) = mo_pending s" for xs s
    by (rule fold_pending) (auto simp: add_watch_pending)
  show ?thesis
    unfolding setup_inotify_watches_def Let_def
    by (cases "mo_inotify m") (simp_all only: simp_thms if_True if_False 1 2 3)
qed

lemma register_path_effect:
  "mo_entries (register_path w p c opts k m) = mo_entries m @ [(p, opts)]"
  "mo_paths (register_path w p c opts k m) = mo_paths m @ [p]"
  "mo_canonical (register_path w p c opts k m) = mo_canonical m @ [c]"
  "map_of (mo_path_to_group (register_path w p c opts k m)) p = Some k"
  "mo_pending (register_path w p c opts k m) = mo_pending m"
  by (simp_all add: register_path_def Let_def count_entries_def al_get_put)

lemma add_new_path_effect:
  assumes "add_new_path w p opts m = Some (res, m')"
  shows "mo_pending m' = mo_pending m \<and>
    (case res of
       Failed _ \<Rightarrow> core m' = core m
     | Done \<Rightarrow> mo_paths m' = mo_paths m @ [p] \<and> mo_entries m' = mo_entries m @ [(p, opts)] \<and>
         mo_canonical m' = mo_canonical m @ [canonicalize_or (w_fs w) p] \<and>
         map_of (mo_path_to_group m') p \<noteq> None)"
proof -
  let ?c = "canonicalize_or (w_fs w) p" and ?b = "path_mask_from_options (w_fan w) opts"
  let ?dev = "dev_of w ?c"
  consider (no) "\<not> mo_factory m" | (join) k where "mo_factory m" "find_group m ?dev = Some k"
    | (new) "mo_factory m" "find_group m ?dev = None"
    by (cases "mo_factory m"; cases "find_group m ?dev") auto
  then show ?thesis
  proof cases
    case no
    with assms show ?thesis by (auto simp: add_new_path_def Let_def)
  next
    case (join k)
    then have "res = Done" "m' = register_path w p ?c opts k (join_group w k ?b ?c opts m)"
      using assms by (auto simp: add_new_path_def Let_def)
    then show ?thesis
      using core_fields [OF join_group_fields [of w k ?b ?c opts m]]
      by (simp add: register_path_effect join_group_pending)
  next
    case new
    obtain r m1 where cg: "create_group w ?dev ?b ?c m = (r, m1)" by (cases "create_group w ?dev ?b ?c m")
    have c1: "core m1 = core m" using create_group_core [OF cg] by simp
    have p1: "mo_pending m1 = mo_pending m"
      using cg by (auto simp: create_group_def Let_def split: if_splits)
    show ?thesis
    proof (cases r)
      case (Inl err)
      with assms new cg c1 p1 show ?thesis by (auto simp: add_new_path_def Let_def)
    next
      case (Inr k)
      let ?m = "insert_group ?dev (mark_tree w k ?b ?c opts m1)"
      from assms new cg Inr obtain m2 where m2: "spawn_fd_reader w k ?m = Some m2"
        and "res = Done" "m' = register_path w p ?c opts k m2"
        by (auto simp: add_new_path_def Let_def split: bind_splits)
      then show ?thesis
        using spawn_fd_reader_pending [OF m2] core_fields [of m2 ?m] core_fields [OF c1] p1
        by (simp add: register_path_effect insert_group_def mark_tree_pending)
    qed
  qed
qed

lemma add_path_cases:
  assumes "add_path w e m = Some (res, m')" and "p = snd (resolve_recursion_check (w_fs w) (pe_path e))"
  shows "case res of
    Failed _ \<Rightarrow> core m' = core m \<and> mo_pending m' = mo_pending m
  | Done \<Rightarrow>
      (p \<in> set (mo_paths m) \<longrightarrow> mo_paths m' = mo_paths m \<and> mo_pending m' = mo_pending m \<and>
         (\<exists>opts. try_from_entry (w_parse_size w) e = Inr opts \<and> mo_entries m' = mo_entries m @ [(p, opts)])) \<and>
      (p \<notin> set (mo_paths m) \<and> \<not> fs_exists (w_fs w) p \<longrightarrow> core m' = core m \<and>
         set (mo_pending m) \<subseteq> set (mo_pending m') \<and>
         (\<exists>e'. (p, e') \<in> set (mo_pending m') \<and> pe_cmd e' = pe_cmd e)) \<and>
      (p \<notin> set (mo_paths m) \<and> fs_exists (w_fs w) p \<longrightarrow>
         mo_paths m' = mo_paths m @ [p] \<and> mo_pending m' = mo_pending m \<and>
         mo_canonical m' = mo_canonical m @ [canonicalize_or (w_fs w) p] \<and>
         map_of (mo_path_to_group m') p \<noteq> None \<and>
         \<not> overlaps_log_dir w (mo_log_dir m) p (pe_recursive e = Some True) \<and>
         (\<exists>opts. try_from_entry (w_parse_size w) e = Inr opts \<and> po_cmd opts \<noteq> Some ''fsmon'' \<and>
            mo_entries m' = mo_entries m @ [(p, opts)]))"
proof (cases "p \<in> set (mo_paths m)")
  case True
  show ?thesis
  proof (cases "try_from_entry (w_parse_size w) e")
    case (Inl err)
    with assms True show ?thesis by (auto simp: add_path_def Let_def)
  next
    case (Inr opts)
    let ?m = "m\<lparr>mo_entries := mo_entries m @ [(p, opts)]\<rparr>"
    from assms True Inr obtain m1 where m1: "remark_path w p ?m = Some m1"
      and "res = Done" "m' = count_entries m1"
      by (auto simp: add_path_def Let_def split: bind_splits)
    then show ?thesis
      using True Inr remark_path_pending [OF m1] core_fields [of m1 ?m]
      by (simp add: count_entries_def)
  qed
next
  case False
  show ?thesis
  proof (cases "overlaps_log_dir w (mo_log_dir m) p (pe_recursive e = Some True) \<or> \<not> fs_exists (w_fs w) p")
    case True
    with assms False show ?thesis
      by (auto simp: add_path_def Let_def list_ex_iff split: if_splits)
  next
    case go: False
    show ?thesis
    proof (cases "try_from_entry (w_parse_size w) e")
      case (Inl err)
      with assms False go show ?thesis by (auto simp: add_path_def Let_def)
    next
      case (Inr opts)
      show ?thesis
      proof (cases "po_cmd opts = Some ''fsmon''")
        case True
        with assms False go Inr show ?thesis by (auto simp: add_path_def Let_def)
      next
        case nf: False
        from assms False go Inr nf have "add_new_path w p opts m = Some (res, m')"
          by (simp add: add_path_def Let_def)
        from add_new_path_effect [OF this] False go Inr nf show ?thesis by (auto split: outcome.splits)
      qed
    qed
  qed
qed

text \<open>
  C20: Adding a path has one of three effects: a watched path gets one entry more, a path that
  does not exist is queued (once per process name), and any other path becomes watched with its
  entry, its canonical form and a group. A path that would watch the log directory and the
  process name fsmon are never accepted as new paths, and a failure changes nothing.
\<close>

theorem add_path_effect:
  assumes "add_path w e m = Some (res, m')" and "p = snd (resolve_recursion_check (w_fs w) (pe_path e))"
  shows "case res of
    Failed _ \<Rightarrow> core m' = core m \<and> mo_pending m' = mo_pending m
  | Done \<Rightarrow>
      (p \<in> set (mo_paths m) \<longrightarrow> mo_paths m' = mo_paths m \<and> mo_pending m' = mo_pending m \<and>
         (\<exists>opts. try_from_entry (w_parse_size w) e = Inr opts \<and> mo_entries m' = mo_entries m @ [(p, opts)])) \<and>
      (p \<notin> set (mo_paths m) \<and> \<not> fs_exists (w_fs w) p \<longrightarrow> core m' = core m \<and>
         set (mo_pending m) \<subseteq> set (mo_pending m') \<and>
         (\<exists>e'. (p, e') \<in> set (mo_pending m') \<and> pe_cmd e' = pe_cmd e)) \<and>
      (p \<notin> set (mo_paths m) \<and> fs_exists (w_fs w) p \<longrightarrow>
         mo_paths m' = mo_paths m @ [p] \<and> mo_pending m' = mo_pending m \<and>
         mo_canonical m' = mo_canonical m @ [canonicalize_or (w_fs w) p] \<and>
         map_of (mo_path_to_group m') p \<noteq> None \<and>
         \<not> overlaps_log_dir w (mo_log_dir m) p (pe_recursive e = Some True) \<and>
         (\<exists>opts. try_from_entry (w_parse_size w) e = Inr opts \<and> po_cmd opts \<noteq> Some ''fsmon'' \<and>
            mo_entries m' = mo_entries m @ [(p, opts)]))"
  by (rule add_path_cases [OF assms])

definition sample_entry :: path_entry where
  "sample_entry = \<lparr>pe_cmd = Some ''sh'', pe_path = sample_dir, pe_recursive = None, pe_types = None,
     pe_size = None, pe_max_depth = None, pe_symlink_target = None\<rparr>"

lemma sample_add:
  assumes "sample_monitor = Some m"
  shows "\<exists>m'. add_path sample_world sample_entry m = Some (Done, m')"
proof -
  have ok: "monitor_ok m" by (rule reach_ok [OF sample_reach [OF assms]])
  have p: "snd (resolve_recursion_check sample_fs (pe_path sample_entry)) = sample_dir"
    by (simp add: sample_entry_def sample_resolve)
  have "sample_dir \<in> set (mo_paths m)" by (simp add: sample_facts [OF assms])
  moreover have "\<exists>opts. try_from_entry (w_parse_size sample_world) sample_entry = Inr opts"
    by (simp add: try_from_entry_def sample_entry_def)
  moreover have "\<exists>s. add_path sample_world sample_entry m = Some s"
    using add_path_ok [OF ok, of sample_world sample_entry] by (auto simp: returns_iff)
  ultimately show ?thesis
    using p by (auto simp: add_path_def Let_def sample_world_def split: bind_splits)
qed

theorem add_path_effect_witness:
  "\<exists>m m'. sample_monitor = Some m \<and> add_path sample_world sample_entry m = Some (Done, m') \<and>
     mo_paths m' = [sample_dir]"
proof -
  obtain m where m: "sample_monitor = Some m" using sample_exists by blast
  obtain m' where m': "add_path sample_world sample_entry m = Some (Done, m')" using sample_add [OF m(1)] ..
  have "sample_dir = snd (resolve_recursion_check (w_fs sample_world) (pe_path sample_entry))"
    by (simp add: sample_entry_def sample_world_def sample_resolve)
  from add_path_effect [OF m' this] sample_facts(1) [OF m] m m' show ?thesis by auto
qed

lemma drop_path_frame:
  assumes "drop_path w p m = Some m'"
  shows "mo_pending m' = mo_pending m \<and>
    (\<forall>q. q \<noteq> p \<longrightarrow> map_of (mo_path_to_group m') q = map_of (mo_path_to_group m) q)"
  using assms by (auto simp: drop_path_def Let_def al_get_del log_action_def split: option.splits if_splits bind_splits)

lemma kept_paths:
  assumes "list_ex (\<lambda>(q, _). q = p) (filter (\<lambda>x. \<not> removes p cmd x) es)"
  shows "\<exists>opts. (p, opts) \<in> set (filter (\<lambda>x. \<not> removes p cmd x) es)"
  using assms by (auto simp: list_ex_iff)

lemma remove_path_cases:
  assumes ok: "monitor_ok m" and run: "remove_path w p cmd m = Some (res, m')"
  shows "(res = Done \<longleftrightarrow> (\<exists>x \<in> set (mo_entries m). removes p cmd x)) \<and>
    (res \<noteq> Done \<longrightarrow> res = Failed (PathNotFound p) \<and> m' = m) \<and>
    mo_entries m' = filter (\<lambda>x. \<not> removes p cmd x) (mo_entries m) \<and>
    (res = Done \<longrightarrow> set (mo_paths m') =
       (if p \<in> fst ` set (mo_entries m') then set (mo_paths m) else set (mo_paths m) - {p})) \<and>
    (\<forall>q. q \<noteq> p \<longrightarrow> map_of (mo_path_to_group m') q = map_of (mo_path_to_group m) q) \<and>
    mo_pending m' = mo_pending m"
proof -
  let ?kept = "filter (\<lambda>x. \<not> removes p cmd x) (mo_entries m)"
  let ?m = "m\<lparr>mo_entries := ?kept\<rparr>"
  have len: "length (mo_entries m) - length ?kept = 0 \<longleftrightarrow> (\<forall>x \<in> set (mo_entries m). \<not> removes p cmd x)"
    using length_filter_less [of _ "mo_entries m" "\<lambda>x. \<not> removes p cmd x"]
    by (metis diff_is_0_eq filter_True leD le_refl)
  show ?thesis
  proof (cases "\<forall>x \<in> set (mo_entries m). \<not> removes p cmd x")
    case True
    then have "?kept = mo_entries m" by (simp add: filter_id_conv)
    with True run show ?thesis by (auto simp: remove_path_def Let_def)
  next
    case False
    have okm: "monitor_ok ?m" using ok by (auto simp: monitor_ok_def group_refs_def)
    define step where "step = (if \<not> list_ex (\<lambda>(q, _). q = p) ?kept then drop_path w p ?m else remark_path w p ?m)"
    from False len run obtain m2 where m2: "step = Some m2" and res: "res = Done"
      and m': "m' = (count_entries m2)\<lparr>mo_metrics := set_reader_groups
        (of_nat (length (mo_groups (count_entries m2)))) (mo_metrics (count_entries m2))\<rparr>"
      unfolding remove_path_def Let_def step_def [symmetric] by (auto split: bind_splits if_splits)
    have f: "mo_entries m' = mo_entries m2" "mo_paths m' = mo_paths m2"
      "mo_path_to_group m' = mo_path_to_group m2" "mo_pending m' = mo_pending m2"
      by (simp_all add: m' count_entries_def)
    have "mo_entries m2 = ?kept \<and> mo_pending m2 = mo_pending m \<and>
        set (mo_paths m2) = (if p \<in> fst ` set ?kept then set (mo_paths m) else set (mo_paths m) - {p}) \<and>
        (\<forall>q. q \<noteq> p \<longrightarrow> map_of (mo_path_to_group m2) q = map_of (mo_path_to_group m) q)"
    proof (cases "list_ex (\<lambda>(q, _). q = p) ?kept")
      case True
      then have "p \<in> fst ` set ?kept" by (force simp: list_ex_iff)
      moreover have "remark_path w p ?m = Some m2" using m2 True by (simp add: step_def)
      note remark_path_pending [OF this]
      ultimately show ?thesis using core_fields [of m2 ?m] by simp
    next
      case gone: False
      then have np: "p \<notin> fst ` set (mo_entries ?m)" by (auto simp: list_ex_iff)
      have d: "drop_path w p ?m = Some m2" using m2 gone by (simp add: step_def)
      show ?thesis
        using drop_path_ok [OF okm np, of w] drop_path_frame [OF d] d np by simp
    qed
    with False res f show ?thesis by simp
  qed
qed

text \<open>
  C32: Removing a path succeeds exactly if it has an entry of the given process name (any entry
  if none is given); then exactly those entries go, the path stays watched exactly while it has
  another entry, and every other path keeps its group. A failure leaves the monitor untouched.
\<close>

theorem remove_path_effect:
  assumes ok: "monitor_ok m" and run: "remove_path w p cmd m = Some (res, m')"
  shows "(res = Done \<longleftrightarrow> (\<exists>x \<in> set (mo_entries m). removes p cmd x)) \<and>
    (res \<noteq> Done \<longrightarrow> res = Failed (PathNotFound p) \<and> m' = m) \<and>
    mo_entries m' = filter (\<lambda>x. \<not> removes p cmd x) (mo_entries m) \<and>
    (res = Done \<longrightarrow> set (mo_paths m') =
       (if p \<in> fst ` set (mo_entries m') then set (mo_paths m) else set (mo_paths m) - {p})) \<and>
    (\<forall>q. q \<noteq> p \<longrightarrow> map_of (mo_path_to_group m') q = map_of (mo_path_to_group m) q) \<and>
    mo_pending m' = mo_pending m"
  by (rule remove_path_cases [OF assms])

theorem remove_path_effect_witness:
  "\<exists>m m'. sample_monitor = Some m \<and> remove_path sample_world sample_dir None m = Some (Done, m') \<and>
     mo_entries m' = [] \<and> set (mo_paths m') = {}"
proof -
  obtain m where m: "sample_monitor = Some m" using sample_exists by blast
  have ok: "monitor_ok m" by (rule reach_ok [OF sample_reach [OF m]])
  obtain res m' where run: "remove_path sample_world sample_dir None m = Some (res, m')"
    using remove_path_ok [OF ok, of sample_world sample_dir None] by (auto simp: returns_iff)
  from remove_path_effect [OF ok run] m run show ?thesis by (auto simp: removes_def sample_facts [OF m])
qed

section \<open>Marks cover every entry\<close>

lemma or_masks_covers: "b \<in> set bs \<Longrightarrow> b AND NOT (or_masks bs) = 0"
proof -
  assume b: "b \<in> set bs"
  have "bit (foldl (\<lambda>a b. a OR b) a bs) n \<longleftrightarrow> bit a n \<or> (\<exists>b \<in> set bs. bit b n)" for a :: u64 and n
    by (induction bs arbitrary: a) (auto simp: bit_or_iff)
  then show ?thesis
    using b by (auto simp: or_masks_def bit_eq_iff bit_and_iff bit_not_iff)
qed

lemma safe_mask_covers: "a AND NOT b = 0 \<Longrightarrow> safe_mask w a AND NOT (safe_mask w b) = 0"
  by (auto simp: safe_mask_def bit_eq_iff bit_and_iff bit_or_iff bit_not_iff)

text \<open>
  Adding an entry to a watched path marks its canonical directory again, in the group of
  the path, with a mask that contains every flag of every entry of the path, and never the
  file system error flag.
\<close>

theorem add_remarks_all_entries:
  assumes "add_path w e m = Some (Done, m')" and "p = snd (resolve_recursion_check (w_fs w) (pe_path e))"
    and "p \<in> set (mo_paths m)" and "map_of (mo_path_to_group m) p = Some k" and "mo_factory m"
    and "fs_open_dir (w_fs w) (canonical_of p m)"
  shows "\<exists>b. mo_trace m' = mo_trace m @ [MarkDir k b (canonical_of p m)] \<and> b AND FAN_FS_ERROR (w_fan w) = 0 \<and>
    (\<forall>opts. (p, opts) \<in> set (mo_entries m') \<longrightarrow>
       safe_mask w (path_mask_from_options (w_fan w) opts) AND NOT b = 0)"
proof -
  obtain opts where opts: "try_from_entry (w_parse_size w) e = Inr opts"
    using assms by (cases "try_from_entry (w_parse_size w) e") (auto simp: add_path_def Let_def)
  let ?m = "m\<lparr>mo_entries := mo_entries m @ [(p, opts)]\<rparr>"
  let ?b = "safe_mask w (entries_mask (w_fan w) (entries_of p (mo_entries ?m)))"
  from assms opts obtain m1 where m1: "remark_path w p ?m = Some m1" and m': "m' = count_entries m1"
    by (auto simp: add_path_def Let_def split: bind_splits)
  have "canonical_of p ?m = canonical_of p m" by (simp add: canonical_of_def split: option.split)
  then have m1': "m1 = log_action (MarkDir k ?b (canonical_of p m)) ?m"
    using m1 assms(4-6) by (auto simp: remark_path_def Let_def split: if_splits)
  have "safe_mask w (path_mask_from_options (w_fan w) o') AND NOT ?b = 0"
    if "(p, o') \<in> set (mo_entries ?m)" for o'
  proof (rule safe_mask_covers)
    have "path_mask_from_options (w_fan w) o' \<in>
        set (map (\<lambda>(_, opts). path_mask_from_options (w_fan w) opts) (entries_of p (mo_entries ?m)))"
      using that by (force simp: entries_of_def)
    then show "path_mask_from_options (w_fan w) o' AND NOT (entries_mask (w_fan w) (entries_of p (mo_entries ?m))) = 0"
      unfolding entries_mask_def by (rule or_masks_covers)
  qed
  moreover have "?b AND FAN_FS_ERROR (w_fan w) = 0"
    by (auto simp: safe_mask_def bit_eq_iff bit_and_iff bit_not_iff)
  moreover have "mo_trace m' = mo_trace m @ [MarkDir k ?b (canonical_of p m)]" "mo_entries m' = mo_entries ?m"
    by (simp_all add: m' m1' count_entries_def log_action_def)
  ultimately show ?thesis by (intro exI [of _ ?b]) simp
qed

theorem add_remarks_all_entries_witness:
  "\<exists>m m' b. sample_monitor = Some m \<and> add_path sample_world sample_entry m = Some (Done, m') \<and>
     mo_trace m' = mo_trace m @ [MarkDir 0 b sample_dir]"
proof -
  obtain m where m: "sample_monitor = Some m" using sample_exists by blast
  obtain m' where m': "add_path sample_world sample_entry m = Some (Done, m')" using sample_add [OF m] ..
  have p: "sample_dir = snd (resolve_recursion_check (w_fs sample_world) (pe_path sample_entry))"
    by (simp add: sample_entry_def sample_world_def sample_resolve)
  have c: "canonical_of sample_dir m = sample_dir"
    by (simp add: canonical_of_def sample_facts [OF m])
  have "\<exists>b. mo_trace m' = mo_trace m @ [MarkDir 0 b (canonical_of sample_dir m)] \<and>
      b AND FAN_FS_ERROR (w_fan sample_world) = 0 \<and>
      (\<forall>opts. (sample_dir, opts) \<in> set (mo_entries m') \<longrightarrow>
        safe_mask sample_world (path_mask_from_options (w_fan sample_world) opts) AND NOT b = 0)"
    by (rule add_remarks_all_entries [OF m' p]) (simp_all add: sample_facts [OF m] sample_world_def sample_fs_def)
  with m m' c show ?thesis by auto
qed

section \<open>Pending paths\<close>

definition active_entry :: "world \<Rightarrow> monitor \<Rightarrow> path \<times> path_entry \<Rightarrow> bool" where
  "active_entry w m = (\<lambda>(p, e). p \<in> set (mo_paths m) \<and>
     (\<exists>opts. try_from_entry (w_parse_size w) e = Inr opts \<and> (p, opts) \<in> set (mo_entries m)))"

definition resolved_entry :: "world \<Rightarrow> path \<times> path_entry \<Rightarrow> bool" where
  "resolved_entry w = (\<lambda>(p, e). snd (resolve_recursion_check (w_fs w) (pe_path e)) = p)"

lemma add_path_mono:
  assumes "add_path w e m = Some (res, m')"
  shows "set (mo_paths m) \<subseteq> set (mo_paths m') \<and> set (mo_entries m) \<subseteq> set (mo_entries m')"
  using add_path_cases [OF assms refl]
  by (cases res; cases "snd (resolve_recursion_check (w_fs w) (pe_path e)) \<in> set (mo_paths m)";
      cases "fs_exists (w_fs w) (snd (resolve_recursion_check (w_fs w) (pe_path e)))")
    (auto dest: core_fields)

lemma try_pending_result:
  assumes "try_pending w x (still, m) = Some (still', m')"
  shows "set still \<subseteq> set still' \<and> set (mo_paths m) \<subseteq> set (mo_paths m') \<and>
    set (mo_entries m) \<subseteq> set (mo_entries m') \<and>
    (resolved_entry w x \<longrightarrow> x \<in> set still' \<or> active_entry w m' x)"
proof -
  obtain p e where x: "x = (p, e)" by (cases x)
  show ?thesis
  proof (cases "fs_exists (w_fs w) p")
    case False
    with assms show ?thesis by (auto simp: try_pending_def x)
  next
    case True
    with assms obtain res where add: "add_path w e m = Some (res, m')"
      and still: "still' = (case res of Done \<Rightarrow> still | Failed _ \<Rightarrow> still @ [(p, e)])"
      by (auto simp: try_pending_def x split: bind_splits outcome.splits)
    have "active_entry w m' x" if "resolved_entry w x" "res = Done"
    proof -
      have p: "p = snd (resolve_recursion_check (w_fs w) (pe_path e))"
        using that(1) by (simp add: resolved_entry_def x)
      show ?thesis
        using add_path_cases [OF add p] that(2) True
        by (cases "p \<in> set (mo_paths m)") (auto simp: active_entry_def x)
    qed
    then show ?thesis
      using add_path_mono [OF add] still by (cases res) (auto simp: x)
  qed
qed

lemma fold_try_pending:
  "fold_opt (try_pending w) xs (still, m) = Some (still', m') \<Longrightarrow>
     set still \<subseteq> set still' \<and> set (mo_paths m) \<subseteq> set (mo_paths m') \<and>
     set (mo_entries m) \<subseteq> set (mo_entries m') \<and>
     (\<forall>x \<in> set xs. resolved_entry w x \<longrightarrow> x \<in> set still' \<or> active_entry w m' x)"
proof (induction xs arbitrary: still m)
  case Nil
  then show ?case by simp
next
  case (Cons x xs)
  then obtain s1 m1 where t: "try_pending w x (still, m) = Some (s1, m1)"
    and f: "fold_opt (try_pending w) xs (s1, m1) = Some (still', m')"
    by (auto split: option.splits)
  have "active_entry w m1 x \<longrightarrow> active_entry w m' x"
    using Cons.IH [OF f] by (auto simp: active_entry_def)
  with Cons.IH [OF f] try_pending_result [OF t] show ?case by auto
qed

lemma cleanup_frame:
  "mo_paths (cleanup_temp_parent_marks w m) = mo_paths m \<and>
   mo_entries (cleanup_temp_parent_marks w m) = mo_entries m \<and>
   mo_pending (cleanup_temp_parent_marks w m) = mo_pending m"
  unfolding cleanup_temp_parent_marks_def
  by (rule fold_preserves [where P = "\<lambda>s. mo_paths s = mo_paths m \<and> mo_entries s = mo_entries m \<and>
        mo_pending s = mo_pending m"])
    (auto simp: remove_temp_parent_mark_def Let_def split: option.split)

text \<open>
  C34: A check of the pending paths loses none: each one that still resolves to its path is
  either still pending or watched now with its own options.
\<close>

theorem check_pending_keeps:
  assumes "check_pending w m = Some m'" and "(p, e) \<in> set (mo_pending m)"
    and "snd (resolve_recursion_check (w_fs w) (pe_path e)) = p"
  shows "(p, e) \<in> set (mo_pending m') \<or>
    p \<in> set (mo_paths m') \<and>
    (\<exists>opts. try_from_entry (w_parse_size w) e = Inr opts \<and> (p, opts) \<in> set (mo_entries m'))"
proof -
  have "mo_pending m \<noteq> []" using assms(2) by auto
  with assms(1) obtain still m1 where
    f: "fold_opt (try_pending w) (mo_pending m) ([], m\<lparr>mo_pending := []\<rparr>) = Some (still, m1)"
    and m': "m' = count_pending (setup_inotify_watches w
      (cleanup_temp_parent_marks w (m1\<lparr>mo_pending := still\<rparr>)))"
    by (auto simp: check_pending_def split: bind_splits)
  let ?s = "cleanup_temp_parent_marks w (m1\<lparr>mo_pending := still\<rparr>)"
  have c: "core m' = core ?s" by (simp add: m')
  have fields: "mo_paths m' = mo_paths m1" "mo_entries m' = mo_entries m1" "mo_pending m' = still"
    using core_fields [OF c] cleanup_frame [of w "m1\<lparr>mo_pending := still\<rparr>"]
    by (simp_all add: m' count_pending_def)
  have "resolved_entry w (p, e)" using assms(3) by (simp add: resolved_entry_def)
  with fold_try_pending [OF f] assms(2) have "(p, e) \<in> set still \<or> active_entry w m1 (p, e)" by blast
  then show ?thesis by (auto simp: active_entry_def fields)
qed

definition sample_pending_monitor :: monitor where
  "sample_pending_monitor = (the sample_monitor)\<lparr>mo_pending := [(sample_dir, sample_entry)]\<rparr>"

theorem check_pending_keeps_witness:
  "\<exists>m'. check_pending sample_world sample_pending_monitor = Some m' \<and>
     ((sample_dir, sample_entry) \<in> set (mo_pending m') \<or> sample_dir \<in> set (mo_paths m'))"
proof -
  obtain m where m: "sample_monitor = Some m" using sample_exists by blast
  have "monitor_ok sample_pending_monitor"
    unfolding sample_pending_monitor_def m option.sel monitor_ok_updates
    by (rule reach_ok [OF sample_reach [OF m]])
  then obtain m' where m': "check_pending sample_world sample_pending_monitor = Some m'"
    using check_pending_ok [of sample_pending_monitor sample_world] by (auto simp: returns_iff)
  have "snd (resolve_recursion_check (w_fs sample_world) (pe_path sample_entry)) = sample_dir"
    by (simp add: sample_entry_def sample_world_def sample_resolve)
  from check_pending_keeps [OF m' _ this] m' show ?thesis by (auto simp: sample_pending_monitor_def)
qed

section \<open>Queueing a path again\<close>

lemma parse_types_show [simp]: "parse_types (map show_event_type ts) = Inr ts"
proof (induction ts)
  case (Cons t ts)
  have "parse_event_type (show_event_type t) = Inr t" by (simp add: parse_event_type_upper)
  with Cons show ?case by simp
qed simp

text \<open>
  A watched entry that is queued because its directory vanished comes back with the options
  it had, provided the text written for its size filter is read back as that filter.
\<close>

theorem requeue_round_trip:
  assumes "\<And>f. po_size_filter opts = Some f \<Longrightarrow> w_parse_size w (size_text (w_show_size w f)) = Inr f"
    and "po_cmd opts \<noteq> Some CMD_GLOBAL"
  shows "try_from_entry (w_parse_size w) (entry_from_options w p opts) = Inr opts"
  using assms by (cases "po_size_filter opts"; cases "po_event_types opts"; cases "po_cmd opts")
    (simp_all add: try_from_entry_def entry_from_options_def entry_cmd_def)

theorem requeue_round_trip_witness:
  "try_from_entry (w_parse_size sample_world)
     (entry_from_options sample_world sample_dir
       (sample_opts\<lparr>po_size_filter := Some \<lparr>sf_op = SGe, sf_bytes = 7\<rparr>\<rparr>)) =
   Inr (sample_opts\<lparr>po_size_filter := Some \<lparr>sf_op = SGe, sf_bytes = 7\<rparr>\<rparr>)"
  by (rule requeue_round_trip) (simp_all add: sample_world_def sample_opts_def)

section \<open>Reader supervision\<close>

text \<open>The deaths of one reader at the given instants, each answered by a restart attempt.\<close>

fun deaths :: "world \<Rightarrow> nat \<Rightarrow> nat list \<Rightarrow> monitor \<Rightarrow> monitor option" where
  "deaths w k [] m = Some m"
| "deaths w k (t # ts) m =
     (case restart_reader (w\<lparr>w_now := t\<rparr>) k m of None \<Rightarrow> None | Some m' \<Rightarrow> deaths w k ts m')"

definition spawns :: "nat \<Rightarrow> monitor \<Rightarrow> nat" where
  "spawns k m = length (filter (\<lambda>a. a = SpawnReader k) (mo_trace m))"

definition can_spawn :: "world \<Rightarrow> nat \<Rightarrow> monitor \<Rightarrow> bool" where
  "can_spawn w k m \<longleftrightarrow> mo_event_tx m \<and> mo_shared_cache m \<and> map_of (mo_groups m) k \<noteq> None \<and> w_dup w k"

lemma restart_spawns:
  assumes "can_spawn w k m" and "map_of (mo_readers m) k = Some s" and "\<not> gives_up w (Some s)"
  shows "\<exists>m'. restart_reader w k m = Some m' \<and> spawns k m' = Suc (spawns k m) \<and> can_spawn w' k m' = can_spawn w' k m \<and>
    map_of (mo_readers m') k = Some (spawned_state w (Some s))"
  using assms
  by (auto simp: restart_reader_def spawn_fd_reader_def can_spawn_def spawns_def log_action_def al_get_put Let_def)

lemma restart_gives_up:
  assumes "map_of (mo_readers m) k = Some s" and "gives_up w (Some s)"
  shows "\<exists>m'. restart_reader w k m = Some m' \<and> spawns k m' = spawns k m \<and> can_spawn w' k m' = can_spawn w' k m \<and>
    map_of (mo_readers m') k = Some (s\<lparr>rs_gave_up := True\<rparr>)"
  using assms by (auto simp: restart_reader_def can_spawn_def spawns_def al_get_put Let_def)

lemma deaths_within_window:
  assumes "can_spawn w k m" and "map_of (mo_readers m) k = Some s"
    and "1 \<le> unat (rs_restart_count s)" "unat (rs_restart_count s) \<le> 3" and "t0 \<le> rs_last_restart s"
    and "\<forall>t \<in> set ts. t0 \<le> t \<and> t < t0 + BACKOFF_WINDOW"
    and "rs_gave_up s \<longrightarrow> unat (rs_restart_count s) = 3"
  shows "\<exists>m' s'. deaths w k ts m = Some m' \<and> map_of (mo_readers m') k = Some s' \<and>
    spawns k m' = spawns k m + min (length ts) (3 - unat (rs_restart_count s)) \<and>
    (rs_gave_up s' \<longleftrightarrow> rs_gave_up s \<or> 3 - unat (rs_restart_count s) < length ts)"
  using assms
proof (induction ts arbitrary: m s)
  case Nil
  then show ?case by simp
next
  case (Cons t ts)
  let ?w = "w\<lparr>w_now := t\<rparr>"
  have win: "t - rs_last_restart s < BACKOFF_WINDOW" using Cons.prems(5,6) by auto
  have three: "(3 :: u32) \<le> rs_restart_count s \<longleftrightarrow> 3 \<le> unat (rs_restart_count s)"
    by (simp add: word_le_nat_alt)
  have can: "can_spawn ?w k m = can_spawn w k m" for m by (simp add: can_spawn_def)
  show ?case
  proof (cases "unat (rs_restart_count s) = 3")
    case True
    then have "gives_up ?w (Some s)" using win three by (simp add: gives_up_def MAX_RESTARTS_def)
    from restart_gives_up [OF Cons.prems(2) this, of w] obtain m1 where m1: "restart_reader ?w k m = Some m1"
      "spawns k m1 = spawns k m" "can_spawn w k m1 = can_spawn w k m"
      "map_of (mo_readers m1) k = Some (s\<lparr>rs_gave_up := True\<rparr>)" by blast
    show ?thesis
      using Cons.IH [OF _ m1(4)] Cons.prems m1 True by auto
  next
    case False
    then have lt: "unat (rs_restart_count s) < 3" using Cons.prems(4) by simp
    then have "\<not> gives_up ?w (Some s)" using three by (simp add: gives_up_def MAX_RESTARTS_def)
    from restart_spawns [OF _ Cons.prems(2) this, of w] Cons.prems(1) can obtain m1 where m1:
      "restart_reader ?w k m = Some m1" "spawns k m1 = Suc (spawns k m)" "can_spawn w k m1"
      "map_of (mo_readers m1) k = Some (spawned_state ?w (Some s))" by blast
    have c: "unat (rs_restart_count s + 1) = Suc (unat (rs_restart_count s))"
      using lt by (simp add: unat_word_ariths)
    have "\<not> rs_gave_up s" using Cons.prems(7) False by blast
    then show ?thesis
      using Cons.IH [OF m1(3,4)] Cons.prems lt m1 c by (auto simp: spawned_state_def)
  qed
qed

text \<open>
  C37: A reader that has just been started is restarted at most twice within one backoff window;
  the third death inside the window makes the supervisor give up, which the health report
  shows. A death later than the window after the last start is always answered by a restart,
  whatever happened before; and after three starts one single death inside the window of the
  last start is enough to give up, since the count never goes back.
\<close>

theorem reader_restarts_bounded:
  assumes "can_spawn w k m"
    and "map_of (mo_readers m) k = Some \<lparr>rs_restart_count = n, rs_last_restart = t0, rs_gave_up = False\<rparr>"
  shows "(n = 1 \<and> (\<forall>t \<in> set ts. t0 \<le> t \<and> t < t0 + BACKOFF_WINDOW) \<longrightarrow>
      (\<exists>m' s. deaths w k ts m = Some m' \<and> map_of (mo_readers m') k = Some s \<and>
         spawns k m' = spawns k m + min (length ts) 2 \<and> (rs_gave_up s \<longleftrightarrow> 2 < length ts))) \<and>
    (t0 + BACKOFF_WINDOW \<le> t \<longrightarrow>
      (\<exists>m'. deaths w k [t] m = Some m' \<and> spawns k m' = Suc (spawns k m))) \<and>
    (3 \<le> n \<and> t0 \<le> t \<and> t < t0 + BACKOFF_WINDOW \<longrightarrow>
      (\<exists>m'. deaths w k [t] m = Some m' \<and> spawns k m' = spawns k m))"
proof (intro conjI impI)
  assume "n = 1 \<and> (\<forall>t \<in> set ts. t0 \<le> t \<and> t < t0 + BACKOFF_WINDOW)"
  then show "\<exists>m' s. deaths w k ts m = Some m' \<and> map_of (mo_readers m') k = Some s \<and>
      spawns k m' = spawns k m + min (length ts) 2 \<and> (rs_gave_up s \<longleftrightarrow> 2 < length ts)"
    using deaths_within_window [OF assms, of t0 ts] by auto
next
  assume t: "t0 + BACKOFF_WINDOW \<le> t"
  let ?s = "\<lparr>rs_restart_count = n, rs_last_restart = t0, rs_gave_up = False\<rparr>"
  have "\<not> gives_up (w\<lparr>w_now := t\<rparr>) (Some ?s)" using t by (auto simp: gives_up_def)
  moreover have "can_spawn (w\<lparr>w_now := t\<rparr>) k m" using assms(1) by (simp add: can_spawn_def)
  ultimately obtain m' where "restart_reader (w\<lparr>w_now := t\<rparr>) k m = Some m'" "spawns k m' = Suc (spawns k m)"
    using restart_spawns [of "w\<lparr>w_now := t\<rparr>" k m ?s w] assms(2) by blast
  then show "\<exists>m'. deaths w k [t] m = Some m' \<and> spawns k m' = Suc (spawns k m)" by simp
next
  assume t: "3 \<le> n \<and> t0 \<le> t \<and> t < t0 + BACKOFF_WINDOW"
  let ?s = "\<lparr>rs_restart_count = n, rs_last_restart = t0, rs_gave_up = False\<rparr>"
  have "gives_up (w\<lparr>w_now := t\<rparr>) (Some ?s)" using t by (auto simp: gives_up_def MAX_RESTARTS_def)
  from restart_gives_up [OF assms(2) this, of w] obtain m' where
    "restart_reader (w\<lparr>w_now := t\<rparr>) k m = Some m'" "spawns k m' = spawns k m" by blast
  then show "\<exists>m'. deaths w k [t] m = Some m' \<and> spawns k m' = spawns k m" by simp
qed

theorem reader_restarts_bounded_witness:
  "\<exists>m m'. sample_monitor = Some m \<and> deaths sample_world 0 [10, 20, 30] m = Some m' \<and>
     spawns 0 m' = spawns 0 m + 2"
proof -
  obtain m where m: "sample_monitor = Some m" using sample_exists by blast
  have "can_spawn sample_world 0 m"
    by (simp add: can_spawn_def sample_facts [OF m] sample_world_def)
  moreover have "map_of (mo_readers m) 0 = Some \<lparr>rs_restart_count = 1, rs_last_restart = 0, rs_gave_up = False\<rparr>"
    by (simp add: sample_facts [OF m])
  ultimately have "\<exists>m' s. deaths sample_world 0 [10, 20, 30] m = Some m' \<and>
      map_of (mo_readers m') 0 = Some s \<and> spawns 0 m' = spawns 0 m + min (length [10::nat, 20, 30]) 2 \<and>
      (rs_gave_up s \<longleftrightarrow> 2 < length [10::nat, 20, 30])"
    using reader_restarts_bounded [of sample_world 0 m 1 0 "[10, 20, 30]" 0] by (simp add: BACKOFF_WINDOW_def)
  with m show ?thesis by auto
qed

section \<open>The directory cache at start-up\<close>

text \<open>An action of the start that leaves the cache alone.\<close>

definition uncached :: "mark_action \<Rightarrow> bool" where
  "uncached a = (case a of MarkTree _ _ _ _ cached \<Rightarrow> \<not> cached | CacheDir _ \<Rightarrow> False | _ \<Rightarrow> True)"

definition cold :: "monitor \<Rightarrow> bool" where
  "cold m \<longleftrightarrow> \<not> mo_shared_cache m \<and> list_all uncached (mo_trace m)"

lemma cold_updates [simp]:
  "cold (m\<lparr>mo_groups := g\<rparr>) = cold m" "cold (m\<lparr>mo_path_to_group := pg\<rparr>) = cold m"
  "cold (m\<lparr>mo_watches := ws\<rparr>) = cold m" "cold (m\<lparr>mo_paths := ps\<rparr>) = cold m"
  "cold (m\<lparr>mo_inotify := b\<rparr>) = cold m"
  "cold (log_action a m) \<longleftrightarrow> cold m \<and> uncached a"
  by (auto simp: cold_def log_action_def)

lemma cold_mark_first: "cold m \<Longrightarrow> cold (mark_first w k b c opts m)"
  by (auto simp: mark_first_def mark_tree_def cold_def log_action_def uncached_def split: option.split)

lemma cold_init_group:
  assumes "cold (snd st)" and "init_group w b ic st = Some st'"
  shows "cold (snd st')"
proof -
  obtain i c devs m where eq: "ic = (i, c)" "st = (devs, m)" by (cases ic; cases st) auto
  have map: "cold m2" if "map_path i k m1 = Some m2" "cold m1" for k m1 m2
    using that by (auto simp: map_path_def split: if_splits)
  have grp: "cold m1" if "create_group w d b c m = (r, m1)" for d r m1
    using that assms(1) eq by (auto simp: create_group_def Let_def uncached_def split: if_splits)
  have ins: "cold (insert_group d m1)" if "cold m1" for d m1
    using that by (simp add: insert_group_def cold_def)
  show ?thesis
    using assms unfolding eq init_group_def
    by (auto simp: Let_def uncached_def split: option.splits if_splits bind_splits sum.splits prod.splits
        intro!: cold_mark_first ins dest!: map grp)
qed

lemma cold_fold_init_group:
  "fold_opt (init_group w b) xs st = Some st' \<Longrightarrow> cold (snd st) \<Longrightarrow> cold (snd st')"
  by (induction xs arbitrary: st) (auto split: option.splits dest: cold_init_group)

lemma cold_add_watch_once: "cold m \<Longrightarrow> cold (add_watch_once w p kd m)"
  by (auto simp: add_watch_once_def add_watch_def uncached_def split: option.split)

lemma cold_setup: "cold m \<Longrightarrow> cold (setup_inotify_watches w m)"
  unfolding setup_inotify_watches_def Let_def
  by (auto intro!: fold_preserves [of cold] cold_add_watch_once split: option.splits)

lemma cache_root_fold:
  assumes "\<And>ic. ic \<in> set ics \<Longrightarrow> fst ic < length cs \<and> cs ! fst ic = snd ic"
    and "mo_paths m0 = mo_paths m" "mo_entries m0 = mo_entries m"
  shows "\<forall>a \<in> set (mo_trace (fold (cache_root w) ics m)). a \<in> set (mo_trace m) \<or>
    (\<exists>i < length cs. a = CacheDir (cs ! i) \<and> (\<forall>o'. option_at m0 i = Some o' \<longrightarrow> \<not> po_recursive o'))"
  using assms
proof (induction ics arbitrary: m)
  case Nil
  then show ?case by simp
next
  case (Cons ic ics)
  obtain i c where ic: "ic = (i, c)" by (cases ic)
  have c: "i < length cs" "cs ! i = c" using Cons.prems(1) [of ic] ic by auto
  let ?m = "cache_root w ic m"
  have core: "core ?m = core m" by (simp add: cache_root_def ic split: option.split)
  have "option_at m0 i = option_at m i" using Cons.prems(2,3) by (simp add: option_at_def)
  then have new: "a \<in> set (mo_trace m) \<or>
      a = CacheDir (cs ! i) \<and> (\<forall>o'. option_at m0 i = Some o' \<longrightarrow> \<not> po_recursive o')"
    if "a \<in> set (mo_trace ?m)" for a
    using that c by (auto simp: cache_root_def ic log_action_def split: if_splits option.splits)
  have "\<forall>a \<in> set (mo_trace (fold (cache_root w) ics ?m)). a \<in> set (mo_trace ?m) \<or>
    (\<exists>i < length cs. a = CacheDir (cs ! i) \<and> (\<forall>o'. option_at m0 i = Some o' \<longrightarrow> \<not> po_recursive o'))"
    using Cons.prems core_fields [OF core] by (intro Cons.IH) auto
  then show ?case using new c(1) by fastforce
qed

text \<open>
  At start-up no walk of a recursively watched root fills the directory cache: the shared
  cache is handed to the walks only later, so every walk is asked for without it, and only
  roots whose first entry is not recursive are cached on their own.
\<close>

theorem start_walks_uncached:
  assumes "init_fanotify w m = Some (Inr n, m')" and "\<not> mo_shared_cache m" and "mo_trace m = []"
  shows "\<forall>a \<in> set (mo_trace m'). uncached a \<or>
    (\<exists>i < length (mo_canonical m'). a = CacheDir (mo_canonical m' ! i) \<and>
       (\<forall>opts. option_at m' i = Some opts \<longrightarrow> \<not> po_recursive opts))"
proof -
  obtain keep m1 where f: "fold (init_path w) (mo_paths m) ([], m) = (keep, m1)"
    by (cases "fold (init_path w) (mo_paths m) ([], m)")
  have "cold (snd (fold (init_path w) (mo_paths m) ([], m)))"
    by (rule fold_preserves [of "\<lambda>st. cold (snd st)"])
      (use assms(2,3) in \<open>auto simp: cold_def init_path_def split: prod.splits\<close>)
  then have c1: "cold m1" by (simp add: f)
  define m3 where "m3 = setup_inotify_watches w (m1\<lparr>mo_paths := keep, mo_inotify := True\<rparr>)"
  have c3: "cold m3" unfolding m3_def by (rule cold_setup) (use c1 in simp)
  from assms(1) obtain devs m4 where
    g: "fold_opt (init_group w (entries_mask (w_fan w) (mo_entries m))) (List.enumerate 0 (mo_canonical m3)) ([], m3) =
      Some (devs, m4)"
    and m': "m' = (if mo_groups m4 \<noteq> [] then fold (cache_root w) (List.enumerate 0 (mo_canonical m4)) m4 else m4)"
    unfolding init_fanotify_def f Let_def prod.case m3_def [symmetric]
    by (auto split: if_splits bind_splits)
  have c4: "cold m4" using cold_fold_init_group [OF g] c3 by simp
  show ?thesis
  proof (cases "mo_groups m4 = []")
    case True
    then show ?thesis using m' c4 by (auto simp: cold_def list_all_iff)
  next
    case False
    have core: "core m' = core m4" using m' False by (simp add: cache_root_core)
    have "\<forall>a \<in> set (mo_trace m'). a \<in> set (mo_trace m4) \<or>
      (\<exists>i < length (mo_canonical m4). a = CacheDir (mo_canonical m4 ! i) \<and>
        (\<forall>o'. option_at m' i = Some o' \<longrightarrow> \<not> po_recursive o'))"
      unfolding m' if_P [OF False] using core_fields [OF core [unfolded m' if_P [OF False]]]
      by (intro cache_root_fold) (auto simp: in_set_enumerate_eq)
    moreover have "mo_canonical m' = mo_canonical m4" using core_fields [OF core] by simp
    ultimately show ?thesis using c4 by (auto simp: cold_def list_all_iff)
  qed
qed

theorem start_walks_uncached_witness:
  "\<exists>m0 m. sample_new = Some m0 \<and> sample_init = Some m \<and> list_all uncached (mo_trace m) \<and>
     MarkTree 0 0x48000100 sample_dir None False \<in> set (mo_trace m)"
proof -
  obtain m where m: "sample_init = Some m" using sample_init_eq by blast
  then obtain m0 n where new: "sample_new = Some m0"
    and run: "init_fanotify sample_world (m0\<lparr>mo_factory := True, mo_privileged := True\<rparr>) = Some (Inr n, m)"
    by (auto simp: sample_init_def split: option.splits sum.splits)
  let ?m0 = "m0\<lparr>mo_factory := True, mo_privileged := True\<rparr>"
  have f: "\<not> mo_shared_cache ?m0" "mo_trace ?m0 = []" using new by (auto simp: sample_new_eq)
  have e: "mo_trace m = [AddWatch sample_dir WatchRoot, NewGroup 0 True 0x48000100 sample_dir,
      MarkTree 0 0x48000100 sample_dir None False]" using m by (auto simp: sample_init_eq)
  have "MarkTree 0 0x48000100 sample_dir None False \<in> set (mo_trace m)" by (simp add: e)
  with start_walks_uncached [OF run f] have "uncached (MarkTree 0 0x48000100 sample_dir None False)" by blast
  with m e new show ?thesis by (auto simp: uncached_def)
qed

end
