(* ===== verification/Cli_Props.thy ===== *)
theory Cli_Props
  imports Cli Monitor_Props
begin

text \<open>
  What the commands promise: the store after \<^verbatim>\<open>fsmon add\<close> and \<^verbatim>\<open>fsmon remove\<close>, what the daemon is
  told, how a refused entry is taken back, when the listing panics and when the daemon starts.
\<close>

section \<open>Saving and reading back\<close>

lemma read_store_groups:
  assumes "read_store env sp fl = Inr store"
  shows "list_all (\<lambda>g. cg_paths g \<noteq> []) store"
  using assms
  by (auto simp: read_store_def load_store_def validate_def list_all_iff split: option.splits sum.splits if_splits)

lemma save_then_read:
  assumes "with_extension sp ''tmp'' \<noteq> sp" and "cl_readable env"
    and "json_round_trip (cl_to_json env) (cl_from_json env) gs" and "list_all (\<lambda>g. cg_paths g \<noteq> []) gs"
    and "save_store (cl_to_json env) se sp gs fl = (Inr (), fl')"
  shows "read_store env sp fl' = Inr gs"
proof -
  have saved: "fl' sp = Some (store_text (cl_to_json env) gs)"
    and loaded: "load_store (cl_from_json env) (Some (fl' sp)) = Inr gs"
    using save_then_load [OF assms(1,3,4,5)] by blast+
  show ?thesis using loaded unfolding saved by (simp add: read_store_def saved assms(2))
qed

lemma failed_save_keeps:
  assumes "with_extension sp ''tmp'' \<noteq> sp" and "save_store to_json se sp gs fl = (Inl e, fl')"
  shows "fl' sp = fl sp"
proof -
  let ?tmp = "with_extension sp ''tmp''"
  obtain err fw where w: "write_groups to_json (sv_write_ok se) ?tmp 0 gs (fl(?tmp \<mapsto> [])) = (err, fw)"
    by (cases "write_groups to_json (sv_write_ok se) ?tmp 0 gs (fl(?tmp \<mapsto> []))")
  have "fw sp = fl sp" using write_groups_other [OF not_sym [OF assms(1)] w] assms(1) by simp
  then show ?thesis using assms w by (auto simp: save_store_def Let_def split: if_splits option.splits)
qed

lemma add_entry_nonempty:
  "list_all (\<lambda>g. cg_paths g \<noteq> []) gs \<Longrightarrow> list_all (\<lambda>g. cg_paths g \<noteq> []) (add_entry e gs)"
  by (simp add: add_entry_def nonempty_insert)

lemma remove_entry_nonempty: "list_all (\<lambda>g. cg_paths g \<noteq> []) (snd (remove_entry p cmd gs))"
  by (simp add: remove_entry_def Let_def list_all_iff)

lemma lookup_add_entry:
  "lookup_params (add_entry e gs) c p =
     (if c = cmd_or_global (pe_cmd e) \<and> p = pe_path e then Some (params_of_entry e) else lookup_params gs c p)"
  by (simp add: add_entry_def lookup_insert)

section \<open>A user for the witnesses\<close>

definition sample_args :: add_args where
  "sample_args = \<lparr>aa_cmd = Some ''vim'', aa_path = Some [RootDir, Normal ''srv''], aa_recursive = False,
     aa_types = [], aa_size = Some ''x'', aa_max_depth = None\<rparr>"

definition new_group :: cmd_group where
  "new_group = \<lparr>cg_cmd = ''vim'', cg_paths = [([RootDir, Normal ''srv''],
     \<lparr>pp_recursive = Some False, pp_types = None, pp_size = Some ''x'', pp_max_depth = None\<rparr>)]\<rparr>"

definition old_group :: cmd_group where
  "old_group = \<lparr>cg_cmd = ''vim'', cg_paths = [([RootDir, Normal ''srv''],
     \<lparr>pp_recursive = Some True, pp_types = Some [''CREATE'', ''DELETE'', ''MODIFY'', ''ATTRIB''],
      pp_size = None, pp_max_depth = None\<rparr>)]\<rparr>"

definition sample_cli :: "reply \<Rightarrow> cli_env" where
  "sample_cli reply =
     \<lparr>cl_identity = \<lparr>ie_var = \<lambda>_. None, ie_parse_u32 = \<lambda>_. None, ie_user = \<lambda>_. None,
        ie_loginuid_text = None, ie_owner = \<lambda>_. None, ie_euid = 1000, ie_egid = 1000\<rparr>,
      cl_from_toml = Inl, cl_config_file = None,
      cl_fs = \<lparr>fs_exists = \<lambda>_. True, fs_is_dir = \<lambda>_. True, fs_canonicalize = Some, fs_is_symlink = \<lambda>_. None,
        fs_dev = \<lambda>_. None, fs_open_dir = \<lambda>_. True, fs_home = None\<rparr>,
      cl_clean = \<lambda>p. p, cl_cwd = None, cl_mkdir_ok = True, cl_readable = True,
      cl_from_json = \<lambda>s. if s = ''{n}'' then Some new_group else if s = ''{o}'' then Some old_group else None,
      cl_to_json = \<lambda>g. Some (if g = new_group then ''{n}'' else ''{o}''),
      cl_save = \<lambda>_. \<lparr>sv_mkdir_ok = True, sv_create_ok = True, sv_write_ok = \<lambda>_. True, sv_sync_ok = True,
        sv_rename_ok = True\<rparr>,
      cl_send = \<lambda>_. reply, cl_overflow_checks = True\<rparr>"

definition no_options :: "nat option \<Rightarrow> daemon_options" where
  "no_options file_size_capacity =
     \<lparr>do_debug = False,
      do_cli_cache = \<lparr>co_dir_capacity = None, co_dir_ttl_secs = None, co_file_size_capacity = file_size_capacity,
        co_proc_ttl_secs = None, co_buffer_size = None, co_channel_capacity = None, co_subscribe_buf = None\<rparr>,
      do_disk_min_free = None, do_local_time = False, do_metrics_interval = None, do_watchdog_interval = None,
      do_watchdog_multiplier = None\<rparr>"

definition sample_store :: path where
  "sample_store = path_of ''/root/.local/share/fsmon/monitored.jsonl''"

definition old_file :: files where
  "old_file = (\<lambda>p. if p = sample_store then Some (''{o}'' @ [NL]) else None)"

definition sample_added :: path_entry where
  "sample_added = \<lparr>pe_cmd = Some ''vim'', pe_path = [RootDir, Normal ''srv''], pe_recursive = Some False,
     pe_types = None, pe_size = Some ''x'', pe_max_depth = None, pe_symlink_target = None\<rparr>"

lemma sample_config_cli: "cli_config (sample_cli r) = Inr (resolve_paths ''/root'' default_config)"
  by (simp add: cli_config_def sample_cli_def load_config_def guess_home_def sudo_uid_def home_var_def)

lemma sample_prepared:
  "prepare_add (sample_cli r) sample_args old_file = Inr (sample_store, [old_group], sample_added)"
  "with_extension sample_store ''tmp'' \<noteq> sample_store"
  "cl_readable (sample_cli r)"
  "add_entry sample_added [old_group] = [new_group]"
  "json_round_trip (cl_to_json (sample_cli r)) (cl_from_json (sample_cli r)) [new_group]"
  "json_round_trip (cl_to_json (sample_cli r)) (cl_from_json (sample_cli r))
     (snd (remove_entry (pe_path sample_added) (pe_cmd sample_added) (add_entry sample_added [old_group])))"
  by code_simp+

section \<open>Adding\<close>

lemma prepare_addD:
  assumes "prepare_add env args fl = Inr (sp, store, e)"
  shows "read_store env sp fl = Inr store" and "pe_cmd e = aa_cmd args" and "pe_cmd e \<noteq> None"
    and "pe_size e = aa_size args" and "pe_recursive e = Some (aa_recursive args)"
    and "pe_max_depth e = aa_max_depth args"
  using assms
  by (auto simp: prepare_add_def split: sum.splits option.splits if_splits)

text \<open>
  C17: fsmon add writes the store before it tells the daemon. When saving fails, that is its error,
  the store file is as before and nothing has been sent. When it succeeds, the daemon has been sent
  one request with the path and parameters of the new entry, and whatever is reported as added is
  in the store file: exactly the old store with the new entry, which has the process, size, depth
  and recursion that were asked for.
\<close>

theorem add_command_effect:
  assumes "prepare_add env args fl = Inr (sp, store, e)"
    and "with_extension sp ''tmp'' \<noteq> sp" and "cl_readable env"
    and "json_round_trip (cl_to_json env) (cl_from_json env) (add_entry e store)"
    and "cmd_add env args fl = (r, fl', sent)"
  shows "(case save_store (cl_to_json env) (cl_save env 0) sp (add_entry e store) fl of
            (Inl err, fl1) \<Rightarrow> r = Inl (SaveFailed err) \<and> fl' = fl1 \<and> fl' sp = fl sp \<and> sent = []
          | (Inr _, fl1) \<Rightarrow> sent = [add_request e] \<and> read_store env sp fl1 = Inr (add_entry e store)) \<and>
         (r = Inr Added \<or> (\<exists>resp. r = Inr (AddedOddReply resp)) \<longrightarrow>
            read_store env sp fl' = Inr (add_entry e store) \<and> sent = [add_request e]) \<and>
         (sent = [] \<longrightarrow> (\<exists>err. r = Inl (SaveFailed err)) \<and> fl' sp = fl sp) \<and>
         pe_cmd e = aa_cmd args \<and> pe_size e = aa_size args \<and>
         pe_recursive e = Some (aa_recursive args) \<and> pe_max_depth e = aa_max_depth args"
proof -
  note entry = prepare_addD(2,4-6) [OF assms(1)]
  obtain s fl1 where sv: "save_store (cl_to_json env) (cl_save env 0) sp (add_entry e store) fl = (s, fl1)"
    by (cases "save_store (cl_to_json env) (cl_save env 0) sp (add_entry e store) fl")
  show ?thesis
  proof (cases s)
    case (Inl err)
    then have "fl1 sp = fl sp" using failed_save_keeps [OF assms(2)] sv by blast
    with assms(1,5) sv Inl entry show ?thesis by (auto simp: cmd_add_def)
  next
    case (Inr u)
    have "list_all (\<lambda>g. cg_paths g \<noteq> []) (add_entry e store)"
      using add_entry_nonempty read_store_groups prepare_addD(1) [OF assms(1)] by blast
    then have "read_store env sp fl1 = Inr (add_entry e store)"
      using save_then_read [OF assms(2-4)] sv Inr by simp
    with assms(1,5) sv Inr entry show ?thesis
      by (auto simp: cmd_add_def undo_add_def Let_def
          split: sum.splits socket_error.splits socket_response.splits prod.splits)
  qed
qed

text \<open>One run that succeeds, and one whose disk is full.\<close>

definition full_disk_cli :: cli_env where
  "full_disk_cli = (sample_cli (Inr RespOk))\<lparr>cl_save := \<lambda>_. \<lparr>sv_mkdir_ok = True, sv_create_ok = True,
     sv_write_ok = \<lambda>_. False, sv_sync_ok = True, sv_rename_ok = True\<rparr>\<rparr>"

lemma full_disk_prepared:
  "prepare_add full_disk_cli sample_args old_file = Inr (sample_store, [old_group], sample_added)"
  "cl_readable full_disk_cli"
  "json_round_trip (cl_to_json full_disk_cli) (cl_from_json full_disk_cli) (add_entry sample_added [old_group])"
  "fst (save_store (cl_to_json full_disk_cli) (cl_save full_disk_cli 0) sample_store
     (add_entry sample_added [old_group]) old_file) = Inl WriteFailed"
  by code_simp+

theorem add_command_effect_witness:
  "read_store (sample_cli (Inr RespOk)) sample_store (fst (snd (cmd_add (sample_cli (Inr RespOk)) sample_args old_file)))
     = Inr [new_group] \<and>
   snd (snd (cmd_add (sample_cli (Inr RespOk)) sample_args old_file)) =
     [Add [RootDir, Normal ''srv''] (Some False) None (Some ''x'') (Some ''vim'') None] \<and>
   fst (cmd_add full_disk_cli sample_args old_file) = Inl (SaveFailed WriteFailed) \<and>
   snd (snd (cmd_add full_disk_cli sample_args old_file)) = []"
proof -
  let ?env = "sample_cli (Inr RespOk)"
  have split: "cmd_add env args fl =
      (fst (cmd_add env args fl), fst (snd (cmd_add env args fl)), snd (snd (cmd_add env args fl)))" for env args fl
    by simp
  have "fst (cmd_add ?env sample_args old_file) = Inr Added" by code_simp
  then have run: "cmd_add ?env sample_args old_file =
      (Inr Added, fst (snd (cmd_add ?env sample_args old_file)), snd (snd (cmd_add ?env sample_args old_file)))"
    by (simp add: prod_eq_iff)
  have "json_round_trip (cl_to_json ?env) (cl_from_json ?env) (add_entry sample_added [old_group])"
    using sample_prepared(4,5) by simp
  note effect = add_command_effect [OF sample_prepared(1-3) this run]
  have req: "add_request sample_added = Add [RootDir, Normal ''srv''] (Some False) None (Some ''x'') (Some ''vim'') None"
    by code_simp
  note failed = conjunct1 [OF add_command_effect [OF full_disk_prepared(1) sample_prepared(2) full_disk_prepared(2,3) split]]
  obtain fl1 where "save_store (cl_to_json full_disk_cli) (cl_save full_disk_cli 0) sample_store
      (add_entry sample_added [old_group]) old_file = (Inl WriteFailed, fl1)"
    using full_disk_prepared(4) by (metis prod.collapse)
  with failed have "fst (cmd_add full_disk_cli sample_args old_file) = Inl (SaveFailed WriteFailed)"
    "snd (snd (cmd_add full_disk_cli sample_args old_file)) = []" by simp_all
  moreover have "read_store ?env sample_store (fst (snd (cmd_add ?env sample_args old_file))) = Inr [new_group]"
    "snd (snd (cmd_add ?env sample_args old_file)) = [add_request sample_added]"
    using effect unfolding sample_prepared(4) by simp_all
  ultimately show ?thesis unfolding req by blast
qed

text \<open>
  C31: when the daemon refuses an entry for good, fsmon add takes it out of the store again. It does
  not put back what the entry had replaced: whatever the store said before about that path and
  process is gone, all other entries are as they were.
\<close>

theorem rejected_add_forgets_entry:
  assumes "prepare_add env args fl = Inr (sp, store, e)"
    and "with_extension sp ''tmp'' \<noteq> sp" and "cl_readable env"
    and "json_round_trip (cl_to_json env) (cl_from_json env) (add_entry e store)"
    and "json_round_trip (cl_to_json env) (cl_from_json env)
           (snd (remove_entry (pe_path e) (pe_cmd e) (add_entry e store)))"
    and "cmd_add env args fl = (Inr (Rejected msg), fl', sent)"
  shows "cl_send env (add_request e) = Inl (Permanent msg) \<and>
    (\<exists>store'. read_store env sp fl' = Inr store' \<and>
       (\<forall>c p. lookup_params store' c p =
          (if c = cmd_or_global (pe_cmd e) \<and> p = pe_path e then None else lookup_params store c p)))"
proof -
  let ?add = "add_entry e store" and ?del = "snd (remove_entry (pe_path e) (pe_cmd e) (add_entry e store))"
  obtain s fl1 where sv: "save_store (cl_to_json env) (cl_save env 0) sp ?add fl = (s, fl1)"
    by (cases "save_store (cl_to_json env) (cl_save env 0) sp ?add fl")
  with assms(1,6) have s: "s = Inr ()" by (auto simp: cmd_add_def split: sum.splits)
  have "list_all (\<lambda>g. cg_paths g \<noteq> []) ?add"
    using add_entry_nonempty read_store_groups prepare_addD(1) [OF assms(1)] by blast
  then have rd: "read_store env sp fl1 = Inr ?add" using save_then_read [OF assms(2-4)] sv s by simp
  have snt: "cl_send env (add_request e) = Inl (Permanent msg)" and
    undo: "undo_add env sp e msg fl1 = (Inr (Rejected msg), fl')"
    using assms(1,6) sv s
    by (auto simp: cmd_add_def undo_add_def split: sum.splits socket_error.splits socket_response.splits prod.splits)
  from undo have "save_store (cl_to_json env) (cl_save env 1) sp ?del fl1 = (Inr (), fl')"
    by (auto simp: undo_add_def rd split: sum.splits prod.splits)
  then have "read_store env sp fl' = Inr ?del"
    using save_then_read [OF assms(2,3,5) remove_entry_nonempty] by blast
  moreover have "lookup_params ?del c p =
      (if c = cmd_or_global (pe_cmd e) \<and> p = pe_path e then None else lookup_params store c p)" for c p
    by (simp add: lookup_remove lookup_add_entry)
  ultimately show ?thesis using snt by blast
qed

theorem rejected_add_forgets_entry_witness:
  "read_store (sample_cli (Inl (Permanent ''no''))) sample_store old_file = Inr [old_group] \<and>
   (\<exists>store'. read_store (sample_cli (Inl (Permanent ''no''))) sample_store
        (fst (snd (cmd_add (sample_cli (Inl (Permanent ''no''))) sample_args old_file))) = Inr store' \<and>
      lookup_params store' ''vim'' [RootDir, Normal ''srv''] = None)"
proof -
  let ?env = "sample_cli (Inl (Permanent ''no''))"
  have "fst (cmd_add ?env sample_args old_file) = Inr (Rejected ''no'')" by code_simp
  then have run: "cmd_add ?env sample_args old_file = (Inr (Rejected ''no''),
      fst (snd (cmd_add ?env sample_args old_file)), snd (snd (cmd_add ?env sample_args old_file)))"
    by (simp add: prod_eq_iff)
  have j: "json_round_trip (cl_to_json ?env) (cl_from_json ?env) (add_entry sample_added [old_group])"
    using sample_prepared(4,5) by simp
  have before: "read_store ?env sample_store old_file = Inr [old_group]" by code_simp
  have key: "cmd_or_global (pe_cmd sample_added) = ''vim''" "pe_path sample_added = [RootDir, Normal ''srv'']"
    by (simp_all add: sample_added_def cmd_or_global_def)
  from rejected_add_forgets_entry [OF sample_prepared(1-3) j sample_prepared(6) run] before show ?thesis
    by (auto simp: key)
qed

section \<open>A size nobody has checked\<close>

lemma prepare_add_config:
  assumes "prepare_add env args fl = Inr (sp, store, e)"
  shows "\<exists>cfg. cli_config env = Inr cfg \<and> sp = cf_monitored_path cfg"
  using assms by (auto simp: prepare_add_def split: sum.splits option.splits if_splits)

lemma added_store:
  assumes "prepare_add env args fl = Inr (sp, store, e)"
    and "with_extension sp ''tmp'' \<noteq> sp" and "cl_readable env"
    and "json_round_trip (cl_to_json env) (cl_from_json env) (add_entry e store)"
    and "cmd_add env args fl = (Inr Added, fl', sent)"
  shows "read_store env sp fl' = Inr (add_entry e store)"
proof -
  obtain s fl1 where sv: "save_store (cl_to_json env) (cl_save env 0) sp (add_entry e store) fl = (s, fl1)"
    by (cases "save_store (cl_to_json env) (cl_save env 0) sp (add_entry e store) fl")
  with assms(1,5) have s: "s = Inr ()" by (auto simp: cmd_add_def split: sum.splits)
  have "fl' = fl1"
    using assms(1,5) sv s
    by (auto simp: cmd_add_def undo_add_def Let_def split: sum.splits socket_error.splits socket_response.splits prod.splits)
  moreover have "list_all (\<lambda>g. cg_paths g \<noteq> []) (add_entry e store)"
    using add_entry_nonempty read_store_groups prepare_addD(1) [OF assms(1)] by blast
  ultimately show ?thesis using save_then_read [OF assms(2-4)] sv s by simp
qed

lemma inserted_in_flatten:
  "entry_of fs c p v \<in> set (flatten fs (insert_in_group c p v gs))"
proof -
  have in_tree: "(p, v) \<in> set (bt_insert p v m)" for m :: "(path, path_params) btree"
    by (induction p v m rule: bt_insert.induct) auto
  have img: "entry_of fs c p v \<in> (\<lambda>(p, v). entry_of fs c p v) ` set (bt_insert p v m)" for m
    using in_tree by (rule rev_image_eqI) simp
  then show ?thesis
    by (induction c p v gs rule: insert_in_group.induct) (auto simp: flatten_def)
qed

lemma bad_entry_stops_parsing:
  "e \<in> set es \<Longrightarrow> try_from_entry parse_sf e = Inl err \<Longrightarrow> \<exists>err'. parse_path_entries parse_sf es = Inl err'"
  by (induction es) (auto split: sum.splits)

text \<open>Nothing that fsmon add checks depends on the size.\<close>

lemma prepare_add_size:
  assumes "prepare_add env (args\<lparr>aa_size := None\<rparr>) fl = Inr (sp, store, e)"
  shows "prepare_add env (args\<lparr>aa_size := sz\<rparr>) fl = Inr (sp, store, e\<lparr>pe_size := sz\<rparr>)"
  using assms by (auto simp: prepare_add_def split: sum.splits option.splits if_splits)

text \<open>
  C19: fsmon add checks the types of an entry but not its size. Take any entry it accepts, saves and
  sends without a size. With a size that cannot be parsed it is accepted as well, and when the answer
  of the daemon is a transient error, as it is with no daemon running, it is reported as added; from
  then on no daemon starts with that store: parsing the entries fails before the monitor is built.
\<close>

theorem unchecked_size_blocks_start:
  assumes "prepare_add env (args\<lparr>aa_size := None\<rparr>) fl = Inr (sp, store, e0)"
    and e: "e = e0\<lparr>pe_size := Some sz\<rparr>" and "w_parse_size w (size_text sz) = Inl m"
    and "with_extension sp ''tmp'' \<noteq> sp" and "cl_readable env"
    and "json_round_trip (cl_to_json env) (cl_from_json env) (add_entry e store)"
    and save: "save_store (cl_to_json env) (cl_save env 0) sp (add_entry e store) fl = (Inr (), fl')"
    and answer: "cl_send env (add_request e) = Inl (Transient text)"
  shows "cmd_add env (args\<lparr>aa_size := Some sz\<rparr>) fl = (Inr Added, fl', [add_request e]) \<and>
    (\<exists>err. cmd_daemon env w pid True True opts fl' = StartFailed (StartCli (BadPathEntry err)))"
proof -
  have prep: "prepare_add env (args\<lparr>aa_size := Some sz\<rparr>) fl = Inr (sp, store, e)"
    unfolding e by (rule prepare_add_size [OF assms(1)])
  have run: "cmd_add env (args\<lparr>aa_size := Some sz\<rparr>) fl = (Inr Added, fl', [add_request e])"
    by (simp add: cmd_add_def prep save answer)
  have rd: "read_store env sp fl' = Inr (add_entry e store)" by (rule added_store [OF prep assms(4-6) run])
  let ?e = "entry_of (cl_fs env) (cmd_or_global (pe_cmd e)) (pe_path e) (params_of_entry e)"
  have "?e \<in> set (flatten (cl_fs env) (add_entry e store))"
    unfolding add_entry_def by (rule inserted_in_flatten)
  moreover have "try_from_entry (w_parse_size w) ?e = Inl (SizeError m)"
    using assms(3) by (simp add: try_from_entry_def entry_of_def params_of_entry_def e)
  ultimately obtain err where
    "parse_path_entries (w_parse_size w) (flatten (cl_fs env) (add_entry e store)) = Inl err"
    using bad_entry_stops_parsing by blast
  moreover obtain cfg where "cli_config env = Inr cfg" "sp = cf_monitored_path cfg"
    using prepare_add_config [OF prep] by blast
  ultimately have "\<exists>err. cmd_daemon env w pid True True opts fl' = StartFailed (StartCli (BadPathEntry err))"
    using rd by (simp add: cmd_daemon_def Let_def)
  with run show ?thesis by blast
qed

theorem unchecked_size_blocks_start_witness:
  "\<exists>fl'. cmd_add (sample_cli (Inl (Transient []))) sample_args old_file = (Inr Added, fl', [add_request sample_added]) \<and>
     (\<exists>err. cmd_daemon (sample_cli (Inl (Transient []))) (sample_world\<lparr>w_parse_size := Inl\<rparr>) 7 True True
        (no_options None) fl' = StartFailed (StartCli (BadPathEntry err)))"
proof -
  let ?env = "sample_cli (Inl (Transient []))" and ?e = "sample_added\<lparr>pe_size := None\<rparr>"
  have prep: "prepare_add ?env (sample_args\<lparr>aa_size := None\<rparr>) old_file = Inr (sample_store, [old_group], ?e)"
    by code_simp
  have e: "sample_added = ?e\<lparr>pe_size := Some ''x''\<rparr>" and args: "sample_args\<lparr>aa_size := Some ''x''\<rparr> = sample_args"
    by (simp_all add: sample_added_def sample_args_def)
  have p: "w_parse_size (sample_world\<lparr>w_parse_size := Inl\<rparr>) (size_text ''x'') = Inl (size_text ''x'')" by simp
  have j: "json_round_trip (cl_to_json ?env) (cl_from_json ?env) (add_entry sample_added [old_group])"
    using sample_prepared(4,5) by simp
  have "fst (save_store (cl_to_json ?env) (cl_save ?env 0) sample_store (add_entry sample_added [old_group]) old_file) = Inr ()"
    by code_simp
  then obtain fl' where save: "save_store (cl_to_json ?env) (cl_save ?env 0) sample_store
      (add_entry sample_added [old_group]) old_file = (Inr (), fl')"
    by (metis prod.collapse)
  have answer: "cl_send ?env (add_request sample_added) = Inl (Transient [])" by (simp add: sample_cli_def)
  from unchecked_size_blocks_start [OF prep e p sample_prepared(2,3) j save answer, of 7 "no_options None"]
  show ?thesis unfolding args by blast
qed

section \<open>Removing\<close>

lemma fold_removes:
  "lookup_params (snd (fold (\<lambda>p (any, st). let (r, st1) = remove_entry p (Some cmd) st in (any \<or> r, st1)) ps (b, st))) c q =
     (if c = cmd \<and> q \<in> set ps then None else lookup_params st c q)"
proof (induction ps arbitrary: b st)
  case (Cons p ps)
  obtain r st1 where "remove_entry p (Some cmd) st = (r, st1)" by fastforce
  then show ?case
    using Cons.IH [of "b \<or> r" st1] lookup_remove [of p "Some cmd" st c q] by (auto simp: cmd_or_global_def)
qed simp

lemma fold_removes_nonempty:
  assumes "ps \<noteq> []"
  shows "list_all (\<lambda>g. cg_paths g \<noteq> [])
    (snd (fold (\<lambda>p (any, st). let (r, st1) = remove_entry p (Some cmd) st in (any \<or> r, st1)) ps (b, st)))"
  using assms
proof (induction ps arbitrary: b st)
  case (Cons p ps)
  obtain r st1 where "remove_entry p (Some cmd) st = (r, st1)" by fastforce
  then show ?case
    using Cons.IH [of "b \<or> r" st1] remove_entry_nonempty [of p "Some cmd" st] by (cases "ps = []") auto
qed simp

lemma remove_cmd_group_filter: "snd (remove_cmd_group cmd gs) = filter (\<lambda>g. cg_cmd g \<noteq> cmd_or_global cmd) gs"
  by (simp add: remove_cmd_group_def Let_def)

lemma lookup_filter_cmd:
  "lookup_params (filter (\<lambda>g. cg_cmd g \<noteq> cmd) gs) c p = (if c = cmd then None else lookup_params gs c p)"
  by (induction gs) (auto split: option.splits)

lemma edit_remove_lookup:
  assumes "edit_remove ps cmd st = Inr st'"
  shows "lookup_params st' c p = (if c = cmd \<and> (ps = [] \<or> p \<in> set ps) then None else lookup_params st c p)"
proof (cases "ps = []")
  case True
  with assms have "st' = filter (\<lambda>g. cg_cmd g \<noteq> cmd) st"
    using remove_cmd_group_filter [of "Some cmd" st]
    by (auto simp: edit_remove_def cmd_or_global_def split: prod.splits if_splits)
  with True show ?thesis by (simp add: lookup_filter_cmd)
next
  case False
  let ?f = "fold (\<lambda>p (any, st). let (r, st1) = remove_entry p (Some cmd) st in (any \<or> r, st1)) ps (False, st)"
  have "st' = snd ?f"
    using assms False by (auto simp: edit_remove_def Let_def split: option.splits prod.splits if_splits)
  then show ?thesis using fold_removes [of cmd ps False st c p] False by simp
qed

lemma edit_remove_nonempty:
  assumes "edit_remove ps cmd st = Inr st'" and "list_all (\<lambda>g. cg_paths g \<noteq> []) st"
  shows "list_all (\<lambda>g. cg_paths g \<noteq> []) st'"
proof (cases "ps = []")
  case True
  with assms show ?thesis
    using remove_cmd_group_filter [of "Some cmd" st]
    by (auto simp: edit_remove_def list_all_iff split: prod.splits if_splits)
next
  case False
  then have "st' = snd (fold (\<lambda>p (any, st). let (r, st1) = remove_entry p (Some cmd) st in (any \<or> r, st1)) ps (False, st))"
    using assms(1) by (auto simp: edit_remove_def Let_def split: option.splits prod.splits if_splits)
  then show ?thesis using fold_removes_nonempty [OF False] by simp
qed

text \<open>The store after a removal that succeeded.\<close>

lemma removed_store:
  assumes "cli_config env = Inr cfg" and "sp = cf_monitored_path cfg"
    and "read_store env sp fl = Inr store" and "with_extension sp ''tmp'' \<noteq> sp" and "cl_readable env"
    and "\<And>store'. edit_remove (map (resolve_path_arg env) raws) cmd store = Inr store' \<Longrightarrow>
           json_round_trip (cl_to_json env) (cl_from_json env) store'"
    and "cmd_remove env (Some cmd) raws fl = (Inr (), fl', sent)"
  shows "\<exists>store'. edit_remove (map (resolve_path_arg env) raws) cmd store = Inr store' \<and> read_store env sp fl' = Inr store' \<and>
    sent = send_removes (cl_send env) cmd (map (resolve_path_arg env) raws)"
proof -
  let ?ps = "map (resolve_path_arg env) raws"
  from assms(1-3,7) obtain store' where ed: "edit_remove ?ps cmd store = Inr store'"
    by (auto simp: cmd_remove_def Let_def split: sum.splits)
  obtain s fl1 where sv: "save_store (cl_to_json env) (cl_save env 0) sp store' fl = (s, fl1)"
    by (cases "save_store (cl_to_json env) (cl_save env 0) sp store' fl")
  from assms(1-3,7) ed sv have "s = Inr ()" "fl' = fl1" "sent = send_removes (cl_send env) cmd ?ps"
    by (auto simp: cmd_remove_def Let_def split: sum.splits)
  then show ?thesis
    using ed sv save_then_read [OF assms(4,5) assms(6) [OF ed] edit_remove_nonempty [OF ed read_store_groups [OF assms(3)]]]
    by simp
qed

text \<open>A path is told to the daemon exactly if the updates for all paths before it were accepted.\<close>

lemma send_removes_sent:
  "prefix (send_removes send cmd ps) (map (\<lambda>p. Remove p (Some cmd)) ps) \<and>
   (\<forall>q \<in> set (butlast (send_removes send cmd ps)). \<exists>resp. send q = Inr resp) \<and>
   (send_removes send cmd ps = map (\<lambda>p. Remove p (Some cmd)) ps \<or>
    send_removes send cmd ps \<noteq> [] \<and> (\<exists>err. send (last (send_removes send cmd ps)) = Inl err))"
proof (induction ps)
  case (Cons p ps)
  then show ?case by (cases "send (Remove p (Some cmd))") auto
qed simp

text \<open>
  C21: fsmon remove is all or nothing. On success the store file has lost the given paths of that
  process, or all of its paths when none was given, and nothing else; on failure the file is as it
  was and nothing has been sent. After success the daemon is told about the given paths one by one,
  in order, each exactly once, until it refuses one; so about none when the whole group is removed:
  it goes on monitoring them.
\<close>

theorem remove_command_effect:
  assumes "cli_config env = Inr cfg" and "sp = cf_monitored_path cfg"
    and "read_store env sp fl = Inr store" and "with_extension sp ''tmp'' \<noteq> sp" and "cl_readable env"
    and "\<And>store'. edit_remove (map (resolve_path_arg env) raws) cmd store = Inr store' \<Longrightarrow>
           json_round_trip (cl_to_json env) (cl_from_json env) store'"
    and "cmd_remove env (Some cmd) raws fl = (r, fl', sent)"
  shows "(r = Inr () \<longrightarrow> (\<exists>store'. read_store env sp fl' = Inr store' \<and>
            (\<forall>c p. lookup_params store' c p =
               (if c = cmd \<and> (raws = [] \<or> p \<in> resolve_path_arg env ` set raws) then None
                else lookup_params store c p)))) \<and>
         (r \<noteq> Inr () \<longrightarrow> fl' sp = fl sp \<and> sent = []) \<and>
         prefix sent (map (\<lambda>p. Remove (resolve_path_arg env p) (Some cmd)) raws) \<and>
         (r = Inr () \<longrightarrow>
            (\<forall>q \<in> set (butlast sent). \<exists>resp. cl_send env q = Inr resp) \<and>
            (sent = map (\<lambda>p. Remove (resolve_path_arg env p) (Some cmd)) raws \<or>
             sent \<noteq> [] \<and> (\<exists>err. cl_send env (last sent) = Inl err)))"
proof -
  let ?ps = "map (resolve_path_arg env) raws"
  show ?thesis
  proof (cases "edit_remove ?ps cmd store")
    case (Inl e)
    with assms(1-3,7) show ?thesis by (auto simp: cmd_remove_def Let_def)
  next
    case (Inr store')
    obtain s fl1 where sv: "save_store (cl_to_json env) (cl_save env 0) sp store' fl = (s, fl1)"
      by (cases "save_store (cl_to_json env) (cl_save env 0) sp store' fl")
    show ?thesis
    proof (cases s)
      case err: (Inl err)
      have "fl1 sp = fl sp" by (rule failed_save_keeps [OF assms(4)]) (use sv err in simp)
      with assms(1-3,7) Inr sv err show ?thesis by (auto simp: cmd_remove_def Let_def)
    next
      case ok: (Inr u)
      have res: "r = Inr ()" using assms(1-3,7) Inr sv ok by (auto simp: cmd_remove_def Let_def)
      from removed_store [OF assms(1-6) assms(7) [unfolded res]] Inr
      have rd: "read_store env sp fl' = Inr store'" and sent: "sent = send_removes (cl_send env) cmd ?ps"
        by auto
      have "lookup_params store' c p =
          (if c = cmd \<and> (raws = [] \<or> p \<in> resolve_path_arg env ` set raws) then None else lookup_params store c p)" for c p
        using edit_remove_lookup [OF Inr, of c p] by simp
      moreover have "map (\<lambda>p. Remove p (Some cmd)) ?ps = map (\<lambda>p. Remove (resolve_path_arg env p) (Some cmd)) raws"
        by simp
      note told = send_removes_sent [of "cl_send env" cmd ?ps, folded sent, unfolded this]
      ultimately show ?thesis using res rd told by blast
    qed
  qed
qed

text \<open>
  The whole group goes from the store, and the daemon hears nothing of it; a path that is given goes
  from both.
\<close>

theorem remove_command_effect_witness:
  "(\<exists>store'. read_store (sample_cli (Inr RespOk)) sample_store
      (fst (snd (cmd_remove (sample_cli (Inr RespOk)) (Some ''vim'') [] old_file))) = Inr store' \<and>
    lookup_params store' ''vim'' [RootDir, Normal ''srv''] = None \<and>
    snd (snd (cmd_remove (sample_cli (Inr RespOk)) (Some ''vim'') [] old_file)) = []) \<and>
   snd (snd (cmd_remove (sample_cli (Inr RespOk)) (Some ''vim'') [[RootDir, Normal ''srv'']] old_file)) =
     [Remove [RootDir, Normal ''srv''] (Some ''vim'')]"
proof -
  let ?env = "sample_cli (Inr RespOk)" and ?cfg = "resolve_paths ''/root'' default_config"
  have c: "cli_config ?env = Inr ?cfg" by (rule sample_config_cli)
  have sp: "sample_store = cf_monitored_path ?cfg" by code_simp
  have st: "read_store ?env sample_store old_file = Inr [old_group]" by code_simp
  have arg: "map (resolve_path_arg ?env) [[RootDir, Normal ''srv'']] = [[RootDir, Normal ''srv'']]"
    "resolve_path_arg ?env [RootDir, Normal ''srv''] = [RootDir, Normal ''srv'']" by code_simp+
  have "edit_remove [] ''vim'' [old_group] = Inr []"
    "edit_remove [[RootDir, Normal ''srv'']] ''vim'' [old_group] = Inr []" by code_simp+
  then have j: "edit_remove (map (resolve_path_arg ?env) []) ''vim'' [old_group] = Inr store' \<Longrightarrow>
        json_round_trip (cl_to_json ?env) (cl_from_json ?env) store'"
      "edit_remove (map (resolve_path_arg ?env) [[RootDir, Normal ''srv'']]) ''vim'' [old_group] = Inr store' \<Longrightarrow>
        json_round_trip (cl_to_json ?env) (cl_from_json ?env) store'" for store'
    by (simp_all add: arg json_round_trip_def)
  have "fst (cmd_remove ?env (Some ''vim'') [] old_file) = Inr ()"
    "fst (cmd_remove ?env (Some ''vim'') [[RootDir, Normal ''srv'']] old_file) = Inr ()" by code_simp+
  then have run: "cmd_remove ?env (Some ''vim'') [] old_file = (Inr (),
      fst (snd (cmd_remove ?env (Some ''vim'') [] old_file)), snd (snd (cmd_remove ?env (Some ''vim'') [] old_file)))"
    "cmd_remove ?env (Some ''vim'') [[RootDir, Normal ''srv'']] old_file = (Inr (),
      fst (snd (cmd_remove ?env (Some ''vim'') [[RootDir, Normal ''srv'']] old_file)),
      snd (snd (cmd_remove ?env (Some ''vim'') [[RootDir, Normal ''srv'']] old_file)))"
    by (simp_all add: prod_eq_iff)
  have accepted: "cl_send ?env q = Inr RespOk" for q by (simp add: sample_cli_def)
  have "\<exists>store'. read_store ?env sample_store (fst (snd (cmd_remove ?env (Some ''vim'') [] old_file))) = Inr store' \<and>
      lookup_params store' ''vim'' [RootDir, Normal ''srv''] = None \<and>
      snd (snd (cmd_remove ?env (Some ''vim'') [] old_file)) = []"
    using remove_command_effect [OF c sp st sample_prepared(2,3) j(1) run(1)] by auto
  moreover have "snd (snd (cmd_remove ?env (Some ''vim'') [[RootDir, Normal ''srv'']] old_file)) =
      [Remove [RootDir, Normal ''srv''] (Some ''vim'')]"
    using remove_command_effect [OF c sp st sample_prepared(2,3) j(2) run(2)] by (simp add: accepted arg(2))
  ultimately show ?thesis by blast
qed

section \<open>Listing\<close>

lemma types_text_panics: "types_text ts = None \<longleftrightarrow> length ts = 4"
  by (auto simp: types_text_def)

lemma path_line_panics: "path_line (p, v) = None \<longleftrightarrow> (\<exists>ts. pp_types v = Some ts \<and> length ts = 4)"
proof (cases "pp_types v")
  case (Some ts)
  then show ?thesis
    using types_text_panics [of ts] by (cases "types_text ts") (auto simp: path_line_def Let_def)
qed (simp add: path_line_def Let_def)

lemma map_lines_None: "map_lines f xs = None \<longleftrightarrow> (\<exists>x\<in>set xs. f x = None)"
  by (induction xs) (auto split: option.splits)

lemma groups_lines_None: "groups_lines gs = None \<longleftrightarrow> (\<exists>g\<in>set gs. group_lines g = None)"
  by (induction gs) (auto split: option.splits)

lemma group_lines_panics:
  "group_lines g = None \<longleftrightarrow> (\<exists>p v ts. (p, v) \<in> set (cg_paths g) \<and> pp_types v = Some ts \<and> length ts = 4)"
proof -
  have "group_lines g = None \<longleftrightarrow> (\<exists>x\<in>set (cg_paths g). path_line x = None)"
    by (simp add: group_lines_def map_lines_None)
  also have "\<dots> \<longleftrightarrow> (\<exists>p v. (p, v) \<in> set (cg_paths g) \<and> path_line (p, v) = None)" by (simp add: Bex_def split_paired_Ex)
  finally show ?thesis by (simp add: path_line_panics)
qed

text \<open>
  Fsmon monitored prints the store, unless some entry has exactly four event types: then it
  panics, because four types are not few enough to be listed and too few for the slice of the first
  five.
\<close>

theorem listing_panics_on_four_types:
  "cmd_monitored env False fl = None \<longleftrightarrow>
     (\<exists>cfg store g p v ts. cli_config env = Inr cfg \<and> read_store env (cf_monitored_path cfg) fl = Inr store \<and>
        g \<in> set store \<and> (p, v) \<in> set (cg_paths g) \<and> pp_types v = Some ts \<and> length ts = 4)"
proof -
  have lines: "groups_lines store = None \<longleftrightarrow>
      (\<exists>g p v ts. g \<in> set store \<and> (p, v) \<in> set (cg_paths g) \<and> pp_types v = Some ts \<and> length ts = 4)" for store
    by (simp add: groups_lines_None group_lines_panics Bex_def)
  show ?thesis
  proof (cases "cli_config env")
    case (Inl e)
    then show ?thesis by (simp add: cmd_monitored_def)
  next
    case (Inr cfg)
    show ?thesis
    proof (cases "read_store env (cf_monitored_path cfg) fl")
      case (Inl e)
      with \<open>cli_config env = Inr cfg\<close> show ?thesis by (simp add: cmd_monitored_def)
    next
      case st: (Inr store)
      have "cmd_monitored env False fl = None \<longleftrightarrow> store \<noteq> [] \<and> groups_lines store = None"
        using Inr st by (simp add: cmd_monitored_def)
      then show ?thesis unfolding lines using Inr st by auto
    qed
  qed
qed

section \<open>Starting the daemon\<close>

text \<open>Where the construction of a monitor panics.\<close>

lemma monitor_new_panics:
  "monitor_new w pid cfg = None \<longleftrightarrow>
     (let n = (case mc_buffer_size cfg of Some n \<Rightarrow> n | None \<Rightarrow> mc_cache_buffer_size cfg)
      in 4096 \<le> n \<and> n \<le> 1024 * 1024) \<and>
     (\<exists>ps. collect_paths w (mc_log_dir cfg) (mc_paths_and_options cfg) ([], []) = Inr ps) \<and>
     (mc_file_size_capacity cfg = 0 \<or> \<not> w_lru_new w (mc_file_size_capacity cfg) \<or>
      \<not> w_broadcast_new w (max (case mc_subscribe_buf cfg of Some n \<Rightarrow> n | None \<Rightarrow> 4096) 1))"
  by (auto simp: monitor_new_def Let_def split: sum.splits)

lemma watchdog_sec_panics:
  "watchdog_sec checked st = None \<longleftrightarrow>
     checked \<and> (\<exists>i. st_watchdog_interval st = Some i \<and> 2 ^ 64 \<le> unat i * unat (st_watchdog_multiplier st))"
  by (auto simp: watchdog_sec_def split: option.split)

lemma daemon_panics:
  "cmd_daemon env w pid lock_ok socket_ok opts fl = StartPanics \<longleftrightarrow>
     lock_ok \<and> socket_ok \<and>
     (\<exists>cfg store es sets. cli_config env = Inr cfg \<and> sets = merge_settings opts cfg \<and>
        read_store env (cf_monitored_path cfg) fl = Inr store \<and>
        parse_path_entries (w_parse_size w) (flatten (cl_fs env) store) = Inr es \<and>
        1 < st_watchdog_multiplier sets \<and>
        (cl_overflow_checks env \<and> (\<exists>i. st_watchdog_interval sets = Some i \<and>
            2 ^ 64 \<le> unat i * unat (st_watchdog_multiplier sets)) \<or>
         4096 \<le> rc_buffer_size (st_cache sets) \<and> rc_buffer_size (st_cache sets) \<le> 1024 * 1024 \<and>
         (\<exists>ps. collect_paths w (lc_path (cf_logging cfg)) es ([], []) = Inr ps) \<and>
         (rc_file_size_capacity (st_cache sets) = 0 \<or>
          \<not> w_lru_new w (rc_file_size_capacity (st_cache sets)) \<or>
          \<not> w_broadcast_new w (max (rc_subscribe_buf (st_cache sets)) 1))))"
proof (cases "cli_config env")
  case (Inl e)
  then show ?thesis by (simp add: cmd_daemon_def)
next
  case cfg: (Inr cfg)
  show ?thesis
  proof (cases "read_store env (cf_monitored_path cfg) fl")
    case (Inl e)
    with cfg show ?thesis by (simp add: cmd_daemon_def)
  next
    case st: (Inr store)
    show ?thesis
    proof (cases "parse_path_entries (w_parse_size w) (flatten (cl_fs env) store)")
      case (Inl e)
      with cfg st show ?thesis by (simp add: cmd_daemon_def Let_def)
    next
      case es: (Inr es)
      let ?sets = "merge_settings opts cfg"
      let ?mc = "\<lparr>mc_paths_and_options = es, mc_log_dir = lc_path (cf_logging cfg),
         mc_buffer_size = Some (rc_buffer_size (st_cache ?sets)), mc_cache_buffer_size = rc_buffer_size (st_cache ?sets),
         mc_file_size_capacity = rc_file_size_capacity (st_cache ?sets),
         mc_subscribe_buf = Some (rc_subscribe_buf (st_cache ?sets)),
         mc_metrics_interval = map_option unat (st_metrics_interval ?sets)\<rparr>"
      have "cmd_daemon env w pid lock_ok socket_ok opts fl = StartPanics \<longleftrightarrow>
          lock_ok \<and> socket_ok \<and> 1 < st_watchdog_multiplier ?sets \<and>
          (watchdog_sec (cl_overflow_checks env) ?sets = None \<or> monitor_new w pid ?mc = None)"
        using cfg st es by (auto simp: cmd_daemon_def Let_def split: option.split sum.split)
      then show ?thesis
        unfolding watchdog_sec_panics monitor_new_panics using cfg st es by (simp add: Let_def)
    qed
  qed
qed

text \<open>
  C26: fsmon daemon gets to a monitor only with a watchdog multiplier above 1, a read buffer between
  4 KiB and 1 MiB, a file-size cache that is not empty, and a store all of whose entries parse. It
  panics only after the configuration, the store, its entries and the multiplier have been accepted,
  and only for one of these: where overflow is checked, a watchdog interval whose product with the
  multiplier exceeds 64 bits; a file-size cache of capacity 0; a capacity that the constructor of
  that cache or of the subscribers' channel does not take. None of these is refused before.
\<close>

theorem daemon_start_checks:
  "(cmd_daemon env w pid lock_ok socket_ok opts fl = Started m st \<longrightarrow>
           lock_ok \<and> socket_ok \<and> 1 < st_watchdog_multiplier st \<and>
           4096 \<le> rc_buffer_size (st_cache st) \<and> rc_buffer_size (st_cache st) \<le> 1024 * 1024 \<and>
           rc_file_size_capacity (st_cache st) \<noteq> 0 \<and> fresh m \<and>
           (\<exists>cfg store es. cli_config env = Inr cfg \<and> st = merge_settings opts cfg \<and>
              read_store env (cf_monitored_path cfg) fl = Inr store \<and>
              parse_path_entries (w_parse_size w) (flatten (cl_fs env) store) = Inr es)) \<and>
   (cmd_daemon env w pid lock_ok socket_ok opts fl = StartPanics \<longleftrightarrow>
           lock_ok \<and> socket_ok \<and>
           (\<exists>cfg store es sets. cli_config env = Inr cfg \<and> sets = merge_settings opts cfg \<and>
              read_store env (cf_monitored_path cfg) fl = Inr store \<and>
              parse_path_entries (w_parse_size w) (flatten (cl_fs env) store) = Inr es \<and>
              1 < st_watchdog_multiplier sets \<and>
              (cl_overflow_checks env \<and> (\<exists>i. st_watchdog_interval sets = Some i \<and>
                  2 ^ 64 \<le> unat i * unat (st_watchdog_multiplier sets)) \<or>
               4096 \<le> rc_buffer_size (st_cache sets) \<and> rc_buffer_size (st_cache sets) \<le> 1024 * 1024 \<and>
               (\<exists>ps. collect_paths w (lc_path (cf_logging cfg)) es ([], []) = Inr ps) \<and>
               (rc_file_size_capacity (st_cache sets) = 0 \<or>
                \<not> w_lru_new w (rc_file_size_capacity (st_cache sets)) \<or>
                \<not> w_broadcast_new w (max (rc_subscribe_buf (st_cache sets)) 1)))))"
proof (intro conjI [of "_ \<longrightarrow> _" "_ \<longleftrightarrow> _"] impI)
  assume "cmd_daemon env w pid lock_ok socket_ok opts fl = Started m st"
  then obtain cfg store es where c: "cli_config env = Inr cfg" "st = merge_settings opts cfg"
      "read_store env (cf_monitored_path cfg) fl = Inr store"
      "parse_path_entries (w_parse_size w) (flatten (cl_fs env) store) = Inr es"
      "lock_ok" "socket_ok" "\<not> st_watchdog_multiplier st \<le> 1"
    and n: "monitor_new w pid \<lparr>mc_paths_and_options = es, mc_log_dir = lc_path (cf_logging cfg),
         mc_buffer_size = Some (rc_buffer_size (st_cache st)), mc_cache_buffer_size = rc_buffer_size (st_cache st),
         mc_file_size_capacity = rc_file_size_capacity (st_cache st),
         mc_subscribe_buf = Some (rc_subscribe_buf (st_cache st)),
         mc_metrics_interval = map_option unat (st_metrics_interval st)\<rparr> = Some (Inr m)"
    by (auto simp: cmd_daemon_def Let_def split: if_splits sum.splits option.splits)
  from n have "4096 \<le> rc_buffer_size (st_cache st)" "rc_buffer_size (st_cache st) \<le> 1024 * 1024"
      "rc_file_size_capacity (st_cache st) \<noteq> 0"
    by (auto simp: monitor_new_def Let_def split: if_splits sum.splits)
  with c monitor_new_fresh [OF n] show "lock_ok \<and> socket_ok \<and> 1 < st_watchdog_multiplier st \<and>
           4096 \<le> rc_buffer_size (st_cache st) \<and> rc_buffer_size (st_cache st) \<le> 1024 * 1024 \<and>
           rc_file_size_capacity (st_cache st) \<noteq> 0 \<and> fresh m \<and>
           (\<exists>cfg store es. cli_config env = Inr cfg \<and> st = merge_settings opts cfg \<and>
              read_store env (cf_monitored_path cfg) fl = Inr store \<and>
              parse_path_entries (w_parse_size w) (flatten (cl_fs env) store) = Inr es)"
    by auto
next
  show "cmd_daemon env w pid lock_ok socket_ok opts fl = StartPanics \<longleftrightarrow>
           lock_ok \<and> socket_ok \<and>
           (\<exists>cfg store es sets. cli_config env = Inr cfg \<and> sets = merge_settings opts cfg \<and>
              read_store env (cf_monitored_path cfg) fl = Inr store \<and>
              parse_path_entries (w_parse_size w) (flatten (cl_fs env) store) = Inr es \<and>
              1 < st_watchdog_multiplier sets \<and>
              (cl_overflow_checks env \<and> (\<exists>i. st_watchdog_interval sets = Some i \<and>
                  2 ^ 64 \<le> unat i * unat (st_watchdog_multiplier sets)) \<or>
               4096 \<le> rc_buffer_size (st_cache sets) \<and> rc_buffer_size (st_cache sets) \<le> 1024 * 1024 \<and>
               (\<exists>ps. collect_paths w (lc_path (cf_logging cfg)) es ([], []) = Inr ps) \<and>
               (rc_file_size_capacity (st_cache sets) = 0 \<or>
                \<not> w_lru_new w (rc_file_size_capacity (st_cache sets)) \<or>
                \<not> w_broadcast_new w (max (rc_subscribe_buf (st_cache sets)) 1))))"
    by (rule daemon_panics)
qed

lemma sample_settings:
  "st_watchdog_multiplier (merge_settings (no_options n) (resolve_paths home default_config)) = 2"
  "rc_buffer_size (st_cache (merge_settings (no_options n) (resolve_paths home default_config))) = 32768"
  "rc_file_size_capacity (st_cache (merge_settings (no_options n) (resolve_paths home default_config))) =
     (case n of Some k \<Rightarrow> k | None \<Rightarrow> 10000)"
  by (simp_all add: merge_settings_def no_options_def resolve_paths_def default_config_def resolve_cache_def
      resolve_with_cli_fields first_of_def Config.or_else_def empty_cache_def split: option.split)

lemma sample_fits:
  "w_lru_new sample_world n" "w_broadcast_new sample_world 4096" "max (4096 :: nat) 1 = 4096"
  "rc_subscribe_buf (st_cache (merge_settings (no_options n') (resolve_paths home default_config))) = 4096"
  "watchdog_sec checked (merge_settings (no_options n') (resolve_paths home default_config)) = Some None"
  by (simp_all add: sample_world_def merge_settings_def no_options_def resolve_paths_def default_config_def
      resolve_cache_def resolve_with_cli_fields first_of_def Config.or_else_def empty_cache_def watchdog_sec_def
      positive_def split: option.split)

lemma two_above_one: "\<not> (2 :: u64) \<le> 1"
  by (simp add: word_le_nat_alt)

lemma sample_empty_store: "read_store (sample_cli r) sp (\<lambda>_. None) = Inr []"
  by (simp add: read_store_def load_store_def)

theorem daemon_start_checks_witness:
  "(\<exists>m st. cmd_daemon (sample_cli (Inr RespOk)) sample_world 7 True True (no_options None) (\<lambda>_. None) = Started m st \<and>
      1 < st_watchdog_multiplier st \<and> fresh m) \<and>
   cmd_daemon (sample_cli (Inr RespOk)) sample_world 7 True True (no_options (Some 0)) (\<lambda>_. None) = StartPanics"
proof -
  let ?run = "\<lambda>n. cmd_daemon (sample_cli (Inr RespOk)) sample_world 7 True True (no_options n) (\<lambda>_. None)"
  note run = cmd_daemon_def sample_config_cli sample_empty_store sample_settings two_above_one flatten_def
    monitor_new_def Let_def
  obtain m st where st: "?run None = Started m st" by (simp add: run sample_fits)
  have "1 < st_watchdog_multiplier st \<and> fresh m"
    using mp [OF conjunct1 [OF daemon_start_checks] st] by (elim conjE) (intro conjI)
  moreover have "?run (Some 0) = StartPanics"
    by (rule iffD2 [OF conjunct2 [OF daemon_start_checks]])
      (simp add: sample_config_cli sample_empty_store sample_settings two_above_one flatten_def linorder_not_le [symmetric])
  ultimately show ?thesis using st by blast
qed

end
