(* ===== verification/File_Writer.thy ===== *)
theory File_Writer
  imports Event Text Metrics "HOL-Library.Multiset"
begin

text \<open>
  The log writer of \<^verbatim>\<open>src/common/monitor/file_writer.rs\<close>: one task that appends every event to
  the log of its process group, with cached handles, the standard library's buffered writer, a
  bounded buffer for events whose log cannot be opened, and a flush every second. The disk is
  part of the state; what the system accepts is a parameter, indexed by the calls made so far.
\<close>

definition MAX_OPEN_HANDLES :: nat where "MAX_OPEN_HANDLES = 64"
definition DISK_BUF_CAP :: nat where "DISK_BUF_CAP = 10000"
definition RETRY_SECS :: nat where "RETRY_SECS = 10"

text \<open>The default capacity of \<^verbatim>\<open>BufWriter\<close>.\<close>

definition BUF_CAP :: nat where "BUF_CAP = 8192"

section \<open>The disk and the writer\<close>

record log_handle =
  lh_inode :: nat
  lh_buf :: string

record log_disk =
  ld_names :: "(path, nat) hash"
  ld_data :: "nat \<Rightarrow> string"
  ld_next :: nat

record file_writer =
  fw_log_dir :: path
  fw_disk_buf :: "(file_event \<times> string) list"
  fw_healthy :: bool
  fw_last_check :: nat
  fw_dirty :: "path list"
  fw_handles :: "(path, log_handle) hash"
  fw_metrics :: metrics
  fw_disk :: log_disk
  fw_tick :: nat

datatype open_answer = Opened | Missing bool | OpenRefused

text \<open>
  \<open>io_open\<close> answers an open (a missing directory is created and the open tried again),
  \<open>io_accept\<close> says after how many bytes a write fails, if it does, \<open>io_evict\<close> which handle the
  hash map names first.
\<close>

record io =
  io_open :: "nat \<Rightarrow> path \<Rightarrow> open_answer"
  io_accept :: "nat \<Rightarrow> nat option"
  io_evict :: "nat \<Rightarrow> nat"
  io_now :: nat

definition writer_new :: "path \<Rightarrow> metrics \<Rightarrow> log_disk \<Rightarrow> nat \<Rightarrow> file_writer" where
  "writer_new log_dir mt disk now =
     \<lparr>fw_log_dir = log_dir, fw_disk_buf = [], fw_healthy = True, fw_last_check = now, fw_dirty = [],
      fw_handles = [], fw_metrics = mt, fw_disk = disk, fw_tick = 0\<rparr>"

definition log_path_of :: "file_writer \<Rightarrow> string \<Rightarrow> path" where
  "log_path_of fw cmd_name = path_join (fw_log_dir fw) (path_of (cmd_to_log_name cmd_name))"

section \<open>Buffered writing\<close>

definition append_data :: "nat \<Rightarrow> string \<Rightarrow> log_disk \<Rightarrow> log_disk" where
  "append_data ino s d = d\<lparr>ld_data := (ld_data d)(ino := ld_data d ino @ s)\<rparr>"

text \<open>A write to the file itself: what is accepted arrives, and it fails unless that is all.\<close>

definition accepted :: "io \<Rightarrow> nat \<Rightarrow> string \<Rightarrow> nat" where
  "accepted io n s = (case io_accept io n of None \<Rightarrow> length s | Some k \<Rightarrow> min k (length s))"

definition raw_write :: "io \<Rightarrow> nat \<Rightarrow> string \<Rightarrow> file_writer \<Rightarrow> bool \<times> file_writer" where
  "raw_write io ino s fw =
     (let n = accepted io (fw_tick fw) s
      in (n = length s,
          fw\<lparr>fw_disk := append_data ino (take n s) (fw_disk fw), fw_tick := fw_tick fw + 1\<rparr>))"

definition set_handle :: "path \<Rightarrow> log_handle \<Rightarrow> file_writer \<Rightarrow> file_writer" where
  "set_handle p h fw = fw\<lparr>fw_handles := al_put p h (fw_handles fw)\<rparr>"

text \<open>\<^verbatim>\<open>BufWriter::flush_buf\<close>: what has been written leaves the buffer, the rest stays.\<close>

definition flush_handle :: "io \<Rightarrow> path \<Rightarrow> file_writer \<Rightarrow> bool \<times> file_writer" where
  "flush_handle io p fw =
     (case map_of (fw_handles fw) p of
        None \<Rightarrow> (True, fw)
      | Some h \<Rightarrow>
          if lh_buf h = [] then (True, fw)
          else
            (let n = accepted io (fw_tick fw) (lh_buf h);
                 (ok, fw1) = raw_write io (lh_inode h) (lh_buf h) fw
             in (ok, set_handle p (h\<lparr>lh_buf := drop n (lh_buf h)\<rparr>) fw1)))"

definition push_buf :: "path \<Rightarrow> string \<Rightarrow> file_writer \<Rightarrow> file_writer" where
  "push_buf p s fw =
     (case map_of (fw_handles fw) p of
        None \<Rightarrow> fw | Some h \<Rightarrow> set_handle p (h\<lparr>lh_buf := lh_buf h @ s\<rparr>) fw)"

text \<open>\<^verbatim>\<open>BufWriter::write_all\<close>.\<close>

definition buf_write :: "io \<Rightarrow> path \<Rightarrow> string \<Rightarrow> file_writer \<Rightarrow> bool \<times> file_writer" where
  "buf_write io p s fw =
     (case map_of (fw_handles fw) p of
        None \<Rightarrow> (False, fw)
      | Some h \<Rightarrow>
          (let spare = BUF_CAP - length (lh_buf h) in
           if length s < spare then (True, push_buf p s fw)
           else
             (let (ok, fw1) = (if length s > spare then flush_handle io p fw else (True, fw)) in
              if \<not> ok then (False, fw1)
              else if length s \<ge> BUF_CAP then raw_write io (lh_inode h) s fw1
              else (True, push_buf p s fw1))))"

definition write_line :: "io \<Rightarrow> path \<Rightarrow> string \<Rightarrow> file_writer \<Rightarrow> bool \<times> file_writer" where
  "write_line io p line fw =
     (let (ok, fw1) = buf_write io p line fw in if ok then buf_write io p [NL] fw1 else (False, fw1))"

text \<open>Dropping a handle flushes its buffer, whatever comes of it, and closes the file.\<close>

definition drop_handle :: "io \<Rightarrow> path \<Rightarrow> file_writer \<Rightarrow> file_writer" where
  "drop_handle io p fw =
     (let fw1 = snd (flush_handle io p fw) in fw1\<lparr>fw_handles := al_del p (fw_handles fw1)\<rparr>)"

section \<open>Opening\<close>

definition create_name :: "path \<Rightarrow> log_disk \<Rightarrow> nat \<times> log_disk" where
  "create_name p d =
     (case map_of (ld_names d) p of
        Some ino \<Rightarrow> (ino, d)
      | None \<Rightarrow>
          (ld_next d, d\<lparr>ld_names := al_put p (ld_next d) (ld_names d), ld_next := ld_next d + 1,
                        ld_data := (ld_data d)(ld_next d := [])\<rparr>))"

definition open_log_file :: "io \<Rightarrow> path \<Rightarrow> file_writer \<Rightarrow> nat option \<times> file_writer" where
  "open_log_file io p fw =
     (let answer = io_open io (fw_tick fw) p;
          fw1 = fw\<lparr>fw_tick := fw_tick fw + 1\<rparr>
      in if answer = Opened \<or> answer = Missing True then
           (let (ino, d) = create_name p (fw_disk fw1) in (Some ino, fw1\<lparr>fw_disk := d\<rparr>))
         else (None, fw1))"

definition evict_one :: "io \<Rightarrow> file_writer \<Rightarrow> file_writer" where
  "evict_one io fw =
     (if MAX_OPEN_HANDLES \<le> length (fw_handles fw)
      then drop_handle io (fst (fw_handles fw ! (io_evict io (fw_tick fw) mod length (fw_handles fw)))) fw
      else fw)"

definition get_or_open :: "io \<Rightarrow> path \<Rightarrow> file_writer \<Rightarrow> bool \<times> file_writer" where
  "get_or_open io p fw =
     (if map_of (fw_handles fw) p \<noteq> None then (True, fw)
      else
        (case open_log_file io p (evict_one io fw) of
           (None, fw1) \<Rightarrow> (False, fw1)
         | (Some ino, fw1) \<Rightarrow> (True, set_handle p \<lparr>lh_inode = ino, lh_buf = []\<rparr> fw1)))"

section \<open>Events\<close>

definition count_disk_buf :: "file_writer \<Rightarrow> file_writer" where
  "count_disk_buf fw =
     fw\<lparr>fw_metrics := set_disk_buffer_events (of_nat (length (fw_disk_buf fw))) (fw_metrics fw)\<rparr>"

definition keep_pending :: "file_event \<times> string \<Rightarrow> file_writer \<Rightarrow> file_writer" where
  "keep_pending x fw = fw\<lparr>fw_disk_buf := fw_disk_buf fw @ [x]\<rparr>"

text \<open>One buffered event; \<open>fw_disk_buf\<close> collects what remains.\<close>

definition retry_event ::
  "io \<Rightarrow> (file_event \<Rightarrow> string) \<Rightarrow> file_event \<times> string \<Rightarrow> file_writer \<Rightarrow> file_writer" where
  "retry_event io jsonl x fw =
     (let p = log_path_of fw (snd x) in
      case get_or_open io p fw of
        (False, fw1) \<Rightarrow> keep_pending x fw1
      | (True, fw1) \<Rightarrow>
          (case write_line io p (jsonl (fst x)) fw1 of
             (True, fw2) \<Rightarrow> fw2
           | (False, fw2) \<Rightarrow> keep_pending x (drop_handle io p fw2)))"

definition flush_disk_buf :: "io \<Rightarrow> (file_event \<Rightarrow> string) \<Rightarrow> file_writer \<Rightarrow> file_writer" where
  "flush_disk_buf io jsonl fw =
     (if fw_disk_buf fw = [] then fw\<lparr>fw_healthy := True\<rparr>
      else
        (let fw1 = fold (retry_event io jsonl) (fw_disk_buf fw) (fw\<lparr>fw_disk_buf := []\<rparr>)
         in count_disk_buf (fw1\<lparr>fw_healthy := (fw_disk_buf fw1 = []), fw_last_check := io_now io\<rparr>)))"

definition write_event ::
  "io \<Rightarrow> (file_event \<Rightarrow> string) \<Rightarrow> file_event \<times> string \<Rightarrow> file_writer \<Rightarrow> bool \<times> file_writer" where
  "write_event io jsonl x fw =
     (let p = log_path_of fw (snd x);
          fw0 = (if \<not> fw_healthy fw \<and> RETRY_SECS \<le> io_now io - fw_last_check fw
                 then flush_disk_buf io jsonl fw else fw)
      in case get_or_open io p fw0 of
           (True, fw1) \<Rightarrow>
             (case write_line io p (jsonl (fst x)) fw1 of
                (False, fw2) \<Rightarrow> (False, fw2)
              | (True, fw2) \<Rightarrow> (True, fw2\<lparr>fw_dirty := List.insert p (fw_dirty fw2), fw_healthy := True\<rparr>))
         | (False, fw1) \<Rightarrow>
             (let fw2 = (drop_handle io p fw1)\<lparr>fw_healthy := False, fw_last_check := io_now io\<rparr>;
                  fw3 = (if length (fw_disk_buf fw2) < DISK_BUF_CAP then keep_pending x fw2 else fw2)
              in (False, count_disk_buf fw3)))"

section \<open>Flushing\<close>

definition linked :: "log_disk \<Rightarrow> nat \<Rightarrow> bool" where
  "linked d ino = list_ex (\<lambda>x. snd x = ino) (ld_names d)"

definition flush_dirty :: "io \<Rightarrow> path \<Rightarrow> file_writer \<Rightarrow> file_writer" where
  "flush_dirty io p fw =
     (case map_of (fw_handles fw) p of
        None \<Rightarrow> fw
      | Some h \<Rightarrow> if \<not> linked (fw_disk fw) (lh_inode h) then drop_handle io p fw else snd (flush_handle io p fw))"

definition flush_and_sync_dirty_logs :: "io \<Rightarrow> file_writer \<Rightarrow> file_writer" where
  "flush_and_sync_dirty_logs io fw =
     (if fw_dirty fw = [] then fw else fold (flush_dirty io) (fw_dirty fw) (fw\<lparr>fw_dirty := []\<rparr>))"

definition flush_all :: "io \<Rightarrow> file_writer \<Rightarrow> file_writer" where
  "flush_all io fw = fold (\<lambda>p fw. snd (flush_handle io p fw)) (map fst (fw_handles fw)) fw"

section \<open>The task\<close>

text \<open>
  What reaches the task, each with the system's answers while it is served; \<open>Unlinked\<close> is someone
  else removing a log.
\<close>

datatype writer_msg = Event io "file_event \<times> string" | Missed nat | FlushTick io | Unlinked path

definition writer_step :: "(file_event \<Rightarrow> string) \<Rightarrow> writer_msg \<Rightarrow> file_writer \<Rightarrow> file_writer" where
  "writer_step jsonl msg fw =
     (case msg of
        Event io x \<Rightarrow> snd (write_event io jsonl x fw)
      | Missed n \<Rightarrow> fw
      | FlushTick io \<Rightarrow> flush_and_sync_dirty_logs io fw
      | Unlinked p \<Rightarrow> fw\<lparr>fw_disk := (fw_disk fw)\<lparr>ld_names := al_del p (ld_names (fw_disk fw))\<rparr>\<rparr>)"

definition writer_run ::
  "(file_event \<Rightarrow> string) \<Rightarrow> writer_msg list \<Rightarrow> io \<Rightarrow> file_writer \<Rightarrow> file_writer" where
  "writer_run jsonl msgs io fw =
     flush_all io (flush_and_sync_dirty_logs io (fold (writer_step jsonl) msgs fw))"

section \<open>What a log holds\<close>

text \<open>The text of a log: what is in its file and, after it, in the buffer of its handle.\<close>

definition log_view :: "file_writer \<Rightarrow> path \<Rightarrow> string" where
  "log_view fw p =
     (case map_of (fw_handles fw) p of
        Some h \<Rightarrow> ld_data (fw_disk fw) (lh_inode h) @ lh_buf h
      | None \<Rightarrow> (case map_of (ld_names (fw_disk fw)) p of
                   Some ino \<Rightarrow> ld_data (fw_disk fw) ino | None \<Rightarrow> []))"

text \<open>Names have files of their own, and a handle has the file of its name.\<close>

definition consistent :: "file_writer \<Rightarrow> bool" where
  "consistent fw \<longleftrightarrow>
     (\<forall>p q i. map_of (ld_names (fw_disk fw)) p = Some i \<and> map_of (ld_names (fw_disk fw)) q = Some i \<longrightarrow> p = q) \<and>
     (\<forall>p i. map_of (ld_names (fw_disk fw)) p = Some i \<longrightarrow> i < ld_next (fw_disk fw)) \<and>
     (\<forall>p h. map_of (fw_handles fw) p = Some h \<longrightarrow> map_of (ld_names (fw_disk fw)) p = Some (lh_inode h))"

definition io_full :: "io \<Rightarrow> bool" where
  "io_full io \<longleftrightarrow> (\<forall>n. io_accept io n = None)"

lemma accepted_full: "io_full io \<Longrightarrow> accepted io n s = length s"
  by (simp add: accepted_def io_full_def)

text \<open>An operation that appends \<open>s\<close> to the log \<open>p\<close> and touches no other, nor the waiting events.\<close>

definition appends :: "path \<Rightarrow> string \<Rightarrow> file_writer \<Rightarrow> file_writer \<Rightarrow> bool" where
  "appends p s fw fw' \<longleftrightarrow>
     consistent fw' \<and> fw_log_dir fw' = fw_log_dir fw \<and> fw_disk_buf fw' = fw_disk_buf fw \<and>
     log_view fw' = (log_view fw)(p := log_view fw p @ s)"

lemma appends_trans: "appends p s fw fw1 \<Longrightarrow> appends p t fw1 fw2 \<Longrightarrow> appends p (s @ t) fw fw2"
  by (simp add: appends_def)

lemma appends_other: "appends q [] fw fw1 \<Longrightarrow> appends p t fw1 fw2 \<Longrightarrow> appends p t fw fw2"
  by (simp add: appends_def)

lemma appends_refl: "consistent fw \<Longrightarrow> appends p [] fw fw"
  by (simp add: appends_def)

lemma appends_nil: "appends p [] fw fw' \<Longrightarrow> appends q [] fw fw'"
  by (simp add: appends_def)

lemma consistent_handle_eq:
  "consistent fw \<Longrightarrow> map_of (fw_handles fw) p = Some h \<Longrightarrow>
     map_of (ld_names (fw_disk fw)) q = Some (lh_inode h) \<longleftrightarrow> q = p"
  unfolding consistent_def by blast

lemma flush_handle_full:
  assumes "io_full io" and "consistent fw" and "flush_handle io p fw = (ok, fw')"
  shows "ok \<and> appends q [] fw fw' \<and>
    map_of (fw_handles fw') = (\<lambda>x. if x = p then map_option (\<lambda>h. h\<lparr>lh_buf := []\<rparr>) (map_of (fw_handles fw) p)
                                else map_of (fw_handles fw) x) \<and>
    ld_names (fw_disk fw') = ld_names (fw_disk fw) \<and> fst ` set (fw_handles fw') = fst ` set (fw_handles fw)"
proof (cases "map_of (fw_handles fw) p")
  case None
  with assms show ?thesis by (auto simp: flush_handle_def appends_refl)
next
  case (Some h)
  show ?thesis
  proof (cases "lh_buf h = []")
    case True
    with assms Some show ?thesis by (auto simp: flush_handle_def appends_refl)
  next
    case False
    have fw': "ok" "fw' = set_handle p (h\<lparr>lh_buf := []\<rparr>)
        (fw\<lparr>fw_disk := append_data (lh_inode h) (lh_buf h) (fw_disk fw), fw_tick := fw_tick fw + 1\<rparr>)"
      using assms(3) Some False by (auto simp: flush_handle_def raw_write_def accepted_full [OF assms(1)] Let_def)
    have names: "map_of (ld_names (fw_disk fw)) x = Some (lh_inode h) \<longleftrightarrow> x = p" for x
      using consistent_handle_eq [OF assms(2) Some] .
    have other: "map_of (fw_handles fw) x = Some g \<Longrightarrow> x \<noteq> p \<Longrightarrow> lh_inode g \<noteq> lh_inode h" for x g
      using assms(2) names unfolding consistent_def by metis
    have view: "log_view fw' = log_view fw"
    proof
      fix x
      show "log_view fw' x = log_view fw x"
        using Some names [of x] other [of x]
        by (auto simp: fw'(2) log_view_def set_handle_def al_get_put append_data_def split: option.splits)
    qed
    have "consistent fw'"
      using assms(2) Some
      by (auto simp: fw'(2) consistent_def set_handle_def al_get_put append_data_def split: if_splits)
    moreover have "p \<in> fst ` set (fw_handles fw)" using Some by (force dest: map_of_SomeD)
    ultimately show ?thesis
      using fw' view Some keys_al_put [of p "h\<lparr>lh_buf := []\<rparr>" "fw_handles fw"]
      by (auto simp: appends_def set_handle_def al_get_put append_data_def fun_eq_iff)
  qed
qed

lemma push_buf_appends:
  assumes "consistent fw" and "map_of (fw_handles fw) p = Some h"
  shows "appends p s fw (push_buf p s fw) \<and> map_of (fw_handles (push_buf p s fw)) p \<noteq> None"
  using assms
  by (auto simp: appends_def push_buf_def set_handle_def consistent_def log_view_def al_get_put fun_eq_iff
      split: option.splits if_splits)

lemma raw_write_appends:
  assumes "io_full io" and "consistent fw" and "map_of (fw_handles fw) p = Some h" and "lh_buf h = []"
  shows "fst (raw_write io (lh_inode h) s fw) \<and> appends p s fw (snd (raw_write io (lh_inode h) s fw)) \<and>
    map_of (fw_handles (snd (raw_write io (lh_inode h) s fw))) p \<noteq> None"
proof -
  let ?fw = "fw\<lparr>fw_disk := append_data (lh_inode h) s (fw_disk fw), fw_tick := fw_tick fw + 1\<rparr>"
  have names: "map_of (ld_names (fw_disk fw)) x = Some (lh_inode h) \<longleftrightarrow> x = p" for x
    using consistent_handle_eq [OF assms(2,3)] .
  have other: "map_of (fw_handles fw) x = Some g \<Longrightarrow> x \<noteq> p \<Longrightarrow> lh_inode g \<noteq> lh_inode h" for x g
    using assms(2) names unfolding consistent_def by metis
  have "log_view ?fw x = ((log_view fw)(p := log_view fw p @ s)) x" for x
    using assms(3,4) names [of x] other [of x]
    by (auto simp: log_view_def append_data_def split: option.splits)
  moreover have "consistent ?fw" using assms(2) by (simp add: consistent_def append_data_def)
  ultimately show ?thesis
    using assms(1,3) by (simp add: raw_write_def accepted_full appends_def fun_eq_iff Let_def)
qed

lemma buf_write_appends:
  assumes io: "io_full io" and con: "consistent fw" and h: "map_of (fw_handles fw) p = Some h"
  shows "fst (buf_write io p s fw) \<and> appends p s fw (snd (buf_write io p s fw)) \<and>
    map_of (fw_handles (snd (buf_write io p s fw))) p \<noteq> None"
proof -
  obtain ok fw1 where fl: "flush_handle io p fw = (ok, fw1)" by (cases "flush_handle io p fw")
  note flushed = flush_handle_full [OF io con fl, of p]
  have h1: "map_of (fw_handles fw1) p = Some (h\<lparr>lh_buf := []\<rparr>)" using flushed h by simp
  have con1: "consistent fw1" using flushed by (simp add: appends_def)
  note push = push_buf_appends [OF con h, of s] and push1 = push_buf_appends [OF con1 h1, of s]
  have raw: "fst (raw_write io (lh_inode h) s fw1) \<and> appends p s fw1 (snd (raw_write io (lh_inode h) s fw1)) \<and>
    map_of (fw_handles (snd (raw_write io (lh_inode h) s fw1))) p \<noteq> None"
    using raw_write_appends [OF io con1 h1, of s] by simp
  have direct: "lh_buf h = []" if "\<not> BUF_CAP - length (lh_buf h) < length s" "BUF_CAP \<le> length s"
    using that by (cases "lh_buf h") (auto simp: BUF_CAP_def)
  show ?thesis
    using push push1 raw flushed h raw_write_appends [OF io con h direct, of s]
    by (auto simp: buf_write_def Let_def fl dest: appends_other)
qed

lemma write_line_appends:
  assumes "io_full io" and "consistent fw" and "map_of (fw_handles fw) p = Some h"
  shows "fst (write_line io p s fw) \<and> appends p (s @ [NL]) fw (snd (write_line io p s fw))"
proof -
  obtain ok fw1 where w: "buf_write io p s fw = (ok, fw1)" by (cases "buf_write io p s fw")
  then have one: "ok" "appends p s fw fw1" "map_of (fw_handles fw1) p \<noteq> None"
    using buf_write_appends [OF assms, of s] by simp_all
  then obtain h1 where h1: "map_of (fw_handles fw1) p = Some h1" by blast
  have "consistent fw1" using one(2) by (simp add: appends_def)
  from buf_write_appends [OF assms(1) this h1, of "[NL]"] one show ?thesis
    by (simp add: write_line_def w appends_trans)
qed

lemma forget_handle:
  assumes con: "consistent fw" and empty: "\<And>h. map_of (fw_handles fw) p = Some h \<Longrightarrow> lh_buf h = []"
  shows "appends q [] fw (fw\<lparr>fw_handles := al_del p (fw_handles fw)\<rparr>)"
proof -
  let ?fw = "fw\<lparr>fw_handles := al_del p (fw_handles fw)\<rparr>"
  have "consistent ?fw" using con by (auto simp: consistent_def al_get_del split: if_splits)
  moreover have "log_view ?fw x = log_view fw x" for x
  proof (cases "x = p")
    case True
    show ?thesis
    proof (cases "map_of (fw_handles fw) p")
      case None
      then show ?thesis using True by (simp add: log_view_def al_get_del split: option.split)
    next
      case (Some h)
      with con have "map_of (ld_names (fw_disk fw)) p = Some (lh_inode h)" by (simp add: consistent_def)
      with Some True empty show ?thesis by (simp add: log_view_def al_get_del)
    qed
  next
    case False
    then show ?thesis by (simp add: log_view_def al_get_del split: option.split)
  qed
  ultimately show ?thesis by (simp add: appends_def fun_eq_iff)
qed

lemma drop_handle_appends:
  assumes "io_full io" and "consistent fw"
  shows "appends q [] fw (drop_handle io p fw) \<and>
    map_of (fw_handles (drop_handle io p fw)) = (map_of (fw_handles fw))(p := None)"
proof -
  obtain ok fw1 where f: "flush_handle io p fw = (ok, fw1)" by (cases "flush_handle io p fw")
  note fl = flush_handle_full [OF assms f, of q]
  have ap: "appends q [] fw fw1" using fl by (elim conjE)
  have con: "consistent fw1" using ap by (simp add: appends_def)
  have empty: "lh_buf h = []" if "map_of (fw_handles fw1) p = Some h" for h
  proof -
    have "map_of (fw_handles fw1) p = map_option (\<lambda>h. h\<lparr>lh_buf := []\<rparr>) (map_of (fw_handles fw) p)"
      using fl by simp
    with that show ?thesis by (cases "map_of (fw_handles fw) p") auto
  qed
  have other: "map_of (fw_handles fw1) x = map_of (fw_handles fw) x" if "x \<noteq> p" for x
    using fl that by simp
  have drop: "drop_handle io p fw = fw1\<lparr>fw_handles := al_del p (fw_handles fw1)\<rparr>"
    by (simp add: drop_handle_def f)
  have "appends q [] fw1 (drop_handle io p fw)"
    unfolding drop by (rule forget_handle [OF con empty])
  moreover have "map_of (fw_handles (drop_handle io p fw)) = (map_of (fw_handles fw))(p := None)"
    by (rule ext) (simp add: drop al_get_del other)
  ultimately show ?thesis using ap appends_other by blast
qed

lemma appends_same:
  assumes "consistent fw" and "fw_disk fw' = fw_disk fw" and "fw_handles fw' = fw_handles fw"
    and "fw_log_dir fw' = fw_log_dir fw" and "fw_disk_buf fw' = fw_disk_buf fw"
  shows "appends q [] fw fw'"
proof -
  have "log_view fw' = log_view fw" by (rule ext) (simp only: log_view_def assms)
  then show ?thesis using assms by (simp add: appends_def consistent_def)
qed

lemma open_log_file_appends:
  assumes con: "consistent fw" and free: "map_of (fw_handles fw) p = None"
    and op: "open_log_file io p fw = (r, fw')"
  shows "appends q [] fw fw' \<and> fw_handles fw' = fw_handles fw \<and>
    (\<forall>ino. r = Some ino \<longrightarrow> map_of (ld_names (fw_disk fw')) p = Some ino)"
proof (cases "io_open io (fw_tick fw) p = Opened \<or> io_open io (fw_tick fw) p = Missing True")
  case False
  with op have "r = None" "fw' = fw\<lparr>fw_tick := fw_tick fw + 1\<rparr>"
    by (auto simp: open_log_file_def Let_def)
  with appends_same [OF con, of fw'] show ?thesis by simp
next
  case True
  obtain ino d where c: "create_name p (fw_disk fw) = (ino, d)" by (cases "create_name p (fw_disk fw)")
  have r: "r = Some ino" and fw': "fw' = fw\<lparr>fw_tick := fw_tick fw + 1, fw_disk := d\<rparr>"
    using op True c by (auto simp: open_log_file_def Let_def)
  show ?thesis
  proof (cases "map_of (ld_names (fw_disk fw)) p")
    case (Some i)
    then have "ino = i" "d = fw_disk fw" using c by (auto simp: create_name_def)
    with Some r fw' appends_same [OF con, of fw'] show ?thesis by simp
  next
    case None
    then have d: "ino = ld_next (fw_disk fw)" "d = fw_disk fw\<lparr>ld_names := al_put p ino (ld_names (fw_disk fw)),
        ld_next := ino + 1, ld_data := (ld_data (fw_disk fw))(ino := [])\<rparr>"
      using c by (auto simp: create_name_def)
    have new: "map_of (ld_names (fw_disk fw)) x \<noteq> Some ino" for x
      using con d(1) by (auto simp: consistent_def)
    then have h: "map_of (fw_handles fw) x = Some g \<Longrightarrow> lh_inode g \<noteq> ino" for x g
      using con new [of x] by (auto simp: consistent_def)
    have "consistent fw'"
      unfolding fw' d(2) consistent_def
    proof (intro conjI allI impI, goal_cases)
      case (1 x y i)
      then show ?case using con new by (auto simp: al_get_put consistent_def split: if_splits)
    next
      case (2 x i)
      then show ?case using con d(1) by (auto simp: al_get_put consistent_def less_Suc_eq split: if_splits)
    next
      case (3 x g)
      then show ?case using con free by (auto simp: al_get_put consistent_def)
    qed
    moreover have "log_view fw' = log_view fw"
    proof
      fix x
      show "log_view fw' x = log_view fw x"
      proof (cases "map_of (fw_handles fw) x")
        case (Some g)
        with h [OF Some] show ?thesis by (simp add: fw' d(2) log_view_def)
      next
        case no_handle: None
        show ?thesis
        proof (cases "map_of (ld_names (fw_disk fw)) x")
          case no_name: None
          with no_handle show ?thesis by (simp add: fw' d(2) log_view_def al_get_put)
        next
          case (Some i)
          with new [of x] None have "i \<noteq> ino" "x \<noteq> p" by auto
          with Some no_handle show ?thesis by (simp add: fw' d(2) log_view_def al_get_put)
        qed
      qed
    qed
    ultimately show ?thesis
      using r by (simp add: appends_def fw' d(2) al_get_put)
  qed
qed

lemma get_or_open_appends:
  assumes io: "io_full io" and con: "consistent fw" and g: "get_or_open io p fw = (ok, fw')"
  shows "appends q [] fw fw' \<and> (ok \<longrightarrow> map_of (fw_handles fw') p \<noteq> None)"
proof (cases "map_of (fw_handles fw) p")
  case (Some h)
  with g con show ?thesis by (auto simp: get_or_open_def appends_refl)
next
  case None
  let ?fw = "evict_one io fw"
  have ev: "appends q [] fw ?fw" "map_of (fw_handles ?fw) p = None"
    using drop_handle_appends [OF io con] None by (auto simp: evict_one_def con appends_refl)
  then have con1: "consistent ?fw" by (simp add: appends_def)
  obtain r fw1 where op: "open_log_file io p ?fw = (r, fw1)" by (cases "open_log_file io p ?fw")
  note opened = open_log_file_appends [OF con1 ev(2) op, of q]
  show ?thesis
  proof (cases r)
    case None
    with g \<open>map_of (fw_handles fw) p = None\<close> op opened ev(1) show ?thesis
      by (auto simp: get_or_open_def dest: appends_other)
  next
    case (Some ino)
    then have name: "map_of (ld_names (fw_disk fw1)) p = Some ino" using opened by blast
    have fw': "ok" "fw' = set_handle p \<lparr>lh_inode = ino, lh_buf = []\<rparr> fw1"
      using g None op Some by (auto simp: get_or_open_def)
    have "consistent fw1" "map_of (fw_handles fw1) p = None" using opened ev(2) by (auto simp: appends_def)
    then have "appends q [] fw1 fw'"
      using name by (auto simp: fw'(2) appends_def set_handle_def consistent_def log_view_def al_get_put fun_eq_iff
          split: option.splits if_splits)
    with opened ev(1) fw' show ?thesis
      by (auto simp: set_handle_def al_get_put dest: appends_other)
  qed
qed

section \<open>Every event once\<close>

text \<open>The lines a list of events puts into a log.\<close>

definition lines_for :: "(file_event \<Rightarrow> string) \<Rightarrow> path \<Rightarrow> path \<Rightarrow> (file_event \<times> string) list \<Rightarrow> string" where
  "lines_for jsonl log_dir p xs =
     concat (map (\<lambda>x. jsonl (fst x) @ [NL])
       (filter (\<lambda>x. path_join log_dir (path_of (cmd_to_log_name (snd x))) = p) xs))"

lemma lines_for_snoc:
  "lines_for jsonl dir p (xs @ [x]) = lines_for jsonl dir p xs @
     (if path_join dir (path_of (cmd_to_log_name (snd x))) = p then jsonl (fst x) @ [NL] else [])"
  by (simp add: lines_for_def)

text \<open>\<open>ys\<close> has been written in that order since \<open>fw0\<close>.\<close>

definition written_since ::
  "(file_event \<Rightarrow> string) \<Rightarrow> file_writer \<Rightarrow> (file_event \<times> string) list \<Rightarrow> file_writer \<Rightarrow> bool" where
  "written_since jsonl fw0 ys fw \<longleftrightarrow>
     consistent fw \<and> fw_log_dir fw = fw_log_dir fw0 \<and>
     (\<forall>p. log_view fw p = log_view fw0 p @ lines_for jsonl (fw_log_dir fw0) p ys)"

lemma written_nothing:
  "written_since jsonl fw0 ys fw \<Longrightarrow> appends q [] fw fw' \<Longrightarrow> written_since jsonl fw0 ys fw'"
  by (simp add: written_since_def appends_def)

lemma written_one:
  "written_since jsonl fw0 ys fw \<Longrightarrow> appends (log_path_of fw (snd x)) (jsonl (fst x) @ [NL]) fw fw' \<Longrightarrow>
     written_since jsonl fw0 (ys @ [x]) fw'"
  by (auto simp: written_since_def appends_def lines_for_snoc log_path_of_def)

lemma written_cong:
  assumes "written_since jsonl fw0 ys fw" and "fw_disk fw' = fw_disk fw" and "fw_handles fw' = fw_handles fw"
    and "fw_log_dir fw' = fw_log_dir fw"
  shows "written_since jsonl fw0 ys fw'"
proof -
  have "log_view fw' = log_view fw" by (rule ext) (simp only: log_view_def assms)
  then show ?thesis using assms by (simp add: written_since_def consistent_def)
qed

lemma retry_event_writes:
  assumes io: "io_full io" and w: "written_since jsonl fw0 ys fw"
  shows "(written_since jsonl fw0 (ys @ [x]) (retry_event io jsonl x fw) \<and>
            fw_disk_buf (retry_event io jsonl x fw) = fw_disk_buf fw) \<or>
         (written_since jsonl fw0 ys (retry_event io jsonl x fw) \<and>
            fw_disk_buf (retry_event io jsonl x fw) = fw_disk_buf fw @ [x])"
proof -
  let ?p = "log_path_of fw (snd x)"
  have con: "consistent fw" using w by (simp add: written_since_def)
  obtain ok fw1 where g: "get_or_open io ?p fw = (ok, fw1)" by (cases "get_or_open io ?p fw")
  note got = get_or_open_appends [OF io con g, of ?p]
  have ap1: "appends ?p [] fw fw1" using got by (elim conjE)
  then have con1: "consistent fw1" and buf1: "fw_disk_buf fw1 = fw_disk_buf fw" by (simp_all add: appends_def)
  show ?thesis
  proof (cases ok)
    case False
    have "written_since jsonl fw0 ys (keep_pending x fw1)"
      by (rule written_cong [OF written_nothing [OF w ap1]]) (simp_all add: keep_pending_def)
    with False g buf1 show ?thesis by (simp add: retry_event_def keep_pending_def Let_def)
  next
    case True
    with got obtain h where h: "map_of (fw_handles fw1) ?p = Some h" by blast
    obtain ok2 fw2 where wl: "write_line io ?p (jsonl (fst x)) fw1 = (ok2, fw2)"
      by (cases "write_line io ?p (jsonl (fst x)) fw1")
    with write_line_appends [OF io con1 h, of "jsonl (fst x)"]
    have wr: "ok2" "appends ?p (jsonl (fst x) @ [NL]) fw1 fw2" by simp_all
    have "written_since jsonl fw0 (ys @ [x]) fw2"
      by (rule written_one [OF w appends_other [OF ap1 wr(2)]])
    moreover have "fw_disk_buf fw2 = fw_disk_buf fw" using wr(2) buf1 by (simp add: appends_def)
    moreover have "retry_event io jsonl x fw = fw2" using True g wl wr(1) by (simp add: retry_event_def Let_def)
    ultimately show ?thesis by simp
  qed
qed

lemma retry_all_writes:
  assumes io: "io_full io" and "written_since jsonl fw0 ys fw"
  shows "\<exists>zs. written_since jsonl fw0 (ys @ zs) (fold (retry_event io jsonl) xs fw) \<and>
    mset zs + mset (fw_disk_buf (fold (retry_event io jsonl) xs fw)) = mset xs + mset (fw_disk_buf fw)"
  using assms(2)
proof (induction xs arbitrary: ys fw)
  case Nil
  then show ?case by (intro exI [of _ "[]"]) simp
next
  case (Cons x xs)
  let ?fw = "retry_event io jsonl x fw"
  from retry_event_writes [OF io Cons.prems, of x] show ?case
  proof (elim disjE conjE)
    assume w: "written_since jsonl fw0 (ys @ [x]) ?fw" and b: "fw_disk_buf ?fw = fw_disk_buf fw"
    from Cons.IH [OF w] b show ?thesis
      by (elim exE conjE) (rule_tac x = "x # zs" in exI, simp)
  next
    assume w: "written_since jsonl fw0 ys ?fw" and b: "fw_disk_buf ?fw = fw_disk_buf fw @ [x]"
    from Cons.IH [OF w] b show ?thesis
      by (elim exE conjE) (rule_tac x = zs in exI, simp)
  qed
qed

text \<open>
  Where the events received since \<open>fw0\<close> are: written, or waiting; at most \<open>DISK_BUF_CAP\<close> wait, and
  while no more have been received none is missing.
\<close>

definition accounts ::
  "(file_event \<Rightarrow> string) \<Rightarrow> file_writer \<Rightarrow> (file_event \<times> string) list \<Rightarrow> file_writer \<Rightarrow> bool" where
  "accounts jsonl fw0 got fw \<longleftrightarrow>
     (\<exists>ys. written_since jsonl fw0 ys fw \<and> mset ys + mset (fw_disk_buf fw) \<subseteq># mset got \<and>
        (length got \<le> DISK_BUF_CAP \<longrightarrow> mset ys + mset (fw_disk_buf fw) = mset got))"

lemma accounts_cong:
  assumes "accounts jsonl fw0 got fw" and "fw_disk fw' = fw_disk fw" and "fw_handles fw' = fw_handles fw"
    and "fw_log_dir fw' = fw_log_dir fw" and "fw_disk_buf fw' = fw_disk_buf fw"
  shows "accounts jsonl fw0 got fw'"
  using assms(1) written_cong [OF _ assms(2-4)] unfolding accounts_def assms(5) by blast

lemma accounts_nothing:
  assumes "accounts jsonl fw0 got fw" and ap: "appends q [] fw fw'"
  shows "accounts jsonl fw0 got fw'"
proof -
  have "fw_disk_buf fw' = fw_disk_buf fw" using ap by (simp add: appends_def)
  with assms(1) written_nothing [OF _ ap] show ?thesis unfolding accounts_def by metis
qed

lemma accounts_consistent: "accounts jsonl fw0 got fw \<Longrightarrow> consistent fw"
  by (auto simp: accounts_def written_since_def)

lemma accounts_written:
  assumes "accounts jsonl fw0 got fw" and ap: "appends (log_path_of fw (snd x)) (jsonl (fst x) @ [NL]) fw fw'"
  shows "accounts jsonl fw0 (got @ [x]) fw'"
proof -
  have b: "fw_disk_buf fw' = fw_disk_buf fw" using ap by (simp add: appends_def)
  from assms(1) obtain ys where ys: "written_since jsonl fw0 ys fw" "mset ys + mset (fw_disk_buf fw) \<subseteq># mset got"
      "length got \<le> DISK_BUF_CAP \<longrightarrow> mset ys + mset (fw_disk_buf fw) = mset got"
    by (auto simp: accounts_def)
  show ?thesis
    unfolding accounts_def
  proof (intro exI [of _ "ys @ [x]"] conjI impI)
    show "written_since jsonl fw0 (ys @ [x]) fw'" by (rule written_one [OF ys(1) ap])
    show "mset (ys @ [x]) + mset (fw_disk_buf fw') \<subseteq># mset (got @ [x])" using ys(2) b by simp
    assume "length (got @ [x]) \<le> DISK_BUF_CAP"
    then show "mset (ys @ [x]) + mset (fw_disk_buf fw') = mset (got @ [x])" using ys(3) b by simp
  qed
qed

lemma accounts_pending:
  assumes "accounts jsonl fw0 got fw"
  shows "accounts jsonl fw0 (got @ [x])
           (if length (fw_disk_buf fw) < DISK_BUF_CAP then keep_pending x fw else fw)" (is "accounts _ _ _ ?fw")
proof -
  from assms obtain ys where ys: "written_since jsonl fw0 ys fw" "mset ys + mset (fw_disk_buf fw) \<subseteq># mset got"
      "length got \<le> DISK_BUF_CAP \<longrightarrow> mset ys + mset (fw_disk_buf fw) = mset got"
    by (auto simp: accounts_def)
  have w: "written_since jsonl fw0 ys ?fw"
    by (rule written_cong [OF ys(1)]) (simp_all add: keep_pending_def)
  have len: "length (fw_disk_buf fw) \<le> length got" using size_mset_mono [OF ys(2)] by simp
  show ?thesis
  proof (cases "length (fw_disk_buf fw) < DISK_BUF_CAP")
    case True
    with w ys(2,3) show ?thesis by (auto simp: accounts_def keep_pending_def)
  next
    case False
    with len have "\<not> length (got @ [x]) \<le> DISK_BUF_CAP" by simp
    moreover have "mset ys + mset (fw_disk_buf fw) \<subseteq># mset (got @ [x])"
      by (rule subset_mset.trans [OF ys(2)]) simp
    ultimately show ?thesis using w False by (auto simp: accounts_def)
  qed
qed

lemma flush_disk_buf_accounts:
  assumes io: "io_full io" and "accounts jsonl fw0 got fw"
  shows "accounts jsonl fw0 got (flush_disk_buf io jsonl fw)"
proof (cases "fw_disk_buf fw = []")
  case True
  then show ?thesis using assms(2) by (auto simp: flush_disk_buf_def intro: accounts_cong)
next
  case False
  let ?fw = "fold (retry_event io jsonl) (fw_disk_buf fw) (fw\<lparr>fw_disk_buf := []\<rparr>)"
  from assms(2) obtain ys where ys: "written_since jsonl fw0 ys fw" "mset ys + mset (fw_disk_buf fw) \<subseteq># mset got"
      "length got \<le> DISK_BUF_CAP \<longrightarrow> mset ys + mset (fw_disk_buf fw) = mset got"
    by (auto simp: accounts_def)
  have "written_since jsonl fw0 ys (fw\<lparr>fw_disk_buf := []\<rparr>)" by (rule written_cong [OF ys(1)]) simp_all
  from retry_all_writes [OF io this, of "fw_disk_buf fw"] obtain zs where
    zs: "written_since jsonl fw0 (ys @ zs) ?fw" "mset zs + mset (fw_disk_buf ?fw) = mset (fw_disk_buf fw)"
    by auto
  have "mset (ys @ zs) + mset (fw_disk_buf ?fw) = mset ys + mset (fw_disk_buf fw)"
    using zs(2) by (simp add: add.assoc)
  with zs(1) ys(2,3) have "accounts jsonl fw0 got ?fw" unfolding accounts_def by metis
  then have "accounts jsonl fw0 got
      (count_disk_buf (?fw\<lparr>fw_healthy := fw_disk_buf ?fw = [], fw_last_check := io_now io\<rparr>))"
    by (rule accounts_cong) (simp_all add: count_disk_buf_def)
  moreover have "flush_disk_buf io jsonl fw =
      count_disk_buf (?fw\<lparr>fw_healthy := fw_disk_buf ?fw = [], fw_last_check := io_now io\<rparr>)"
    using False by (simp add: flush_disk_buf_def Let_def)
  ultimately show ?thesis by simp
qed

lemma write_event_accounts:
  assumes io: "io_full io" and acc: "accounts jsonl fw0 got fw"
  shows "accounts jsonl fw0 (got @ [x]) (snd (write_event io jsonl x fw))"
proof -
  define fwa where "fwa = (if \<not> fw_healthy fw \<and> RETRY_SECS \<le> io_now io - fw_last_check fw
                 then flush_disk_buf io jsonl fw else fw)"
  have acca: "accounts jsonl fw0 got fwa"
    using acc flush_disk_buf_accounts [OF io acc] by (simp add: fwa_def)
  have dir: "fw_log_dir fwa = fw_log_dir fw"
    using acc acca by (auto simp: accounts_def written_since_def)
  let ?p = "log_path_of fw (snd x)"
  have pa: "log_path_of fwa (snd x) = ?p" by (simp add: log_path_of_def dir)
  note con = accounts_consistent [OF acca]
  obtain ok fw1 where g: "get_or_open io ?p fwa = (ok, fw1)" by (cases "get_or_open io ?p fwa")
  note got = get_or_open_appends [OF io con g, of ?p]
  have ap1: "appends ?p [] fwa fw1" using got by (elim conjE)
  then have con1: "consistent fw1" by (simp add: appends_def)
  show ?thesis
  proof (cases ok)
    case True
    with got obtain h where h: "map_of (fw_handles fw1) ?p = Some h" by blast
    obtain ok2 fw2 where wl: "write_line io ?p (jsonl (fst x)) fw1 = (ok2, fw2)"
      by (cases "write_line io ?p (jsonl (fst x)) fw1")
    with write_line_appends [OF io con1 h, of "jsonl (fst x)"]
    have wr: "ok2" "appends ?p (jsonl (fst x) @ [NL]) fw1 fw2" by simp_all
    have "accounts jsonl fw0 (got @ [x]) fw2"
      by (rule accounts_written [OF acca]) (simp add: pa appends_other [OF ap1 wr(2)])
    then have "accounts jsonl fw0 (got @ [x])
        (fw2\<lparr>fw_dirty := List.insert ?p (fw_dirty fw2), fw_healthy := True\<rparr>)"
      by (rule accounts_cong) simp_all
    then show ?thesis using True g wl wr(1) by (simp add: write_event_def Let_def fwa_def [symmetric])
  next
    case False
    let ?fw2 = "(drop_handle io ?p fw1)\<lparr>fw_healthy := False, fw_last_check := io_now io\<rparr>"
    let ?fw3 = "if length (fw_disk_buf ?fw2) < DISK_BUF_CAP then keep_pending x ?fw2 else ?fw2"
    have "appends ?p [] fw1 (drop_handle io ?p fw1)"
      using drop_handle_appends [OF io con1, of ?p ?p] by (elim conjE)
    from accounts_nothing [OF accounts_nothing [OF acca ap1] this]
    have "accounts jsonl fw0 got ?fw2" by (rule accounts_cong) simp_all
    from accounts_pending [OF this] have "accounts jsonl fw0 (got @ [x]) (count_disk_buf ?fw3)"
      by (rule accounts_cong) (simp_all add: count_disk_buf_def)
    then show ?thesis using False g by (simp add: write_event_def Let_def fwa_def [symmetric])
  qed
qed

lemma flush_dirty_appends:
  assumes io: "io_full io" and con: "consistent fw"
  shows "appends q [] fw (flush_dirty io p fw)"
proof -
  obtain ok fw1 where f: "flush_handle io p fw = (ok, fw1)" by (cases "flush_handle io p fw")
  have "appends q [] fw fw1" using flush_handle_full [OF io con f, of q] by (elim conjE)
  moreover have "appends q [] fw (drop_handle io p fw)"
    using drop_handle_appends [OF io con, of q p] by (elim conjE)
  ultimately show ?thesis
    using appends_refl [OF con] by (simp add: flush_dirty_def f split: option.split)
qed

lemma flush_dirty_logs_appends:
  assumes io: "io_full io" and con: "consistent fw"
  shows "appends q [] fw (flush_and_sync_dirty_logs io fw)"
proof -
  have "appends q [] f (fold (flush_dirty io) ps f)" if "consistent f" for ps f
    using that
  proof (induction ps arbitrary: f)
    case (Cons p ps)
    have "appends q [] f (flush_dirty io p f)" by (rule flush_dirty_appends [OF io Cons.prems])
    with Cons.IH [of "flush_dirty io p f"] show ?case by (auto simp: appends_def)
  qed (simp add: appends_refl)
  from this [of "fw\<lparr>fw_dirty := []\<rparr>" "fw_dirty fw"] con
  have "appends q [] (fw\<lparr>fw_dirty := []\<rparr>) (fold (flush_dirty io) (fw_dirty fw) (fw\<lparr>fw_dirty := []\<rparr>))"
    by (simp add: consistent_def)
  moreover have "log_view (fw\<lparr>fw_dirty := []\<rparr>) = log_view fw" by (rule ext) (simp add: log_view_def split: option.split)
  ultimately show ?thesis
    using appends_refl [OF con] by (simp add: flush_and_sync_dirty_logs_def appends_def)
qed

lemma flush_dirty_logs_accounts:
  assumes "io_full io" and acc: "accounts jsonl fw0 got fw"
  shows "accounts jsonl fw0 got (flush_and_sync_dirty_logs io fw)"
  by (rule accounts_nothing [OF acc flush_dirty_logs_appends [OF assms(1) accounts_consistent [OF acc]]])

text \<open>The events among the messages, and messages whose writes are accepted and whose logs stay.\<close>

definition events_of :: "writer_msg list \<Rightarrow> (file_event \<times> string) list" where
  "events_of msgs = List.map_filter (\<lambda>m. case m of Event io x \<Rightarrow> Some x | _ \<Rightarrow> None) msgs"

lemma events_of_simps [simp]:
  "events_of [] = []"
  "events_of (Event io x # msgs) = x # events_of msgs"
  "events_of (Missed n # msgs) = events_of msgs"
  "events_of (FlushTick io # msgs) = events_of msgs"
  "events_of (Unlinked p # msgs) = events_of msgs"
  by (simp_all add: events_of_def List.map_filter_simps)

fun writes_accepted :: "writer_msg \<Rightarrow> bool" where
  "writes_accepted (Event io x) = io_full io"
| "writes_accepted (Missed n) = True"
| "writes_accepted (FlushTick io) = io_full io"
| "writes_accepted (Unlinked p) = False"

lemma writer_steps_account:
  assumes "list_all writes_accepted msgs" and "accounts jsonl fw0 got fw"
  shows "accounts jsonl fw0 (got @ events_of msgs) (fold (writer_step jsonl) msgs fw)"
  using assms
proof (induction msgs arbitrary: got fw)
  case Nil
  then show ?case by simp
next
  case (Cons m msgs)
  show ?case
  proof (cases m)
    case (Event io x)
    with Cons.prems have "accounts jsonl fw0 (got @ [x]) (snd (write_event io jsonl x fw))"
      by (simp add: write_event_accounts)
    from Cons.IH [OF _ this] Cons.prems Event show ?thesis by (simp add: writer_step_def)
  next
    case (FlushTick io)
    with Cons.prems have "accounts jsonl fw0 got (flush_and_sync_dirty_logs io fw)"
      by (simp add: flush_dirty_logs_accounts)
    from Cons.IH [OF _ this] Cons.prems FlushTick show ?thesis by (simp add: writer_step_def)
  qed (use Cons in \<open>simp_all add: writer_step_def\<close>)
qed

end
