(* ===== verification/Writer_Props.thy ===== *)
theory Writer_Props
  imports File_Writer
begin

text \<open>
  What the log writer promises: with writes accepted, every event it receives is in its log once,
  as a whole line, or waits in the buffer; the bounds of its buffer and its handles; and where the
  buffered events stay behind.
\<close>

section \<open>What is in the files at the end\<close>

definition file_text :: "file_writer \<Rightarrow> path \<Rightarrow> string" where
  "file_text fw p =
     (case map_of (ld_names (fw_disk fw)) p of Some ino \<Rightarrow> ld_data (fw_disk fw) ino | None \<Rightarrow> [])"

definition unflushed :: "file_writer \<Rightarrow> path set" where
  "unflushed fw = {p. \<exists>h. map_of (fw_handles fw) p = Some h \<and> lh_buf h \<noteq> []}"

lemma flushed_view:
  assumes "consistent fw" and "unflushed fw = {}"
  shows "log_view fw p = file_text fw p"
proof (cases "map_of (fw_handles fw) p")
  case None
  then show ?thesis by (simp add: log_view_def file_text_def)
next
  case (Some h)
  with assms have "map_of (ld_names (fw_disk fw)) p = Some (lh_inode h)" "lh_buf h = []"
    by (auto simp: consistent_def unflushed_def)
  with Some show ?thesis by (simp add: log_view_def file_text_def)
qed

lemma flush_handle_unflushed:
  assumes "io_full io" and "consistent fw"
  shows "unflushed (snd (flush_handle io p fw)) = unflushed fw - {p}"
proof -
  obtain ok fw1 where f: "flush_handle io p fw = (ok, fw1)" by (cases "flush_handle io p fw")
  have "map_of (fw_handles fw1) x = (if x = p then map_option (\<lambda>h. h\<lparr>lh_buf := []\<rparr>) (map_of (fw_handles fw) p)
          else map_of (fw_handles fw) x)" for x
    using flush_handle_full [OF assms f, of p] by simp
  then show ?thesis by (auto simp: f unflushed_def)
qed

lemma flush_fold:
  assumes io: "io_full io" and "consistent fw"
  shows "appends q [] fw (fold (\<lambda>p fw. snd (flush_handle io p fw)) ps fw) \<and>
    unflushed (fold (\<lambda>p fw. snd (flush_handle io p fw)) ps fw) = unflushed fw - set ps"
  using assms(2)
proof (induction ps arbitrary: fw)
  case Nil
  then show ?case by (simp add: appends_refl)
next
  case (Cons p ps)
  let ?fw = "snd (flush_handle io p fw)"
  have ap: "appends q [] fw ?fw"
    using flush_handle_full [OF io Cons.prems surjective_pairing, where q = q and p = p] by (elim conjE)
  then have "consistent ?fw" by (simp add: appends_def)
  from Cons.IH [OF this] ap flush_handle_unflushed [OF io Cons.prems, of p] show ?case
    by (auto dest: appends_other)
qed

lemma flush_all_flushes:
  assumes "io_full io" and "consistent fw"
  shows "appends q [] fw (flush_all io fw) \<and> unflushed (flush_all io fw) = {}"
proof -
  have "unflushed fw \<subseteq> fst ` set (fw_handles fw)"
    by (force simp: unflushed_def dest: map_of_SomeD)
  then show ?thesis using flush_fold [OF assms, of q "map fst (fw_handles fw)"] by (auto simp: flush_all_def)
qed

lemma writer_run_accounts:
  assumes "list_all writes_accepted msgs" and io: "io_full io"
    and "consistent fw" and "fw_disk_buf fw = []"
  shows "accounts jsonl fw (events_of msgs) (writer_run jsonl msgs io fw) \<and>
    unflushed (writer_run jsonl msgs io fw) = {}"
proof -
  have "accounts jsonl fw [] fw"
    using assms(3,4) by (auto simp: accounts_def written_since_def lines_for_def intro: exI [of _ "[]"])
  from writer_steps_account [OF assms(1) this]
  have "accounts jsonl fw (events_of msgs) (fold (writer_step jsonl) msgs fw)" by simp
  from flush_dirty_logs_accounts [OF io this]
  have acc: "accounts jsonl fw (events_of msgs)
      (flush_and_sync_dirty_logs io (fold (writer_step jsonl) msgs fw))" (is "accounts _ _ _ ?fw") .
  from flush_all_flushes [OF io accounts_consistent [OF acc], of undefined]
  have "appends undefined [] ?fw (flush_all io ?fw)" "unflushed (flush_all io ?fw) = {}" by simp_all
  with accounts_nothing [OF acc] show ?thesis by (simp add: writer_run_def)
qed

text \<open>
  C11: the log writer implements the specification "append every event to the log of its group". It
  starts with an empty buffer, every byte it writes is accepted, no log is removed under it, and
  opening a log may fail at any time. Then after the run the files hold what they held plus whole
  lines, one for each of some events ys in that order; those and the events left in the buffer
  are among the events received, each as often as it was received at most; and if no more events
  were received than the buffer holds, none is missing.
\<close>

theorem events_in_their_logs:
  assumes "list_all writes_accepted msgs" and "io_full io" and "consistent fw" and "fw_disk_buf fw = []"
  shows "\<exists>ys. (\<forall>p. file_text (writer_run jsonl msgs io fw) p = log_view fw p @ lines_for jsonl (fw_log_dir fw) p ys) \<and>
    mset ys + mset (fw_disk_buf (writer_run jsonl msgs io fw)) \<subseteq># mset (events_of msgs) \<and>
    (length (events_of msgs) \<le> DISK_BUF_CAP \<longrightarrow>
       mset ys + mset (fw_disk_buf (writer_run jsonl msgs io fw)) = mset (events_of msgs))"
proof -
  let ?fw = "writer_run jsonl msgs io fw"
  from writer_run_accounts [OF assms] have acc: "accounts jsonl fw (events_of msgs) ?fw" and "unflushed ?fw = {}"
    by simp_all
  then have view: "file_text ?fw p = log_view ?fw p" for p
    using flushed_view [OF accounts_consistent [OF acc]] by simp
  from acc show ?thesis
    unfolding accounts_def written_since_def view by blast
qed

section \<open>A run for the witnesses\<close>

text \<open>The first event finds its log refused, the second opens it.\<close>

definition good_io :: io where
  "good_io = \<lparr>io_open = \<lambda>_ _. Opened, io_accept = \<lambda>_. None, io_evict = \<lambda>_. 0, io_now = 1\<rparr>"

definition refusing_io :: io where
  "refusing_io = good_io\<lparr>io_open := \<lambda>_ _. OpenRefused\<rparr>"

definition log_entry :: "string \<Rightarrow> file_event \<times> string" where
  "log_entry name =
     (\<lparr>ev_time = 1, ev_type = Create, ev_path = [RootDir, Normal name], ev_pid = 1, ev_comm = [],
       ev_cmd = [], ev_user = [], ev_file_size = 0, ev_ppid = 0, ev_tgid = 0, ev_chain = [],
       ev_fs_error = None\<rparr>, ''g'')"

definition log_line :: "file_event \<Rightarrow> string" where
  "log_line e = concat (map (\<lambda>c. case c of Normal s \<Rightarrow> s | _ \<Rightarrow> []) (ev_path e))"

definition fresh_writer :: file_writer where
  "fresh_writer = writer_new [RootDir, Normal ''log''] (metrics_new True)
     \<lparr>ld_names = [], ld_data = \<lambda>_. [], ld_next = 0\<rparr> 0"

definition sample_msgs :: "writer_msg list" where
  "sample_msgs = [Event refusing_io (log_entry ''a''), Event good_io (log_entry ''b'')]"

lemma sample_msgs_ok: "list_all writes_accepted sample_msgs" "io_full good_io"
  by (simp_all add: sample_msgs_def refusing_io_def good_io_def io_full_def)

lemma fresh_writer_ok: "consistent fresh_writer" "fw_disk_buf fresh_writer = []"
  by (simp_all add: fresh_writer_def writer_new_def consistent_def)

theorem events_in_their_logs_witness:
  "(\<exists>ys. (\<forall>p. file_text (writer_run log_line sample_msgs good_io fresh_writer) p =
        log_view fresh_writer p @ lines_for log_line (fw_log_dir fresh_writer) p ys) \<and>
      mset ys + mset (fw_disk_buf (writer_run log_line sample_msgs good_io fresh_writer)) =
        {#log_entry ''a'', log_entry ''b''#}) \<and>
   file_text (writer_run log_line sample_msgs good_io fresh_writer)
     [RootDir, Normal ''log'', Normal ''g_log.jsonl''] = ''b'' @ [NL] \<and>
   fw_disk_buf (writer_run log_line sample_msgs good_io fresh_writer) = [log_entry ''a'']"
proof -
  have "events_of sample_msgs = [log_entry ''a'', log_entry ''b'']" by (simp add: sample_msgs_def)
  then have len: "length (events_of sample_msgs) \<le> DISK_BUF_CAP"
    "mset (events_of sample_msgs) = {#log_entry ''a'', log_entry ''b''#}"
    by (simp_all add: DISK_BUF_CAP_def)
  have written: "file_text (writer_run log_line sample_msgs good_io fresh_writer)
     [RootDir, Normal ''log'', Normal ''g_log.jsonl''] = ''b'' @ [NL]" by code_simp
  have buf: "fw_disk_buf (writer_run log_line sample_msgs good_io fresh_writer) = [log_entry ''a'']" by code_simp
  from events_in_their_logs [OF sample_msgs_ok fresh_writer_ok, of log_line] len written buf show ?thesis by metis
qed

section \<open>Bounds\<close>

lemma al_put_length: "length (al_put k v m) = (if k \<in> fst ` set m then length m else Suc (length m))"
  by (induction k v m rule: al_put.induct) auto

lemma al_put_set: "set (al_put k v m) \<subseteq> insert (k, v) (set m)"
  by (induction k v m rule: al_put.induct) auto

lemma al_del_length: "k \<in> fst ` set m \<Longrightarrow> length (al_del k m) < length m"
  by (auto simp: al_del_def intro: length_filter_less)

text \<open>At most 64 open logs, and no write buffer beyond its capacity.\<close>

definition handles_bounded :: "file_writer \<Rightarrow> bool" where
  "handles_bounded fw \<longleftrightarrow>
     length (fw_handles fw) \<le> MAX_OPEN_HANDLES \<and> (\<forall>x\<in>set (fw_handles fw). length (lh_buf (snd x)) \<le> BUF_CAP)"

text \<open>What the operations on the files leave alone.\<close>

definition same_state :: "file_writer \<Rightarrow> file_writer \<Rightarrow> bool" where
  "same_state fw fw' \<longleftrightarrow> fw_disk_buf fw' = fw_disk_buf fw \<and> fw_healthy fw' = fw_healthy fw"

definition good :: "file_writer \<Rightarrow> file_writer \<Rightarrow> bool" where
  "good fw fw' \<longleftrightarrow> same_state fw fw' \<and> (handles_bounded fw \<longrightarrow> handles_bounded fw')"

lemma good_refl [simp]: "good fw fw"
  by (simp add: good_def same_state_def)

lemma good_trans: "good fw fw1 \<Longrightarrow> good fw1 fw2 \<Longrightarrow> good fw fw2"
  by (simp add: good_def same_state_def)

lemma good_disk: "good fw (fw\<lparr>fw_disk := d, fw_tick := n\<rparr>)"
  by (simp add: good_def same_state_def handles_bounded_def)

lemma good_set_handle:
  assumes "map_of (fw_handles fw) p = Some h" and "length (lh_buf h') \<le> BUF_CAP"
  shows "good fw (set_handle p h' fw)"
proof -
  have "p \<in> fst ` set (fw_handles fw)" using assms(1) by (force dest: map_of_SomeD)
  then show ?thesis
    using assms(2) al_put_set [of p h' "fw_handles fw"]
    by (auto simp: good_def same_state_def handles_bounded_def set_handle_def al_put_length)
qed

lemma bounded_buf:
  "handles_bounded fw \<Longrightarrow> map_of (fw_handles fw) p = Some h \<Longrightarrow> length (lh_buf h) \<le> BUF_CAP"
  by (force simp: handles_bounded_def dest: map_of_SomeD)

lemma raw_write_good: "good fw (snd (raw_write io ino s fw))"
  by (simp add: raw_write_def Let_def good_disk)

lemma raw_write_handles [simp]: "fw_handles (snd (raw_write io ino s fw)) = fw_handles fw"
  by (simp add: raw_write_def Let_def)

lemma flush_handle_good: "good fw (snd (flush_handle io p fw))"
proof (cases "map_of (fw_handles fw) p")
  case None
  then show ?thesis by (simp add: flush_handle_def)
next
  case (Some h)
  let ?h = "h\<lparr>lh_buf := drop (accepted io (fw_tick fw) (lh_buf h)) (lh_buf h)\<rparr>"
  let ?fw = "snd (raw_write io (lh_inode h) (lh_buf h) fw)"
  have same: "same_state fw (set_handle p ?h ?fw)"
    by (simp add: same_state_def set_handle_def raw_write_def Let_def)
  moreover have "handles_bounded (set_handle p ?h ?fw)" if "handles_bounded fw"
  proof -
    have "length (lh_buf ?h) \<le> BUF_CAP" using bounded_buf [OF that Some] by simp
    from good_set_handle [of ?fw p h, OF _ this] Some raw_write_good [of fw io "lh_inode h" "lh_buf h"] that
    show ?thesis by (simp add: good_def)
  qed
  ultimately show ?thesis
    using Some by (simp add: flush_handle_def good_def Let_def split_beta same_state_def)
qed

lemma flush_handle_buf:
  assumes "flush_handle io p fw = (True, fw1)" and "map_of (fw_handles fw) p = Some h"
  shows "map_of (fw_handles fw1) p = Some (h\<lparr>lh_buf := []\<rparr>)"
proof (cases "lh_buf h = []")
  case False
  then show ?thesis
    using assms by (auto simp: flush_handle_def Let_def raw_write_def set_handle_def al_get_put)
qed (use assms in \<open>auto simp: flush_handle_def\<close>)

lemma push_buf_good:
  assumes "\<And>h. map_of (fw_handles fw) p = Some h \<Longrightarrow> length (lh_buf h) + length s \<le> BUF_CAP"
  shows "good fw (push_buf p s fw)"
  using assms by (auto simp: push_buf_def intro: good_set_handle split: option.split)

lemma buf_write_good: "good fw (snd (buf_write io p s fw))"
proof (cases "map_of (fw_handles fw) p")
  case None
  then show ?thesis by (simp add: buf_write_def)
next
  case (Some h)
  obtain ok fw1 where f: "flush_handle io p fw = (ok, fw1)" by (cases "flush_handle io p fw")
  have fg: "good fw fw1" using flush_handle_good [of fw io p] by (simp add: f)
  have small: "good fw (push_buf p s fw)" if "length s \<le> BUF_CAP - length (lh_buf h)" "s \<noteq> []"
    by (rule push_buf_good) (use that Some in \<open>auto simp flip: length_greater_0_conv\<close>)
  have flushed: "good fw1 (push_buf p s fw1)" if "length s < BUF_CAP" "ok"
    using that flush_handle_buf [of io p fw fw1 h] f Some by (intro push_buf_good) simp
  consider "length s < BUF_CAP - length (lh_buf h)" | "length s = BUF_CAP - length (lh_buf h)"
    | "length s > BUF_CAP - length (lh_buf h)" by linarith
  then show ?thesis
  proof cases
    case 1
    have "good fw (push_buf p s fw)" by (rule push_buf_good) (use 1 Some in simp)
    with 1 Some show ?thesis by (simp add: buf_write_def Let_def)
  next
    case 2
    have "good fw (push_buf p s fw)" if "length s < BUF_CAP"
    proof (cases "s = []")
      case True
      then show ?thesis using Some
        by (auto simp: push_buf_def good_def same_state_def handles_bounded_def set_handle_def al_put_length
            dest!: subsetD [OF al_put_set] map_of_SomeD intro: rev_image_eqI)
    next
      case False
      with small 2 show ?thesis by simp
    qed
    with 2 Some show ?thesis by (simp add: buf_write_def Let_def raw_write_good)
  next
    case 3
    then show ?thesis
      using Some f fg good_trans [OF fg raw_write_good] good_trans [OF fg flushed]
      by (simp add: buf_write_def Let_def)
  qed
qed

lemma write_line_good: "good fw (snd (write_line io p s fw))"
  using buf_write_good good_trans [OF buf_write_good buf_write_good]
  by (simp add: write_line_def split_beta)

lemma drop_handle_good: "good fw (drop_handle io p fw)"
proof -
  let ?fw = "snd (flush_handle io p fw)"
  have "good ?fw (?fw\<lparr>fw_handles := al_del p (fw_handles ?fw)\<rparr>)"
    by (auto simp: good_def same_state_def handles_bounded_def al_del_def
        intro: order_trans [OF length_filter_le])
  from good_trans [OF flush_handle_good this] show ?thesis by (simp add: drop_handle_def Let_def)
qed

lemma flush_handle_handles: "map fst (fw_handles (snd (flush_handle io p fw))) = map fst (fw_handles fw)"
proof (cases "map_of (fw_handles fw) p")
  case (Some h)
  have "map fst (al_put p v m) = map fst m" if "map_of m p \<noteq> None" for v :: log_handle and m
    using that by (induction m) (auto split: if_splits)
  with Some show ?thesis by (simp add: flush_handle_def Let_def split_beta set_handle_def)
qed (simp add: flush_handle_def)

lemma evict_one_good:
  "good fw (evict_one io fw) \<and> (handles_bounded fw \<longrightarrow> length (fw_handles (evict_one io fw)) < MAX_OPEN_HANDLES)"
proof (cases "MAX_OPEN_HANDLES \<le> length (fw_handles fw)")
  case False
  then show ?thesis by (simp add: evict_one_def)
next
  case True
  define p where "p = fst (fw_handles fw ! (io_evict io (fw_tick fw) mod length (fw_handles fw)))"
  let ?fw = "snd (flush_handle io p fw)"
  have "0 < length (fw_handles fw)"
    using True unfolding MAX_OPEN_HANDLES_def by (rule less_le_trans [rotated]) simp
  then have "p \<in> set (map fst (fw_handles fw))"
    unfolding p_def by (metis mod_less_divisor nth_map nth_mem length_map)
  then have "p \<in> fst ` set (fw_handles ?fw)"
    using flush_handle_handles [of io p fw] by (metis image_set)
  then have less: "length (al_del p (fw_handles ?fw)) < length (fw_handles ?fw)" by (rule al_del_length)
  have same: "length (fw_handles ?fw) = length (fw_handles fw)"
    using flush_handle_handles [of io p fw] by (metis length_map)
  have ev: "evict_one io fw = drop_handle io p fw" using True by (simp add: evict_one_def p_def)
  have "fw_handles (drop_handle io p fw) = al_del p (fw_handles ?fw)"
    by (simp add: drop_handle_def Let_def)
  then have "length (fw_handles (drop_handle io p fw)) < length (fw_handles fw)" using less same by simp
  then show ?thesis
    unfolding ev using drop_handle_good [of fw io p] by (auto simp: handles_bounded_def)
qed

lemma open_log_file_good:
  "good fw (snd (open_log_file io p fw)) \<and> fw_handles (snd (open_log_file io p fw)) = fw_handles fw"
  by (auto simp: open_log_file_def Let_def split_beta good_def same_state_def handles_bounded_def)

lemma get_or_open_good: "good fw (snd (get_or_open io p fw))"
proof (cases "map_of (fw_handles fw) p = None")
  case True
  let ?fw = "evict_one io fw"
  obtain r fw1 where op: "open_log_file io p ?fw = (r, fw1)" by (cases "open_log_file io p ?fw")
  have g: "good fw fw1"
    using evict_one_good [of fw io] open_log_file_good [of ?fw io p] good_trans [of fw ?fw fw1]
    by (simp add: op)
  have room: "length (fw_handles fw1) < MAX_OPEN_HANDLES" if "handles_bounded fw"
    using evict_one_good [of fw io] open_log_file_good [of ?fw io p] that by (simp add: op)
  show ?thesis
  proof (cases r)
    case None
    with True op g show ?thesis by (simp add: get_or_open_def)
  next
    case (Some ino)
    have "good fw (set_handle p \<lparr>lh_inode = ino, lh_buf = []\<rparr> fw1)"
      using g room al_put_set [of p "\<lparr>lh_inode = ino, lh_buf = []\<rparr>" "fw_handles fw1"]
      by (auto simp: good_def same_state_def set_handle_def handles_bounded_def al_put_length)
    with True op Some show ?thesis by (simp add: get_or_open_def)
  qed
qed (simp add: get_or_open_def)

lemma keep_pending_bounded [simp]: "handles_bounded (keep_pending x fw) = handles_bounded fw"
  by (simp add: keep_pending_def handles_bounded_def)

lemma count_disk_buf_bounded [simp]:
  "handles_bounded (count_disk_buf fw) = handles_bounded fw" "fw_disk_buf (count_disk_buf fw) = fw_disk_buf fw"
  "fw_healthy (count_disk_buf fw) = fw_healthy fw"
  by (simp_all add: count_disk_buf_def handles_bounded_def)

lemma keep_pending_buf [simp]:
  "fw_disk_buf (keep_pending x fw) = fw_disk_buf fw @ [x]" "fw_healthy (keep_pending x fw) = fw_healthy fw"
  by (simp_all add: keep_pending_def)

lemma bounded_cong:
  "fw_handles fw' = fw_handles fw \<Longrightarrow> handles_bounded fw' = handles_bounded fw"
  by (simp add: handles_bounded_def)

lemma goodD:
  assumes "good fw fw'"
  shows "fw_disk_buf fw' = fw_disk_buf fw" "fw_healthy fw' = fw_healthy fw"
    "handles_bounded fw \<Longrightarrow> handles_bounded fw'"
  using assms by (simp_all add: good_def same_state_def)

lemma retry_event_bounded:
  "(handles_bounded fw \<longrightarrow> handles_bounded (retry_event io jsonl x fw)) \<and>
   length (fw_disk_buf (retry_event io jsonl x fw)) \<le> Suc (length (fw_disk_buf fw))"
proof -
  let ?p = "log_path_of fw (snd x)"
  obtain ok fw1 where g: "get_or_open io ?p fw = (ok, fw1)" by (cases "get_or_open io ?p fw")
  obtain ok2 fw2 where wl: "write_line io ?p (jsonl (fst x)) fw1 = (ok2, fw2)"
    by (cases "write_line io ?p (jsonl (fst x)) fw1")
  have g1: "good fw fw1" using get_or_open_good [of fw io ?p] by (simp add: g)
  have g2: "good fw fw2"
    using good_trans [OF g1] write_line_good [of fw1 io ?p "jsonl (fst x)"] by (simp add: wl)
  have g3: "good fw (drop_handle io ?p fw2)" by (rule good_trans [OF g2 drop_handle_good])
  show ?thesis
    using goodD [OF g1] goodD [OF g2] goodD [OF g3] g wl
    by (cases ok; cases ok2) (simp_all add: retry_event_def Let_def)
qed

lemma retry_all_bounded:
  "(handles_bounded fw \<longrightarrow> handles_bounded (fold (retry_event io jsonl) xs fw)) \<and>
   length (fw_disk_buf (fold (retry_event io jsonl) xs fw)) \<le> length xs + length (fw_disk_buf fw)"
proof (induction xs arbitrary: fw)
  case (Cons x xs)
  from Cons.IH [of "retry_event io jsonl x fw"] retry_event_bounded [of fw io jsonl x] show ?case by force
qed simp

text \<open>What the writer keeps in memory.\<close>

definition bounded :: "file_writer \<Rightarrow> bool" where
  "bounded fw \<longleftrightarrow> handles_bounded fw \<and> length (fw_disk_buf fw) \<le> DISK_BUF_CAP"

lemma bounded_good: "good fw fw' \<Longrightarrow> bounded fw \<Longrightarrow> bounded fw'"
  by (simp add: bounded_def good_def same_state_def)

lemma flush_disk_buf_bounded: "bounded fw \<Longrightarrow> bounded (flush_disk_buf io jsonl fw)"
proof -
  assume b: "bounded fw"
  let ?fw = "fold (retry_event io jsonl) (fw_disk_buf fw) (fw\<lparr>fw_disk_buf := []\<rparr>)"
  have "handles_bounded (fw\<lparr>fw_disk_buf := []\<rparr>)"
    using b bounded_cong [of "fw\<lparr>fw_disk_buf := []\<rparr>" fw] by (simp add: bounded_def)
  then have f: "handles_bounded ?fw" "length (fw_disk_buf ?fw) \<le> DISK_BUF_CAP"
    using retry_all_bounded [of "fw\<lparr>fw_disk_buf := []\<rparr>" io jsonl "fw_disk_buf fw"] b
    by (auto simp: bounded_def)
  have g: "handles_bounded (?fw\<lparr>fw_healthy := fw_disk_buf ?fw = [], fw_last_check := io_now io\<rparr>)"
    "handles_bounded (fw\<lparr>fw_healthy := True\<rparr>)"
    using f(1) b bounded_cong [of "?fw\<lparr>fw_healthy := fw_disk_buf ?fw = [], fw_last_check := io_now io\<rparr>" ?fw]
      bounded_cong [of "fw\<lparr>fw_healthy := True\<rparr>" fw] by (simp_all add: bounded_def)
  show "bounded (flush_disk_buf io jsonl fw)"
    using f(2) g b by (simp add: flush_disk_buf_def bounded_def Let_def)
qed

lemma write_event_bounded:
  assumes "bounded fw"
  shows "bounded (snd (write_event io jsonl x fw))"
proof -
  define fwa where "fwa = (if \<not> fw_healthy fw \<and> RETRY_SECS \<le> io_now io - fw_last_check fw
                 then flush_disk_buf io jsonl fw else fw)"
  have a: "bounded fwa" using assms flush_disk_buf_bounded [OF assms] by (simp add: fwa_def)
  let ?p = "log_path_of fw (snd x)"
  obtain ok fw1 where g: "get_or_open io ?p fwa = (ok, fw1)" by (cases "get_or_open io ?p fwa")
  have b1: "bounded fw1" using bounded_good [OF _ a] get_or_open_good [of fwa io ?p] by (simp add: g)
  show ?thesis
  proof (cases ok)
    case True
    obtain ok2 fw2 where wl: "write_line io ?p (jsonl (fst x)) fw1 = (ok2, fw2)"
      by (cases "write_line io ?p (jsonl (fst x)) fw1")
    have "bounded fw2" using bounded_good [OF _ b1] write_line_good [of fw1 io ?p "jsonl (fst x)"] by (simp add: wl)
    with True g wl show ?thesis
      by (cases ok2) (simp_all add: write_event_def Let_def fwa_def [symmetric] bounded_def handles_bounded_def)
  next
    case False
    have "bounded (drop_handle io ?p fw1)" by (rule bounded_good [OF drop_handle_good b1])
    then show ?thesis
      using False g by (simp add: write_event_def Let_def fwa_def [symmetric] bounded_def handles_bounded_def
          count_disk_buf_def keep_pending_def)
  qed
qed

lemma flush_dirty_good: "good fw (flush_dirty io p fw)"
  by (simp add: flush_dirty_def drop_handle_good flush_handle_good split: option.split)

lemma fold_good:
  assumes "\<And>p fw. good fw (f p fw)"
  shows "good fw (fold f ps fw)"
proof (induction ps arbitrary: fw)
  case (Cons p ps)
  from good_trans [OF assms Cons.IH] show ?case by simp
qed simp

lemma flush_and_sync_good: "good fw (flush_and_sync_dirty_logs io fw)"
proof -
  have "good fw (fw\<lparr>fw_dirty := []\<rparr>)" by (simp add: good_def same_state_def handles_bounded_def)
  from good_trans [OF this fold_good [of "flush_dirty io", OF flush_dirty_good]] show ?thesis
    by (simp add: flush_and_sync_dirty_logs_def)
qed

lemma flush_all_good: "good fw (flush_all io fw)"
  unfolding flush_all_def by (rule fold_good [OF flush_handle_good])

lemma writer_steps_bounded: "bounded fw \<Longrightarrow> bounded (fold (writer_step jsonl) msgs fw)"
proof (induction msgs arbitrary: fw)
  case (Cons m msgs)
  have "bounded (writer_step jsonl m fw)"
  proof (cases m)
    case (Event io x)
    then show ?thesis using write_event_bounded [OF Cons.prems] by (simp add: writer_step_def)
  next
    case (FlushTick io)
    then show ?thesis using bounded_good [OF flush_and_sync_good Cons.prems] by (simp add: writer_step_def)
  qed (use Cons.prems in \<open>simp_all add: writer_step_def bounded_def handles_bounded_def\<close>)
  with Cons.IH show ?case by simp
qed simp

text \<open>
  C39: whatever the system answers and whatever the writer receives, it never has more than 64 logs
  open, no write buffer beyond 8 KiB, and no more than 10000 events waiting.
\<close>

theorem writer_memory_bounded:
  assumes "bounded fw"
  shows "length (fw_handles (writer_run jsonl msgs io fw)) \<le> 64 \<and>
    (\<forall>x\<in>set (fw_handles (writer_run jsonl msgs io fw)). length (lh_buf (snd x)) \<le> 8192) \<and>
    length (fw_disk_buf (writer_run jsonl msgs io fw)) \<le> 10000"
proof -
  have "bounded (writer_run jsonl msgs io fw)"
    unfolding writer_run_def
    by (rule bounded_good [OF flush_all_good bounded_good [OF flush_and_sync_good writer_steps_bounded [OF assms]]])
  then show ?thesis
    by (simp add: bounded_def handles_bounded_def MAX_OPEN_HANDLES_def BUF_CAP_def DISK_BUF_CAP_def)
qed

section \<open>Events left behind\<close>

fun logs_open :: "writer_msg \<Rightarrow> bool" where
  "logs_open (Event io x) = (\<forall>n p. io_open io n p = Opened \<or> io_open io n p = Missing True)"
| "logs_open (Missed n) = True"
| "logs_open (FlushTick io) = True"
| "logs_open (Unlinked p) = True"

lemma get_or_open_opened:
  assumes "\<forall>n p. io_open io n p = Opened \<or> io_open io n p = Missing True"
  shows "fst (get_or_open io p fw)"
  using assms by (fastforce simp: get_or_open_def open_log_file_def Let_def split_beta split: option.splits prod.splits)

lemma healthy_step:
  assumes "logs_open m" and "fw_healthy fw"
  shows "fw_healthy (writer_step jsonl m fw) \<and> fw_disk_buf (writer_step jsonl m fw) = fw_disk_buf fw"
proof (cases m)
  case (Event io x)
  let ?p = "log_path_of fw (snd x)"
  obtain ok fw1 where g: "get_or_open io ?p fw = (ok, fw1)" by (cases "get_or_open io ?p fw")
  then have ok using get_or_open_opened [of io ?p fw] assms(1) Event by simp
  obtain ok2 fw2 where wl: "write_line io ?p (jsonl (fst x)) fw1 = (ok2, fw2)"
    by (cases "write_line io ?p (jsonl (fst x)) fw1")
  have "good fw fw1" using get_or_open_good [of fw io ?p] by (simp add: g)
  moreover have "good fw1 fw2" using write_line_good [of fw1 io ?p "jsonl (fst x)"] by (simp add: wl)
  ultimately have "good fw fw2" by (rule good_trans)
  then show ?thesis
    using Event assms(2) g wl \<open>ok\<close> goodD(1,2) [of fw fw2]
    by (cases ok2) (simp_all add: writer_step_def write_event_def Let_def)
next
  case (FlushTick io)
  then show ?thesis using goodD(1,2) [OF flush_and_sync_good] assms(2) by (simp add: writer_step_def)
qed (use assms in \<open>simp_all add: writer_step_def\<close>)

text \<open>
  C40: the writer looks at the buffered events only while the disk counts as unhealthy, and any event
  whose log opens makes it healthy. So once a log has been opened after a failure, events stay in
  the buffer for as long as no open fails again, whatever else is served, and the end of the run
  drops them.
\<close>

theorem buffered_events_left_behind:
  assumes "list_all logs_open msgs" and "fw_healthy fw"
  shows "fw_disk_buf (writer_run jsonl msgs io fw) = fw_disk_buf fw"
proof -
  have "fw_healthy (fold (writer_step jsonl) msgs fw) \<and>
      fw_disk_buf (fold (writer_step jsonl) msgs fw) = fw_disk_buf fw"
    using assms
  proof (induction msgs arbitrary: fw)
    case (Cons m msgs)
    with healthy_step [of m fw jsonl] show ?case by simp
  qed simp
  then show ?thesis
    using goodD(1) [OF good_trans [OF flush_and_sync_good flush_all_good]] by (simp add: writer_run_def)
qed

theorem writer_memory_bounded_witness:
  "length (fw_handles (writer_run log_line sample_msgs good_io fresh_writer)) \<le> 64 \<and>
   length (fw_disk_buf (writer_run log_line sample_msgs good_io fresh_writer)) = 1"
proof -
  have "bounded fresh_writer"
    by (simp add: bounded_def handles_bounded_def fresh_writer_def writer_new_def)
  moreover have "length (fw_disk_buf (writer_run log_line sample_msgs good_io fresh_writer)) = 1" by code_simp
  ultimately show ?thesis using writer_memory_bounded by blast
qed

text \<open>After the run above, more events for the same log do not bring the first one back.\<close>

theorem buffered_events_left_behind_witness:
  "fw_disk_buf (writer_run log_line [Event good_io (log_entry ''c''), FlushTick good_io] good_io
     (fold (writer_step log_line) sample_msgs fresh_writer)) = [log_entry ''a'']"
proof -
  have "list_all logs_open [Event good_io (log_entry ''c''), FlushTick good_io]" by (simp add: good_io_def)
  moreover have "fw_healthy (fold (writer_step log_line) sample_msgs fresh_writer)" by code_simp
  ultimately have "fw_disk_buf (writer_run log_line [Event good_io (log_entry ''c''), FlushTick good_io] good_io
     (fold (writer_step log_line) sample_msgs fresh_writer)) =
     fw_disk_buf (fold (writer_step log_line) sample_msgs fresh_writer)"
    by (rule buffered_events_left_behind)
  moreover have "fw_disk_buf (fold (writer_step log_line) sample_msgs fresh_writer) = [log_entry ''a'']" by code_simp
  ultimately show ?thesis by simp
qed

end
