(* ===== verification/Event_Process.thy ===== *)
theory Event_Process
  imports Monitor_Inv Process_Info
begin

text \<open>
  Event processing: the decoding half of \<^verbatim>\<open>src/common/fid_parser.rs\<close> and
  \<^verbatim>\<open>src/common/monitor/events.rs\<close>. A batch of kernel events becomes decoded events, renames
  are split in two, and each event is matched, recorded and followed by the marking and the
  clean-up it calls for.
\<close>

section \<open>Decoding\<close>

text \<open>
  A kernel event as the \<^verbatim>\<open>fanotify-fid\<close> crate hands it over once its resolver has run: the path
  the cache gave, if any, and for a rename the path of the target side.
\<close>

record fid_event =
  fe_mask :: u64
  fe_pid :: i32
  fe_path :: "path option"
  fe_rename_target :: "path option"
  fe_fs_error :: "(i32 \<times> u32) option"
  fe_unknown_records :: nat

record decoded_event =
  de_mask :: u64
  de_pid :: i32
  de_path :: path
  de_rename :: "(path option \<times> path option) option"
  de_fs_error :: "(i32 \<times> u32) option"
  de_unparsed :: nat

definition decode_event :: "fan_consts \<Rightarrow> fid_event \<Rightarrow> decoded_event option" where
  "decode_event K ev =
     (let rename = (if fe_mask ev AND FAN_RENAME K \<noteq> 0
                    then Some (fe_path ev, fe_rename_target ev) else None)
      in case fe_path ev of
           None \<Rightarrow> None
         | Some p \<Rightarrow> Some \<lparr>de_mask = fe_mask ev, de_pid = fe_pid ev, de_path = p, de_rename = rename,
                           de_fs_error = fe_fs_error ev, de_unparsed = fe_unknown_records ev\<rparr>)"

definition decode_events :: "fan_consts \<Rightarrow> fid_event list \<Rightarrow> decoded_event list" where
  "decode_events K evs = List.map_filter (decode_event K) evs"

section \<open>Renames\<close>

definition rename_half :: "fan_consts \<Rightarrow> decoded_event \<Rightarrow> u64 \<Rightarrow> path \<Rightarrow> decoded_event" where
  "rename_half K ev flag p =
     \<lparr>de_mask = (de_mask ev AND NOT (FAN_RENAME K)) OR flag, de_pid = de_pid ev, de_path = p,
      de_rename = None, de_fs_error = None, de_unparsed = 0\<rparr>"

definition rename_sides :: "fan_consts \<Rightarrow> decoded_event \<Rightarrow> path option \<times> path option \<Rightarrow> decoded_event list" where
  "rename_sides K ev sides =
     List.map_filter (\<lambda>(p, flag). map_option (rename_half K ev flag) p)
       [(fst sides, FAN_MOVED_FROM K), (snd sides, FAN_MOVED_TO K)]"

fun expand_renames :: "fan_consts \<Rightarrow> decoded_event list \<Rightarrow> decoded_event list \<times> nat" where
  "expand_renames K [] = ([], 0)"
| "expand_renames K (ev # evs) =
     (let (out, unresolved) = expand_renames K evs in
      case de_rename ev of
        None \<Rightarrow> (ev # out, unresolved)
      | Some sides \<Rightarrow>
          (let halves = rename_sides K ev sides
           in (halves @ out, if halves = [] then unresolved + 1 else unresolved)))"

section \<open>Matching\<close>

definition pending_match :: "world \<Rightarrow> path \<Rightarrow> path \<times> path_entry \<Rightarrow> (path \<times> path_options) option" where
  "pending_match w event_path pe =
     (if \<not> path_matches event_path (fst pe) (pe_recursive (snd pe) = Some True) then None
      else (case try_from_entry (w_parse_size w) (snd pe) of
              Inl _ \<Rightarrow> None
            | Inr opts \<Rightarrow> Some (fst pe, opts)))"

definition matching_opts_for_event :: "world \<Rightarrow> monitor \<Rightarrow> path \<Rightarrow> entries" where
  "matching_opts_for_event w m event_path =
     collect_matching_entries event_path (mo_entries m) [] @
     List.map_filter (pending_match w event_path) (mo_pending m)"

definition is_canonical_root_path :: "path \<Rightarrow> path \<Rightarrow> bool" where
  "is_canonical_root_path canonical event_path \<longleftrightarrow>
     canonical = event_path \<or>
     file_name canonical \<noteq> None \<and> file_name canonical = file_name event_path"

definition matches_process_tree ::
  "('t, 'k) tracker_api \<Rightarrow> 't option \<Rightarrow> string option \<Rightarrow> u32 \<Rightarrow> bool" where
  "matches_process_tree api tracker cmd event_pid =
     (case cmd of
        None \<Rightarrow> True
      | Some name \<Rightarrow>
          (case tracker of
             None \<Rightarrow> False
           | Some t \<Rightarrow>
               (case tk_current api t event_pid of
                  None \<Rightarrow> False
                | Some child \<Rightarrow>
                    list_ex (\<lambda>k. Option.bind (tk_metadata api t k) pm_comm = Some name \<and>
                                 tk_descendant api t child k) (tk_live api t))))"

definition unsigned_abs :: "i32 \<Rightarrow> u32" where
  "unsigned_abs pid = (if sint pid < 0 then - pid else pid)"

section \<open>Building a record\<close>

text \<open>
  The size cache belongs to the \<^verbatim>\<open>lru\<close> crate. What the system answers may change from call to
  call, so the answers are indexed by the number of records built so far.
\<close>

record 'c size_cache =
  sc_put :: "path \<Rightarrow> u64 \<Rightarrow> 'c \<Rightarrow> 'c"
  sc_pop :: "path \<Rightarrow> 'c \<Rightarrow> u64 option \<times> 'c"
  sc_get :: "path \<Rightarrow> 'c \<Rightarrow> u64 option \<times> 'c"

record ('t, 'k, 'c) event_env =
  en_api :: "('t, 'k) tracker_api"
  en_tracker :: "'t option"
  en_proc :: "nat \<Rightarrow> proc_fs"
  en_now :: "nat \<Rightarrow> int"
  en_len :: "nat \<Rightarrow> path \<Rightarrow> u64 option"
  en_sizes :: "'c size_cache"

record pending_event =
  pn_event :: file_event
  pn_cmd_name :: string
  pn_pid :: u32

record 'c record_state =
  rc_sizes :: 'c
  rc_tick :: nat
  rc_pending :: "pending_event list"

definition file_size_of ::
  "('t, 'k, 'c) event_env \<Rightarrow> nat \<Rightarrow> event_type \<Rightarrow> path \<Rightarrow> 'c \<Rightarrow> u64 \<times> 'c" where
  "file_size_of env n t p sizes =
     (if t \<in> set [Create, Modify, CloseWrite] then
        (let size = (case en_len env n p of Some l \<Rightarrow> l | None \<Rightarrow> 0)
         in (size, sc_put (en_sizes env) p size sizes))
      else if t \<in> set [Delete, DeleteSelf, MovedFrom] then
        (let (found, sizes') = sc_pop (en_sizes env) p sizes
         in ((case found of Some s \<Rightarrow> s | None \<Rightarrow> 0), sizes'))
      else
        (let (found, sizes') = sc_get (en_sizes env) p sizes
         in ((case found of Some s \<Rightarrow> s | None \<Rightarrow> 0), sizes')))"

definition build_file_event_for_opts ::
  "('t, 'k, 'c) event_env \<Rightarrow> nat \<Rightarrow> decoded_event \<Rightarrow> event_type \<Rightarrow> path_options \<Rightarrow> 'c \<Rightarrow> file_event \<times> 'c" where
  "build_file_event_for_opts env n raw t opts sizes =
     (let pid = unsigned_abs (de_pid raw);
          info = get_proc_info (en_api env) (en_proc env n) (en_tracker env) pid (de_path raw);
          (size, sizes') = file_size_of env n t (de_path raw) sizes;
          chain = (case (po_cmd opts, en_tracker env) of
                     (Some _, Some tr) \<Rightarrow> build_chain (en_api env) (en_proc env n) tr pid
                   | _ \<Rightarrow> [])
      in (\<lparr>ev_time = en_now env n, ev_type = t, ev_path = de_path raw, ev_pid = pid,
           ev_comm = pi_comm info, ev_cmd = pi_cmd info, ev_user = pi_user info,
           ev_file_size = size, ev_ppid = pi_ppid info, ev_tgid = pi_tgid info, ev_chain = chain,
           ev_fs_error = (if t = FsError then de_fs_error raw else None)\<rparr>, sizes'))"

definition record_type ::
  "('t, 'k, 'c) event_env \<Rightarrow> entries \<Rightarrow> decoded_event \<Rightarrow> path_options \<Rightarrow> event_type \<Rightarrow> 'c record_state \<Rightarrow> 'c record_state" where
  "record_type env es raw opts t st =
     (let (event, sizes) = build_file_event_for_opts env (rc_tick st) raw t opts (rc_sizes st);
          st' = st\<lparr>rc_sizes := sizes, rc_tick := rc_tick st + 1\<rparr>
      in if \<not> is_path_in_scope_for_opts es (ev_path event) opts then st'
         else if should_output_for_opts event opts then
           st'\<lparr>rc_pending := rc_pending st' @
                 [\<lparr>pn_event = event, pn_cmd_name = cmd_or_global (po_cmd opts),
                   pn_pid = unsigned_abs (de_pid raw)\<rparr>]\<rparr>
         else st')"

definition record_entry ::
  "('t, 'k, 'c) event_env \<Rightarrow> entries \<Rightarrow> decoded_event \<Rightarrow> event_type list \<Rightarrow> path \<times> path_options \<Rightarrow>
     'c record_state \<Rightarrow> 'c record_state" where
  "record_entry env es raw types entry st =
     (if \<not> matches_process_tree (en_api env) (en_tracker env) (po_cmd (snd entry)) (unsigned_abs (de_pid raw))
      then st else fold (record_type env es raw (snd entry)) types st)"

section \<open>Processing a batch\<close>

definition FSMON_LOG_DIR :: path where
  "FSMON_LOG_DIR = [RootDir, Normal ''var'', Normal ''log'', Normal ''fsmon'']"

definition gone_root :: "monitor \<Rightarrow> event_type list \<Rightarrow> path \<Rightarrow> path option" where
  "gone_root m types p =
     (if DeleteSelf \<in> set types \<or> MovedFrom \<in> set types \<or> Delete \<in> set types
      then find (\<lambda>c. is_canonical_root_path c p) (mo_canonical m) else None)"

definition enters_new_dir :: "world \<Rightarrow> event_type list \<Rightarrow> path \<Rightarrow> entries \<Rightarrow> bool" where
  "enters_new_dir w types p matching \<longleftrightarrow>
     (Create \<in> set types \<or> MovedTo \<in> set types) \<and> fs_is_dir (w_fs w) p \<and>
     list_ex (\<lambda>(q, opts). po_recursive opts \<and> p \<noteq> q) matching"

definition count_unparsed :: "nat \<Rightarrow> monitor \<Rightarrow> monitor" where
  "count_unparsed n m =
     (if 0 < n then m\<lparr>mo_metrics := inc_unparsed_info_records (of_nat n) (mo_metrics m)\<rparr> else m)"

definition process_event ::
  "world \<Rightarrow> ('t, 'k, 'c) event_env \<Rightarrow> decoded_event \<Rightarrow> monitor \<times> 'c record_state \<Rightarrow>
     (monitor \<times> 'c record_state) option" where
  "process_event w env raw s =
     (let (m0, st) = s; p = de_path raw in
      if de_mask raw AND FAN_Q_OVERFLOW (w_fan w) \<noteq> 0 then Some (m0, st)
      else
        (let m = count_unparsed (de_unparsed raw) m0;
             types = mask_to_event_types (w_fan w) (de_mask raw);
             root = gone_root m types p
         in if unsigned_abs (de_pid raw) = mo_daemon_pid m then Some (m, st)
            else if starts_with p FSMON_LOG_DIR then Some (m, st)
            else
              (let matching = matching_opts_for_event w m p in do {
                 m1 \<leftarrow> (if enters_new_dir w types p matching
                        then map_option snd (on_new_subdirectory w p m) else Some m);
                 let st' = fold (record_entry env (mo_entries m1) raw types) matching st;
                 m2 \<leftarrow> (case root of
                          Some r \<Rightarrow> handle_canonical_root_deleted w r m1
                        | None \<Rightarrow> Some m1);
                 Some (m2, st')
               })))"

definition process_event_batch ::
  "world \<Rightarrow> ('t, 'k, 'c) event_env \<Rightarrow> decoded_event list \<Rightarrow> monitor \<times> 'c \<Rightarrow>
     (pending_event list \<times> monitor \<times> 'c) option" where
  "process_event_batch w env events s =
     (let (expanded, unresolved) = expand_renames (w_fan w) events;
          m = (if 0 < unresolved
               then (fst s)\<lparr>mo_metrics := inc_events_unresolved_rename (of_nat unresolved) (mo_metrics (fst s))\<rparr>
               else fst s)
      in map_option (\<lambda>(m', st). (rc_pending st, m', rc_sizes st))
           (fold_opt (process_event w env) expanded
              (m, \<lparr>rc_sizes = snd s, rc_tick = 0, rc_pending = []\<rparr>)))"

definition patch_pending_event ::
  "('t, 'k) tracker_api \<Rightarrow> proc_fs \<Rightarrow> 't option \<Rightarrow> pending_event \<Rightarrow> pending_event" where
  "patch_pending_event api pf tracker pe =
     (let ev = pn_event pe in
      if ev_comm ev = [] \<or> ev_cmd ev = [] \<or> ev_user ev = [] \<or> ev_ppid ev = 0 \<or> ev_tgid ev = 0 then
        (case Option.bind tracker (\<lambda>t. map_option (Pair t) (tk_current api t (pn_pid pe))) of
           None \<Rightarrow> pe
         | Some (t, key) \<Rightarrow>
             pe\<lparr>pn_event := ev\<lparr>
               ev_comm := (if ev_comm ev = []
                           then (case Option.bind (tk_metadata api t key) pm_comm of
                                   Some c \<Rightarrow> c | None \<Rightarrow> ev_comm ev)
                           else ev_comm ev),
               ev_cmd := (if ev_cmd ev = [] then or_empty (pf_cmdline pf (pn_pid pe)) else ev_cmd ev),
               ev_ppid := (if ev_ppid ev = 0
                           then (case Option.bind (tk_node api t key) nd_parent of
                                   Some q \<Rightarrow> tk_tgid api q | None \<Rightarrow> 0)
                           else ev_ppid ev),
               ev_tgid := (if ev_tgid ev = 0 then tk_tgid api key else ev_tgid ev)\<rparr>\<rparr>)
      else pe)"

definition patch_pending_events ::
  "('t, 'k) tracker_api \<Rightarrow> (nat \<Rightarrow> proc_fs) \<Rightarrow> 't option \<Rightarrow> pending_event list \<Rightarrow> pending_event list" where
  "patch_pending_events api pf tracker pes =
     map (\<lambda>(i, pe). patch_pending_event api (pf i) tracker pe) (enumerate 0 pes)"

section \<open>Renames: the masks of the halves\<close>

lemma and_not_other:
  fixes x r g :: "'w :: len word"
  assumes "r AND g = 0"
  shows "(x AND NOT r) AND g = x AND g"
proof (rule bit_eqI)
  fix n
  have "\<not> (bit r n \<and> bit g n)" using assms by (metis bit_0_eq bit_and_iff bot_apply bot_bool_def)
  then show "bit ((x AND NOT r) AND g) n = bit (x AND g) n"
    by (auto simp: bit_simps dest: bit_imp_le_length)
qed

lemma and_not_same: "(x AND NOT r) AND r = (0 :: 'w :: len word)"
  by (simp add: and.assoc)

lemma flag_names:
  "FAN_RENAME K = event_type_to_kernel_flag K Rename"
  "FAN_MOVED_FROM K = event_type_to_kernel_flag K MovedFrom"
  "FAN_MOVED_TO K = event_type_to_kernel_flag K MovedTo"
  by (simp_all add: event_type_to_kernel_flag.simps)

lemma half_types:
  assumes "fan_ok K" and "s \<noteq> Rename"
  shows "t \<in> set (mask_to_event_types K ((x AND NOT (FAN_RENAME K)) OR event_type_to_kernel_flag K s)) \<longleftrightarrow>
     t = s \<or> t \<noteq> Rename \<and> t \<in> set (mask_to_event_types K x)"
proof (cases "t = Rename")
  case True
  then show ?thesis
    using assms and_not_same [of x "FAN_RENAME K"]
    by (simp add: mask_to_event_types_iff or_and_zero_iff flag_names flag_and_flag)
next
  case False
  have "FAN_RENAME K AND event_type_to_kernel_flag K t = 0"
    using False flag_and_flag [OF assms(1), of Rename t] by (simp add: flag_names)
  from and_not_other [OF this, of x] False show ?thesis
    using flag_nonzero [OF assms(1), of s]
    by (auto simp: mask_to_event_types_iff or_and_zero_iff flag_and_flag [OF assms(1)])
qed

lemma in_rename_sides:
  "e \<in> set (rename_sides K ev sides) \<longleftrightarrow>
     (\<exists>p. fst sides = Some p \<and> e = rename_half K ev (FAN_MOVED_FROM K) p) \<or>
     (\<exists>p. snd sides = Some p \<and> e = rename_half K ev (FAN_MOVED_TO K) p)"
  unfolding rename_sides_def in_map_filter by auto

lemma expand_out:
  "fst (expand_renames K evs) =
     concat (map (\<lambda>ev. case de_rename ev of None \<Rightarrow> [ev] | Some sides \<Rightarrow> rename_sides K ev sides) evs)"
  by (induction evs) (auto simp: Let_def split: prod.splits option.splits)

lemma in_expand:
  "e \<in> set (fst (expand_renames K evs)) \<longleftrightarrow>
     (\<exists>ev \<in> set evs. case de_rename ev of None \<Rightarrow> e = ev | Some sides \<Rightarrow> e \<in> set (rename_sides K ev sides))"
  by (auto simp: expand_out split: option.splits)

lemma decoded_rename:
  assumes "ev \<in> set (decode_events K evs)"
  shows "de_rename ev = None \<and> de_mask ev AND FAN_RENAME K = 0 \<or>
    (\<exists>q. de_rename ev = Some (Some (de_path ev), q) \<and> de_mask ev AND FAN_RENAME K \<noteq> 0)"
  using assms by (auto simp: decode_events_def decode_event_def in_map_filter Let_def
    split: option.splits if_splits)

text \<open>After decoding and splitting, no event has the rename flag and every rename was placed.\<close>

lemma no_rename_left:
  assumes "fan_ok K" and "e \<in> set (fst (expand_renames K (decode_events K evs)))"
  shows "Rename \<notin> set (mask_to_event_types K (de_mask e))"
proof -
  from assms(2) obtain ev where ev: "ev \<in> set (decode_events K evs)"
    and e: "case de_rename ev of None \<Rightarrow> e = ev | Some sides \<Rightarrow> e \<in> set (rename_sides K ev sides)"
    by (auto simp: in_expand)
  from decoded_rename [OF ev] show ?thesis
  proof
    assume "de_rename ev = None \<and> de_mask ev AND FAN_RENAME K = 0"
    with e show ?thesis by (simp add: mask_to_event_types_iff flag_names)
  next
    assume "\<exists>q. de_rename ev = Some (Some (de_path ev), q) \<and> de_mask ev AND FAN_RENAME K \<noteq> 0"
    with e have "e \<in> set (rename_sides K ev (the (de_rename ev)))" by auto
    then obtain s p where "s \<noteq> Rename" "e = rename_half K ev (event_type_to_kernel_flag K s) p"
      by (auto simp: in_rename_sides flag_names(2,3))
    with half_types [OF assms(1), of s Rename] show ?thesis by (simp add: rename_half_def)
  qed
qed

lemma expand_unresolved:
  "snd (expand_renames K evs) =
     length (filter (\<lambda>ev. de_rename ev = Some (None, None)) evs)"
  by (induction evs)
    (auto simp: Let_def rename_sides_def List.map_filter_simps split: prod.splits option.splits)

section \<open>What one event records\<close>

definition allowed_type :: "path_options \<Rightarrow> event_type \<Rightarrow> bool" where
  "allowed_type opts t = (case po_event_types opts of Some ts \<Rightarrow> t \<in> set ts | None \<Rightarrow> True)"

text \<open>A record that the options of an entry may make of an event.\<close>

definition made_by :: "entries \<Rightarrow> decoded_event \<Rightarrow> event_type list \<Rightarrow> path_options \<Rightarrow> pending_event \<Rightarrow> bool" where
  "made_by es raw types opts pn \<longleftrightarrow>
     ev_path (pn_event pn) = de_path raw \<and> ev_pid (pn_event pn) = unsigned_abs (de_pid raw) \<and>
     pn_pid pn = unsigned_abs (de_pid raw) \<and> ev_type (pn_event pn) \<in> set types \<and>
     pn_cmd_name pn = cmd_or_global (po_cmd opts) \<and>
     is_path_in_scope_for_opts es (de_path raw) opts \<and> should_output_for_opts (pn_event pn) opts"

text \<open>The type and the log of every record, when no entry filters by size.\<close>

definition expected_of ::
  "('t, 'k, 'c) event_env \<Rightarrow> entries \<Rightarrow> decoded_event \<Rightarrow> event_type list \<Rightarrow> path_options \<Rightarrow> (event_type \<times> string) list" where
  "expected_of env es raw types opts =
     (if matches_process_tree (en_api env) (en_tracker env) (po_cmd opts) (unsigned_abs (de_pid raw)) \<and>
         is_path_in_scope_for_opts es (de_path raw) opts
      then map (\<lambda>t. (t, cmd_or_global (po_cmd opts))) (filter (allowed_type opts) types) else [])"

definition expected_records ::
  "('t, 'k, 'c) event_env \<Rightarrow> entries \<Rightarrow> decoded_event \<Rightarrow> event_type list \<Rightarrow> entries \<Rightarrow> (event_type \<times> string) list" where
  "expected_records env es raw types matching = concat (map (\<lambda>x. expected_of env es raw types (snd x)) matching)"

definition label_of :: "pending_event \<Rightarrow> event_type \<times> string" where
  "label_of pn = (ev_type (pn_event pn), pn_cmd_name pn)"

lemma build_fields [simp]:
  "ev_path (fst (build_file_event_for_opts env n raw t opts sizes)) = de_path raw"
  "ev_type (fst (build_file_event_for_opts env n raw t opts sizes)) = t"
  "ev_pid (fst (build_file_event_for_opts env n raw t opts sizes)) = unsigned_abs (de_pid raw)"
  by (simp_all add: build_file_event_for_opts_def Let_def split: prod.split)

definition new_record ::
  "('t, 'k, 'c) event_env \<Rightarrow> decoded_event \<Rightarrow> path_options \<Rightarrow> event_type \<Rightarrow> 'c record_state \<Rightarrow> pending_event" where
  "new_record env raw opts t st =
     \<lparr>pn_event = fst (build_file_event_for_opts env (rc_tick st) raw t opts (rc_sizes st)),
      pn_cmd_name = cmd_or_global (po_cmd opts), pn_pid = unsigned_abs (de_pid raw)\<rparr>"

lemma record_type_pending:
  "rc_pending (record_type env es raw opts t st) = rc_pending st @
     (if is_path_in_scope_for_opts es (de_path raw) opts \<and>
         should_output_for_opts (pn_event (new_record env raw opts t st)) opts
      then [new_record env raw opts t st] else [])"
  by (auto simp: record_type_def new_record_def split_beta Let_def)

lemma should_output_unsized:
  "po_size_filter opts = None \<Longrightarrow> should_output_for_opts ev opts \<longleftrightarrow> allowed_type opts (ev_type ev)"
  by (auto simp: should_output_for_opts_def should_output_def allowed_type_def split: option.splits)

lemma should_output_allowed: "should_output_for_opts ev opts \<Longrightarrow> allowed_type opts (ev_type ev)"
  by (auto simp: should_output_for_opts_def should_output_def allowed_type_def split: option.splits if_splits)

lemma made_by_Cons: "made_by es raw ts opts pn \<Longrightarrow> made_by es raw (t # ts) opts pn"
  by (simp add: made_by_def)

lemma fold_record_type:
  "\<exists>new. rc_pending (fold (record_type env es raw opts) ts st) = rc_pending st @ new \<and>
     list_all (made_by es raw ts opts) new \<and>
     (po_size_filter opts = None \<longrightarrow>
        map label_of new = (if is_path_in_scope_for_opts es (de_path raw) opts
          then map (\<lambda>t. (t, cmd_or_global (po_cmd opts))) (filter (allowed_type opts) ts) else []))"
proof (induction ts arbitrary: st)
  case Nil
  then show ?case by simp
next
  case (Cons t ts)
  let ?st = "record_type env es raw opts t st" and ?pn = "new_record env raw opts t st"
  let ?one = "if is_path_in_scope_for_opts es (de_path raw) opts \<and> should_output_for_opts (pn_event ?pn) opts
    then [?pn] else []"
  have pn: "label_of ?pn = (t, cmd_or_global (po_cmd opts))" "ev_type (pn_event ?pn) = t"
    "list_all (made_by es raw (t # ts) opts) ?one"
    by (simp_all add: new_record_def label_of_def made_by_def)
  from Cons.IH [of ?st] obtain new where new:
    "rc_pending (fold (record_type env es raw opts) ts ?st) = rc_pending ?st @ new"
    "list_all (made_by es raw ts opts) new"
    "po_size_filter opts = None \<longrightarrow>
        map label_of new = (if is_path_in_scope_for_opts es (de_path raw) opts
          then map (\<lambda>t. (t, cmd_or_global (po_cmd opts))) (filter (allowed_type opts) ts) else [])"
    by (elim exE conjE) (rule that)
  show ?case
  proof (intro exI conjI)
    show "rc_pending (fold (record_type env es raw opts) (t # ts) st) = rc_pending st @ (?one @ new)"
      using new(1) by (simp add: record_type_pending)
    show "list_all (made_by es raw (t # ts) opts) (?one @ new)"
      unfolding list_all_append
      by (intro conjI pn(3) list.pred_mono_strong [OF new(2)] made_by_Cons)
  qed (use new(3) pn(1,2) in \<open>auto simp: should_output_unsized\<close>)
qed

lemma fold_record_entry:
  "\<exists>new. rc_pending (fold (record_entry env es raw types) matching st) = rc_pending st @ new \<and>
     (\<forall>pn \<in> set new. \<exists>(q, opts) \<in> set matching. made_by es raw types opts pn \<and>
        matches_process_tree (en_api env) (en_tracker env) (po_cmd opts) (unsigned_abs (de_pid raw))) \<and>
     (list_all (\<lambda>x. po_size_filter (snd x) = None) matching \<longrightarrow>
        map label_of new = expected_records env es raw types matching)"
proof (induction matching arbitrary: st)
  case Nil
  then show ?case by (simp add: expected_records_def)
next
  case (Cons x matching)
  let ?st = "record_entry env es raw types x st"
  let ?live = "matches_process_tree (en_api env) (en_tracker env) (po_cmd (snd x)) (unsigned_abs (de_pid raw))"
  have "\<exists>one. rc_pending ?st = rc_pending st @ one \<and> (one \<noteq> [] \<longrightarrow> ?live) \<and>
      list_all (made_by es raw types (snd x)) one \<and>
      (po_size_filter (snd x) = None \<longrightarrow> map label_of one = expected_of env es raw types (snd x))"
    using fold_record_type [of env es raw "snd x" types st]
    by (cases ?live) (auto simp: record_entry_def expected_of_def)
  then obtain one where one: "rc_pending ?st = rc_pending st @ one" "one \<noteq> [] \<longrightarrow> ?live"
      "list_all (made_by es raw types (snd x)) one"
      "po_size_filter (snd x) = None \<longrightarrow> map label_of one = expected_of env es raw types (snd x)"
    by (elim exE conjE) (rule that)
  from Cons.IH [of ?st] obtain new where new:
    "rc_pending (fold (record_entry env es raw types) matching ?st) = rc_pending ?st @ new"
    "\<forall>pn \<in> set new. \<exists>(q, opts) \<in> set matching. made_by es raw types opts pn \<and>
        matches_process_tree (en_api env) (en_tracker env) (po_cmd opts) (unsigned_abs (de_pid raw))"
    "list_all (\<lambda>x. po_size_filter (snd x) = None) matching \<longrightarrow>
        map label_of new = expected_records env es raw types matching"
    by (elim exE conjE) (rule that)
  show ?case
  proof (intro exI conjI)
    show "rc_pending (fold (record_entry env es raw types) (x # matching) st) = rc_pending st @ (one @ new)"
      using one(1) new(1) by simp
    show "\<forall>pn \<in> set (one @ new). \<exists>(q, opts) \<in> set (x # matching). made_by es raw types opts pn \<and>
        matches_process_tree (en_api env) (en_tracker env) (po_cmd opts) (unsigned_abs (de_pid raw))"
    proof
      fix pn assume "pn \<in> set (one @ new)"
      then consider "pn \<in> set one" | "pn \<in> set new" by auto
      then show "\<exists>(q, opts) \<in> set (x # matching). made_by es raw types opts pn \<and>
          matches_process_tree (en_api env) (en_tracker env) (po_cmd opts) (unsigned_abs (de_pid raw))"
      proof cases
        case 1
        with one(2,3) have "made_by es raw types (snd x) pn \<and> ?live" by (auto simp: list_all_iff)
        then show ?thesis by (intro bexI [of _ x]) (simp_all add: split_beta)
      next
        case 2
        with new(2) obtain y where "y \<in> set matching" "case y of (q, opts) \<Rightarrow> made_by es raw types opts pn \<and>
            matches_process_tree (en_api env) (en_tracker env) (po_cmd opts) (unsigned_abs (de_pid raw))"
          by blast
        then show ?thesis by (intro bexI [of _ y]) simp_all
      qed
    qed
  qed (use one(4) new(3) in \<open>auto simp: expected_records_def\<close>)
qed

end
