(* ===== verification/Event_Props.thy ===== *)
theory Event_Props
  imports Event_Process Monitor_Props
begin

text \<open>
  Properties of the event processing of \<open>Event_Process\<close>: what one event records, that renames
  are placed and never recorded as such, and that a batch keeps the monitor's invariant.
\<close>

lemma distinct_singleton_set:
  assumes "distinct xs" and "\<And>y. y \<in> set xs \<longleftrightarrow> y = x"
  shows "xs = [x]"
proof (cases xs)
  case Nil
  then show ?thesis using assms(2) [of x] by simp
next
  case (Cons a ys)
  then have "a = x" using assms(2) [of a] by simp
  moreover have "ys = []"
  proof (cases ys)
    case (Cons b zs)
    with assms \<open>xs = a # ys\<close> show ?thesis using assms(2) [of b] \<open>a = x\<close> by auto
  qed
  ultimately show ?thesis using Cons by simp
qed

section \<open>One event\<close>

definition considered :: "world \<Rightarrow> monitor \<Rightarrow> decoded_event \<Rightarrow> bool" where
  "considered w m raw \<longleftrightarrow>
     de_mask raw AND FAN_Q_OVERFLOW (w_fan w) = 0 \<and> unsigned_abs (de_pid raw) \<noteq> mo_daemon_pid m \<and>
     \<not> starts_with (de_path raw) FSMON_LOG_DIR"

lemma count_unparsed_simps [simp]:
  "mo_entries (count_unparsed n m) = mo_entries m" "mo_pending (count_unparsed n m) = mo_pending m"
  "mo_daemon_pid (count_unparsed n m) = mo_daemon_pid m" "core (count_unparsed n m) = core m"
  by (simp_all add: count_unparsed_def core_def)

lemma matching_count_unparsed [simp]:
  "matching_opts_for_event w (count_unparsed n m) p = matching_opts_for_event w m p"
  by (simp add: matching_opts_for_event_def)

lemma on_new_subdirectory_entries:
  "well_founded_tree (w_tree w) \<Longrightarrow> on_new_subdirectory w p m = Some (ds, m') \<Longrightarrow>
     mo_entries m' = mo_entries m"
  using on_new_subdirectory_core [of w p m] core_fields by (fastforce simp: returns_iff)

lemma process_event_records:
  assumes tree: "well_founded_tree (w_tree w)"
    and run: "process_event w env raw (m, st) = Some (m', st')"
  shows "st' = (if considered w m raw
     then fold (record_entry env (mo_entries m) raw (mask_to_event_types (w_fan w) (de_mask raw)))
            (matching_opts_for_event w m (de_path raw)) st
     else st)"
proof (cases "considered w m raw")
  case False
  with run show ?thesis
    by (auto simp: process_event_def considered_def Let_def split: if_splits)
next
  case True
  let ?m = "count_unparsed (de_unparsed raw) m" and ?types = "mask_to_event_types (w_fan w) (de_mask raw)"
  let ?matching = "matching_opts_for_event w m (de_path raw)"
  from run True obtain m1 where
    m1: "(if enters_new_dir w ?types (de_path raw) ?matching
          then map_option snd (on_new_subdirectory w (de_path raw) ?m) else Some ?m) = Some m1"
    and st': "st' = fold (record_entry env (mo_entries m1) raw ?types) ?matching st"
    unfolding process_event_def considered_def
    by (auto simp: Let_def bind_eq_Some_conv)
  have "mo_entries m1 = mo_entries m"
    using m1 on_new_subdirectory_entries [OF tree] by (auto split: if_splits)
  with st' True show ?thesis by simp
qed

lemma made_by_live_entry:
  assumes "made_by es raw types opts pn"
  shows "\<exists>(q, stored) \<in> set es. path_matches (de_path raw) q (po_recursive stored) \<and>
    pn_cmd_name pn = cmd_or_global (po_cmd stored)"
proof -
  from assms have "is_path_in_scope_for_opts es (de_path raw) opts"
    and cmd: "pn_cmd_name pn = cmd_or_global (po_cmd opts)"
    by (simp_all add: made_by_def)
  then obtain x where x: "x \<in> set es" "po_cmd (snd x) = po_cmd opts" "po_recursive (snd x) = po_recursive opts"
    "path_matches (de_path raw) (fst x) (po_recursive opts)"
    by (auto simp: in_scope_iff)
  with cmd show ?thesis by (intro bexI [of _ x]) (simp_all add: split_beta)
qed

section \<open>A batch\<close>

lemma process_event_ok:
  assumes "well_founded_tree (w_tree w)" and "monitor_ok m"
  shows "returns (process_event w env raw (m, st)) (\<lambda>(m', _). monitor_ok m')"
proof (cases "considered w m raw")
  case False
  have "monitor_ok (count_unparsed n m)" for n
    using assms(2) by (rule core_okI [rotated]) simp
  with False assms(2) show ?thesis by (auto simp: process_event_def considered_def Let_def)
next
  case True
  let ?m = "count_unparsed (de_unparsed raw) m" and ?types = "mask_to_event_types (w_fan w) (de_mask raw)"
  let ?matching = "matching_opts_for_event w m (de_path raw)"
  have ok: "monitor_ok ?m" using assms(2) by (rule core_okI [rotated]) simp
  have enter: "returns (if enters_new_dir w ?types (de_path raw) ?matching
          then map_option snd (on_new_subdirectory w (de_path raw) ?m) else Some ?m) monitor_ok"
    using on_new_subdirectory_ok [OF assms(1) ok, of "de_path raw"] ok by (auto simp: returns_iff)
  have leave: "returns (case root of Some r \<Rightarrow> handle_canonical_root_deleted w r m1 | None \<Rightarrow> Some m1) monitor_ok"
    if "monitor_ok m1" for root m1
    using handle_canonical_root_deleted_ok [OF that] that by (simp split: option.split)
  have "returns (process_event w env raw (m, st)) (\<lambda>(m', _). monitor_ok m') =
      returns (do {
        m1 \<leftarrow> (if enters_new_dir w ?types (de_path raw) ?matching
               then map_option snd (on_new_subdirectory w (de_path raw) ?m) else Some ?m);
        m2 \<leftarrow> (case gone_root ?m ?types (de_path raw) of
                 Some r \<Rightarrow> handle_canonical_root_deleted w r m1 | None \<Rightarrow> Some m1);
        Some (m2, fold (record_entry env (mo_entries m1) raw ?types) ?matching st)
      }) (\<lambda>(m', _). monitor_ok m')"
    using True by (simp add: process_event_def considered_def Let_def)
  also have "\<dots>"
    by (rule returns_bind [OF enter], rule returns_bind [OF leave]) simp_all
  finally show ?thesis .
qed

lemma fold_process_event_ok:
  assumes "well_founded_tree (w_tree w)" and "monitor_ok (fst s)"
  shows "returns (fold_opt (process_event w env) evs s) (\<lambda>s'. monitor_ok (fst s'))"
proof (rule returns_fold_opt [where P = "\<lambda>s'. monitor_ok (fst s')", OF assms(2)])
  fix raw and s' :: "monitor \<times> 'a record_state"
  assume "monitor_ok (fst s')"
  from process_event_ok [OF assms(1) this, of env raw "snd s'"]
  show "returns (process_event w env raw s') (\<lambda>s'. monitor_ok (fst s'))"
    by (cases s') (auto simp: returns_iff)
qed

lemma process_event_batch_ok:
  assumes "well_founded_tree (w_tree w)" and "monitor_ok m"
  shows "returns (process_event_batch w env events (m, c)) (\<lambda>(_, m', _). monitor_ok m')"
proof -
  obtain expanded u where x: "expand_renames (w_fan w) events = (expanded, u)" by (cases "expand_renames (w_fan w) events")
  let ?m = "if 0 < u then m\<lparr>mo_metrics := inc_events_unresolved_rename (of_nat u) (mo_metrics m)\<rparr> else m"
  have "monitor_ok ?m" using assms(2) by simp
  from fold_process_event_ok [OF assms(1), of "(?m, \<lparr>rc_sizes = c, rc_tick = 0, rc_pending = []\<rparr>)" env expanded] this
  show ?thesis by (auto simp: process_event_batch_def x Let_def returns_iff)
qed

text \<open>Whatever holds of the records of every event holds of the records of the batch.\<close>

lemma batch_records:
  assumes tree: "well_founded_tree (w_tree w)"
    and run: "process_event_batch w env events s = Some (pending, m', c')"
    and each: "\<And>raw es opts pn. raw \<in> set (fst (expand_renames (w_fan w) events)) \<Longrightarrow>
       made_by es raw (mask_to_event_types (w_fan w) (de_mask raw)) opts pn \<Longrightarrow> P pn"
  shows "\<forall>pn \<in> set pending. P pn"
proof -
  have step: "fold_opt (process_event w env) evs (m, st) = Some (m', st') \<Longrightarrow>
      set evs \<subseteq> set (fst (expand_renames (w_fan w) events)) \<Longrightarrow>
      \<forall>pn \<in> set (rc_pending st). P pn \<Longrightarrow> \<forall>pn \<in> set (rc_pending st'). P pn" for evs m st m' st'
  proof (induction evs arbitrary: m st)
    case (Cons raw evs)
    from Cons.prems(1) obtain m1 st1 where one: "process_event w env raw (m, st) = Some (m1, st1)"
      and rest: "fold_opt (process_event w env) evs (m1, st1) = Some (m', st')"
      by (auto split: option.splits)
    let ?types = "mask_to_event_types (w_fan w) (de_mask raw)"
    let ?st = "fold (record_entry env (mo_entries m) raw ?types) (matching_opts_for_event w m (de_path raw)) st"
    obtain new where "rc_pending ?st = rc_pending st @ new"
      "\<forall>pn \<in> set new. \<exists>(q, opts) \<in> set (matching_opts_for_event w m (de_path raw)).
         made_by (mo_entries m) raw ?types opts pn \<and>
         matches_process_tree (en_api env) (en_tracker env) (po_cmd opts) (unsigned_abs (de_pid raw))"
      using fold_record_entry [of env "mo_entries m" raw ?types "matching_opts_for_event w m (de_path raw)" st]
      by (elim exE conjE) (rule that)
    moreover have "P pn" if "made_by (mo_entries m) raw ?types opts pn" for opts pn
      using each [OF _ that] Cons.prems(2) by simp
    ultimately have "\<forall>pn \<in> set (rc_pending ?st). P pn" using Cons.prems(3) by fastforce
    then have "\<forall>pn \<in> set (rc_pending st1). P pn"
      using process_event_records [OF tree one] Cons.prems(3) by simp
    from Cons.IH [OF rest _ this] Cons.prems(2) show ?case by simp
  qed simp
  from run obtain st' where "fold_opt (process_event w env) (fst (expand_renames (w_fan w) events))
      (if 0 < snd (expand_renames (w_fan w) events)
       then (fst s)\<lparr>mo_metrics := inc_events_unresolved_rename (of_nat (snd (expand_renames (w_fan w) events))) (mo_metrics (fst s))\<rparr>
       else fst s, \<lparr>rc_sizes = snd s, rc_tick = 0, rc_pending = []\<rparr>) = Some (m', st')"
    and "pending = rc_pending st'"
    by (auto simp: process_event_batch_def split_beta Let_def)
  from step [OF this(1)] this(2) show ?thesis by simp
qed

section \<open>The records of one event\<close>

lemma recorded_exactly:
  assumes "well_founded_tree (w_tree w)" and "process_event w env raw (m, st) = Some (m', st')"
  shows "\<exists>new. rc_pending st' = rc_pending st @ new \<and>
    (\<forall>pn \<in> set new. ev_path (pn_event pn) = de_path raw \<and> ev_pid (pn_event pn) = unsigned_abs (de_pid raw) \<and>
       ev_type (pn_event pn) \<in> set (mask_to_event_types (w_fan w) (de_mask raw)) \<and>
       (\<exists>(q, stored) \<in> set (mo_entries m). path_matches (de_path raw) q (po_recursive stored) \<and>
          pn_cmd_name pn = cmd_or_global (po_cmd stored))) \<and>
    (\<not> considered w m raw \<longrightarrow> new = []) \<and>
    (considered w m raw \<and>
       list_all (\<lambda>x. po_size_filter (snd x) = None) (matching_opts_for_event w m (de_path raw)) \<longrightarrow>
     map label_of new = expected_records env (mo_entries m) raw
       (mask_to_event_types (w_fan w) (de_mask raw)) (matching_opts_for_event w m (de_path raw)))"
proof (cases "considered w m raw")
  case False
  with process_event_records [OF assms] show ?thesis by simp
next
  case True
  let ?types = "mask_to_event_types (w_fan w) (de_mask raw)"
  let ?matching = "matching_opts_for_event w m (de_path raw)"
  obtain new where new:
    "rc_pending (fold (record_entry env (mo_entries m) raw ?types) ?matching st) = rc_pending st @ new"
    "\<forall>pn \<in> set new. \<exists>(q, opts) \<in> set ?matching. made_by (mo_entries m) raw ?types opts pn \<and>
        matches_process_tree (en_api env) (en_tracker env) (po_cmd opts) (unsigned_abs (de_pid raw))"
    "list_all (\<lambda>x. po_size_filter (snd x) = None) ?matching \<longrightarrow>
        map label_of new = expected_records env (mo_entries m) raw ?types ?matching"
    using fold_record_entry [of env "mo_entries m" raw ?types ?matching st] by (elim exE conjE) (rule that)
  have made: "ev_path (pn_event pn) = de_path raw \<and> ev_pid (pn_event pn) = unsigned_abs (de_pid raw) \<and>
       ev_type (pn_event pn) \<in> set ?types \<and>
       (\<exists>(q, stored) \<in> set (mo_entries m). path_matches (de_path raw) q (po_recursive stored) \<and>
          pn_cmd_name pn = cmd_or_global (po_cmd stored))" if "pn \<in> set new" for pn
  proof -
    from new(2) that obtain opts where "made_by (mo_entries m) raw ?types opts pn" by blast
    then show ?thesis using made_by_live_entry by (simp add: made_by_def)
  qed
  show ?thesis
    using process_event_records [OF assms] True new(1,3) made by (intro exI [of _ new]) simp
qed

lemma fold_process_event_keeps:
  assumes tree: "well_founded_tree (w_tree w)"
    and "fold_opt (process_event w env) evs (m, st) = Some (m', st')" and "pn \<in> set (rc_pending st)"
  shows "pn \<in> set (rc_pending st')"
  using assms(2,3)
proof (induction evs arbitrary: m st)
  case (Cons raw evs)
  then obtain m1 st1 where one: "process_event w env raw (m, st) = Some (m1, st1)"
    and rest: "fold_opt (process_event w env) evs (m1, st1) = Some (m', st')"
    by (auto split: option.splits)
  from recorded_exactly [OF tree one] Cons.prems(2) have "pn \<in> set (rc_pending st1)" by auto
  with Cons.IH [OF rest] show ?case .
qed simp

text \<open>The first event of a batch is recorded by the monitor as the batch finds it.\<close>

lemma first_event_recorded:
  assumes tree: "well_founded_tree (w_tree w)"
    and run: "process_event_batch w env (raw # post) (m, c) = Some (pending, m', c')"
    and "de_rename raw = None" and con: "considered w m raw"
    and unsized: "list_all (\<lambda>x. po_size_filter (snd x) = None) (matching_opts_for_event w m (de_path raw))"
    and expected: "(ty, name) \<in> set (expected_records env (mo_entries m) raw
       (mask_to_event_types (w_fan w) (de_mask raw)) (matching_opts_for_event w m (de_path raw)))"
  shows "\<exists>pn \<in> set pending. ev_path (pn_event pn) = de_path raw \<and> ev_type (pn_event pn) = ty \<and>
    ev_pid (pn_event pn) = unsigned_abs (de_pid raw) \<and> pn_cmd_name pn = name"
proof -
  obtain out u where x: "expand_renames (w_fan w) post = (out, u)" by (cases "expand_renames (w_fan w) post")
  let ?m = "if 0 < u then m\<lparr>mo_metrics := inc_events_unresolved_rename (of_nat u) (mo_metrics m)\<rparr> else m"
  let ?st = "\<lparr>rc_sizes = c, rc_tick = 0, rc_pending = []\<rparr>"
  have same: "considered w ?m raw = considered w m raw" "mo_entries ?m = mo_entries m"
    "matching_opts_for_event w ?m (de_path raw) = matching_opts_for_event w m (de_path raw)"
    by (simp_all add: considered_def matching_opts_for_event_def)
  from run [unfolded process_event_batch_def fst_conv snd_conv] assms(3) x obtain m1 st1 st' where one: "process_event w env raw (?m, ?st) = Some (m1, st1)"
    and rest: "fold_opt (process_event w env) out (m1, st1) = Some (m', st')" and pending: "pending = rc_pending st'"
    by (auto simp: Let_def split: option.splits)
  from recorded_exactly [OF tree one] con unsized obtain new where new: "rc_pending st1 = new"
    "\<forall>pn \<in> set new. ev_path (pn_event pn) = de_path raw \<and> ev_pid (pn_event pn) = unsigned_abs (de_pid raw)"
    "map label_of new = expected_records env (mo_entries m) raw
       (mask_to_event_types (w_fan w) (de_mask raw)) (matching_opts_for_event w m (de_path raw))"
    unfolding same by auto
  from expected new(3) have "(ty, name) \<in> set (map label_of new)" by simp
  then obtain pn where pn: "pn \<in> set new" "label_of pn = (ty, name)" by auto
  with fold_process_event_keeps [OF tree rest] new(1) have "pn \<in> set pending" by (simp add: pending)
  with pn new(2) show ?thesis by (auto simp: label_of_def)
qed

section \<open>Properties\<close>

text \<open>
  C16: An event is recorded for live entries only: each record carries the path, the process and
  one of the types of the event, and goes to the log of an entry the path lies in. An overflow,
  the daemon's own events and those below its log directory record nothing; of any other event,
  when no matching entry filters by size, the records are exactly the types each entry in scope
  allows, entry by entry, in the order of the entries.
\<close>

theorem event_recorded_exactly:
  assumes "well_founded_tree (w_tree w)" and "process_event w env raw (m, st) = Some (m', st')"
  shows "\<exists>new. rc_pending st' = rc_pending st @ new \<and>
    (\<forall>pn \<in> set new. ev_path (pn_event pn) = de_path raw \<and> ev_pid (pn_event pn) = unsigned_abs (de_pid raw) \<and>
       ev_type (pn_event pn) \<in> set (mask_to_event_types (w_fan w) (de_mask raw)) \<and>
       (\<exists>(q, stored) \<in> set (mo_entries m). path_matches (de_path raw) q (po_recursive stored) \<and>
          pn_cmd_name pn = cmd_or_global (po_cmd stored))) \<and>
    (\<not> considered w m raw \<longrightarrow> new = []) \<and>
    (considered w m raw \<and>
       list_all (\<lambda>x. po_size_filter (snd x) = None) (matching_opts_for_event w m (de_path raw)) \<longrightarrow>
     map label_of new = expected_records env (mo_entries m) raw
       (mask_to_event_types (w_fan w) (de_mask raw)) (matching_opts_for_event w m (de_path raw)))"
  by (rule recorded_exactly [OF assms])

text \<open>An environment for the witnesses: no tracker, nothing in \<^verbatim>\<open>/proc\<close>, an empty size cache.\<close>

definition sample_env :: "(u32 list \<times> (u32 \<rightharpoonup> string), u32, unit) event_env" where
  "sample_env =
     \<lparr>en_api = sample_api, en_tracker = None,
      en_proc = (\<lambda>_. \<lparr>pf_metadata = (\<lambda>_. None), pf_cmdline = (\<lambda>_. None), pf_owner = (\<lambda>_. None), pf_user = (\<lambda>_. None)\<rparr>),
      en_now = (\<lambda>_. 0), en_len = (\<lambda>_ _. None),
      en_sizes = \<lparr>sc_put = (\<lambda>_ _ c. c), sc_pop = (\<lambda>_ c. (None, c)), sc_get = (\<lambda>_ c. (None, c))\<rparr>\<rparr>"

definition sample_raw :: decoded_event where
  "sample_raw = \<lparr>de_mask = 0x104, de_pid = 9, de_path = sample_dir @ [Normal ''f''], de_rename = None,
     de_fs_error = None, de_unparsed = 0\<rparr>"

lemma sample_tree: "well_founded_tree (w_tree sample_world)"
  by (simp add: well_founded_tree_def sample_world_def)

lemma sample_types: "mask_to_event_types linux_fan 0x104 = [Attrib, Create]"
  by (simp add: mask_to_event_types_def mask_bits_def linux_fan_def)

lemma sample_considered:
  assumes "sample_monitor = Some m"
  shows "considered sample_world m sample_raw"
    and "matching_opts_for_event sample_world m (de_path sample_raw) = [(sample_dir, sample_opts)]"
    and "expected_records sample_env (mo_entries m) sample_raw [Attrib, Create] [(sample_dir, sample_opts)] =
      [(Create, CMD_GLOBAL)]"
proof -
  have "mo_daemon_pid m = 7" using assms by (auto simp: sample_monitor_eq)
  then show "considered sample_world m sample_raw"
    by (simp add: considered_def sample_raw_def sample_world_def linux_fan_def unsigned_abs_def
        sample_dir_def FSMON_LOG_DIR_def starts_with_def)
  show "matching_opts_for_event sample_world m (de_path sample_raw) = [(sample_dir, sample_opts)]"
    by (simp add: matching_opts_for_event_def sample_facts [OF assms] collect_matching_entries_def
        path_matches_def sample_opts_def sample_raw_def starts_with_append List.map_filter_simps)
  show "expected_records sample_env (mo_entries m) sample_raw [Attrib, Create] [(sample_dir, sample_opts)] =
      [(Create, CMD_GLOBAL)]"
    by (simp add: expected_records_def expected_of_def matches_process_tree_def sample_facts [OF assms]
        is_path_in_scope_for_opts_def sample_opts_def sample_raw_def starts_with_append allowed_type_def
        cmd_or_global_def)
qed

theorem event_recorded_exactly_witness:
  "\<exists>m st m' st'. sample_monitor = Some m \<and>
     process_event sample_world sample_env sample_raw (m, st) = Some (m', st') \<and>
     map label_of (rc_pending st') = [(Create, CMD_GLOBAL)]"
proof -
  obtain m where m: "sample_monitor = Some m" using sample_exists by blast
  let ?st = "\<lparr>rc_sizes = (), rc_tick = 0, rc_pending = []\<rparr>"
  obtain m' st' where run: "process_event sample_world sample_env sample_raw (m, ?st) = Some (m', st')"
    using process_event_ok [OF sample_tree reach_ok [OF sample_reach [OF m]], of sample_env sample_raw ?st]
    by (auto simp: returns_iff)
  from event_recorded_exactly [OF sample_tree run] sample_considered [OF m]
  have "map label_of (rc_pending st') = [(Create, CMD_GLOBAL)]"
    using sample_types by (auto simp: sample_opts_def sample_world_def sample_raw_def)
  with m run show ?thesis by (intro exI conjI)
qed

text \<open>
  A rename is never recorded as one: whatever the kernel delivers, no record of a batch has
  the type RENAME, so an entry that asks for that type alone stays silent about renames.
\<close>

theorem renames_recorded_as_moves:
  assumes "fan_ok (w_fan w)" and "well_founded_tree (w_tree w)"
    and "process_event_batch w env (decode_events (w_fan w) evs) s = Some (pending, m', c')"
  shows "\<forall>pn \<in> set pending. ev_type (pn_event pn) \<noteq> Rename"
proof (rule batch_records [OF assms(2,3)])
  fix raw es opts pn
  assume "raw \<in> set (fst (expand_renames (w_fan w) (decode_events (w_fan w) evs)))"
    and "made_by es raw (mask_to_event_types (w_fan w) (de_mask raw)) opts pn"
  with no_rename_left [OF assms(1)] show "ev_type (pn_event pn) \<noteq> Rename"
    by (auto simp: made_by_def)
qed

theorem renames_recorded_as_moves_witness:
  "\<exists>m pending m' c'. sample_monitor = Some m \<and>
     process_event_batch sample_world sample_env (decode_events (w_fan sample_world)
       [\<lparr>fe_mask = 0x10000000, fe_pid = 9, fe_path = Some (sample_dir @ [Normal ''a'']),
         fe_rename_target = Some (sample_dir @ [Normal ''b'']), fe_fs_error = None, fe_unknown_records = 0\<rparr>])
       (m, ()) = Some (pending, m', c') \<and>
     (\<forall>pn \<in> set pending. ev_type (pn_event pn) \<noteq> Rename)"
proof -
  obtain m where m: "sample_monitor = Some m" using sample_exists by blast
  let ?evs = "decode_events (w_fan sample_world)
       [\<lparr>fe_mask = 0x10000000, fe_pid = 9, fe_path = Some (sample_dir @ [Normal ''a'']),
         fe_rename_target = Some (sample_dir @ [Normal ''b'']), fe_fs_error = None, fe_unknown_records = 0\<rparr>]"
  obtain pending m' c' where run: "process_event_batch sample_world sample_env ?evs (m, ()) = Some (pending, m', c')"
    using process_event_batch_ok [OF sample_tree reach_ok [OF sample_reach [OF m]], of sample_env ?evs "()"]
    by (auto simp: returns_iff)
  have "fan_ok (w_fan sample_world)" by (simp add: sample_world_def linux_fan_ok)
  from renames_recorded_as_moves [OF this sample_tree run] m run show ?thesis by blast
qed

text \<open>
  A decoded rename becomes a move out of its old place and, if the new directory is known, a
  move into the new one, in that order and with these types only; a rename whose old directory
  is not in the cache is dropped by the reader, the new place with it, and the count of
  unresolved renames stays 0.
\<close>

theorem renames_split:
  assumes "fan_ok K" and "fe_mask ev AND FAN_RENAME K \<noteq> 0"
    and "\<And>t. t \<noteq> Rename \<Longrightarrow> fe_mask ev AND event_type_to_kernel_flag K t = 0"
  shows "map (\<lambda>e. (de_path e, mask_to_event_types K (de_mask e))) (fst (expand_renames K (decode_events K [ev]))) =
      (case (fe_path ev, fe_rename_target ev) of
         (Some p, Some q) \<Rightarrow> [(p, [MovedFrom]), (q, [MovedTo])]
       | (Some p, None) \<Rightarrow> [(p, [MovedFrom])]
       | (None, _) \<Rightarrow> []) \<and>
    snd (expand_renames K (decode_events K evs)) = 0"
proof -
  have only: "mask_to_event_types K ((fe_mask ev AND NOT (FAN_RENAME K)) OR event_type_to_kernel_flag K s) = [s]"
    if "s \<noteq> Rename" for s
  proof -
    let ?types = "mask_to_event_types K ((fe_mask ev AND NOT (FAN_RENAME K)) OR event_type_to_kernel_flag K s)"
    have "t \<in> set ?types \<longleftrightarrow> t = s" for t
      using half_types [OF assms(1) that, of t "fe_mask ev"] assms(3) [of t]
        mask_to_event_types_iff [of t K "fe_mask ev"] by blast
    then show ?thesis by (rule distinct_singleton_set [OF distinct_mask_to_event_types])
  qed
  have "map (\<lambda>e. (de_path e, mask_to_event_types K (de_mask e))) (fst (expand_renames K (decode_events K [ev]))) =
      (case (fe_path ev, fe_rename_target ev) of
         (Some p, Some q) \<Rightarrow> [(p, [MovedFrom]), (q, [MovedTo])]
       | (Some p, None) \<Rightarrow> [(p, [MovedFrom])]
       | (None, _) \<Rightarrow> [])"
    using assms(2) only [of MovedFrom] only [of MovedTo]
    by (simp add: decode_events_def decode_event_def List.map_filter_simps rename_sides_def
        rename_half_def flag_names(2,3) split: option.split)
  moreover have "snd (expand_renames K (decode_events K evs)) = 0"
    using decoded_rename [of _ K evs] by (fastforce simp: expand_unresolved filter_empty_conv)
  ultimately show ?thesis by blast
qed

theorem renames_split_witness:
  "map (\<lambda>e. (de_path e, mask_to_event_types linux_fan (de_mask e))) (fst (expand_renames linux_fan
     (decode_events linux_fan [\<lparr>fe_mask = 0x10000000, fe_pid = 9, fe_path = Some [Normal ''a''],
        fe_rename_target = Some [Normal ''b''], fe_fs_error = None, fe_unknown_records = 0\<rparr>]))) =
   [([Normal ''a''], [MovedFrom]), ([Normal ''b''], [MovedTo])]"
proof -
  have "0x10000000 AND event_type_to_kernel_flag linux_fan t = 0" if "t \<noteq> Rename" for t
    using that by (cases t) (simp_all add: event_type_to_kernel_flag.simps linux_fan_def)
  with renames_split [OF linux_fan_ok, of "\<lparr>fe_mask = 0x10000000, fe_pid = 9, fe_path = Some [Normal ''a''],
        fe_rename_target = Some [Normal ''b''], fe_fs_error = None, fe_unknown_records = 0\<rparr>" "[]"]
  show ?thesis by (simp add: linux_fan_def)
qed

end
