(* ===== verification/Socket_Props.thy ===== *)
theory Socket_Props
  imports Socket_Cmd Monitor_Props
begin

text \<open>
  What the socket promises its clients: the reply that arrives is the handler's, every command
  returns on a reachable monitor and is answered in its own kind, what re-adding and removing do
  to the entries, and which events a subscriber gets.
\<close>

section \<open>Adding over the socket\<close>

lemma remove_path_absent:
  assumes "\<And>x. x \<in> set (mo_entries m) \<Longrightarrow> \<not> removes p cmd x"
  shows "remove_path w p cmd m = Some (Failed (PathNotFound p), m)"
proof -
  have "filter (\<lambda>x. \<not> removes p cmd x) (mo_entries m) = mo_entries m"
    using assms by (simp add: filter_id_conv)
  then show ?thesis by (simp add: remove_path_def)
qed

definition without_entry :: "path \<Rightarrow> string option \<Rightarrow> monitor \<Rightarrow> monitor" where
  "without_entry p cmd m =
     m\<lparr>mo_entries := filter (\<lambda>(q, opts). \<not> (q = p \<and> po_cmd opts = cmd)) (mo_entries m)\<rparr>"

definition added_entry ::
  "path \<Rightarrow> bool option \<Rightarrow> string list option \<Rightarrow> string option \<Rightarrow> string option \<Rightarrow> u32 option \<Rightarrow> path_entry" where
  "added_entry p recursive types sz track_cmd max_depth =
     \<lparr>pe_cmd = entry_cmd track_cmd, pe_path = p, pe_recursive = recursive, pe_types = types,
      pe_size = sz, pe_max_depth = max_depth, pe_symlink_target = None\<rparr>"

text \<open>The teardown in front of the add never takes place: it looks for an entry that has just
  been dropped.\<close>

lemma handle_add_as_add_path:
  assumes "check_path_allowed p [] = Inr ()"
  shows "handle_add w p recursive types sz track_cmd max_depth m =
    map_option (\<lambda>(out, m'). (reply_of w m' out, m'))
      (add_path w (added_entry p recursive types sz track_cmd max_depth)
         (without_entry p (entry_cmd track_cmd) m))"
proof -
  let ?m1 = "without_entry p (entry_cmd track_cmd) m"
  have "remove_path w p None ?m1 = Some (Failed (PathNotFound p), ?m1)"
    if "\<not> list_ex (\<lambda>(q, _). q = p) (mo_entries ?m1)"
    using that by (intro remove_path_absent) (auto simp: removes_def list_ex_iff)
  then have "(if \<not> list_ex (\<lambda>(q, _). q = p) (mo_entries ?m1)
      then map_option snd (remove_path w p None ?m1) else Some ?m1) = Some ?m1"
    by simp
  then show ?thesis
    unfolding handle_add_def assms Let_def without_entry_def [symmetric] added_entry_def [symmetric]
    by (simp add: map_option_case split: option.split)
qed

lemma without_entry_paths [simp]: "mo_paths (without_entry p cmd m) = mo_paths m"
  by (simp add: without_entry_def)

lemma without_entry_ok: "monitor_ok m \<Longrightarrow> monitor_ok (without_entry p cmd m)"
  by (auto simp: monitor_ok_def group_refs_def without_entry_def)

lemma handle_add_ok:
  assumes "monitor_ok m"
  shows "returns (handle_add w p recursive types sz track_cmd max_depth m) (\<lambda>(_, m'). monitor_ok m')"
proof (cases "check_path_allowed p []")
  case (Inl e)
  then show ?thesis by (simp add: handle_add_def assms)
next
  case (Inr u)
  then have "check_path_allowed p [] = Inr ()" by simp
  with add_path_ok [OF without_entry_ok [OF assms]] show ?thesis
    by (fastforce simp: handle_add_as_add_path returns_iff)
qed

lemma handle_socket_cmd_ok:
  assumes "monitor_ok m"
  shows "returns (handle_socket_cmd w he dbg cmd m) (\<lambda>(_, m'). monitor_ok m')"
  using handle_add_ok [OF assms] remove_path_ok [OF assms] assms
  by (cases cmd) (fastforce simp: handle_socket_cmd_def returns_iff)+

text \<open>The kind of answer a command may get.\<close>

fun reply_fits :: "socket_cmd \<Rightarrow> reply \<Rightarrow> bool" where
  "reply_fits cmd (Inl e) \<longleftrightarrow> cmd \<noteq> ListCmd \<and> cmd \<noteq> HealthCmd"
| "reply_fits (Add _ _ _ _ _ _) (Inr RespOk) \<longleftrightarrow> True"
| "reply_fits (Remove _ _) (Inr RespOk) \<longleftrightarrow> True"
| "reply_fits ListCmd (Inr (RespPaths _)) \<longleftrightarrow> True"
| "reply_fits HealthCmd (Inr (RespHealth _)) \<longleftrightarrow> True"
| "reply_fits _ _ \<longleftrightarrow> False"

lemma reply_of_fits:
  "reply_fits (Add p r ts sz c d) (reply_of w m out)" "reply_fits (Remove p c) (reply_of w m out)"
  by (cases out; simp add: reply_of_def)+

lemma handle_socket_cmd_fits:
  assumes "handle_socket_cmd w he dbg cmd m = Some (r, m')"
  shows "reply_fits cmd r"
proof (cases cmd)
  case (Add p recursive types sz track_cmd max_depth)
  show ?thesis
  proof (cases "check_path_allowed p []")
    case (Inl e)
    with assms Add show ?thesis by (auto simp: handle_socket_cmd_def handle_add_def)
  next
    case (Inr u)
    then have "check_path_allowed p [] = Inr ()" by simp
    with assms Add show ?thesis
      by (auto simp: handle_socket_cmd_def handle_add_as_add_path reply_of_fits)
  qed
qed (use assms in \<open>auto simp: handle_socket_cmd_def unknown_command_def reply_of_fits\<close>)

section \<open>Properties\<close>

text \<open>
  C30: On a monitor the daemon can reach, every command is answered, in the kind of reply that
  belongs to it, and leaves the invariant intact.
\<close>

theorem commands_are_answered:
  assumes "monitor_reach m"
  shows "\<exists>r m'. handle_socket_cmd w he dbg cmd m = Some (r, m') \<and> reply_fits cmd r \<and> monitor_ok m'"
  using handle_socket_cmd_ok [OF reach_ok [OF assms], of w he dbg cmd] handle_socket_cmd_fits
  by (fastforce simp: returns_iff)

theorem commands_are_answered_witness:
  "\<exists>m r m'. sample_monitor = Some m \<and>
     handle_socket_cmd sample_world \<lparr>he_uptime = 1, he_channel_capacity = None, he_misses = 0,
       he_fd = (\<lambda>_. 3), he_factory_alive = True\<rparr> (\<lambda>_. ''?'') HealthCmd m = Some (r, m') \<and> reply_fits HealthCmd r"
proof -
  obtain m where m: "sample_monitor = Some m" using sample_exists by blast
  from commands_are_answered [OF sample_reach [OF m], of sample_world
      "\<lparr>he_uptime = 1, he_channel_capacity = None, he_misses = 0, he_fd = (\<lambda>_. 3), he_factory_alive = True\<rparr>"
      "\<lambda>_. ''?''" HealthCmd] m
  show ?thesis by (elim exE conjE) (intro exI conjI)
qed

text \<open>
  Re-adding a watched path replaces its entry for that process and no other entry; but when
  the new parameters are rejected the old entry is gone all the same, although the reply is a
  transient error.
\<close>

theorem readd_replaces_entry:
  assumes allowed: "check_path_allowed p [] = Inr ()" and watched: "p \<in> set (mo_paths m)"
    and resolved: "snd (resolve_recursion_check (w_fs w) p) = p"
    and run: "handle_add w p recursive types sz track_cmd max_depth m = Some (r, m')"
  shows "(\<forall>opts. try_from_entry (w_parse_size w) (added_entry p recursive types sz track_cmd max_depth) = Inr opts \<longrightarrow>
       r = Inr RespOk \<and> mo_entries m' =
         filter (\<lambda>(q, o'). \<not> (q = p \<and> po_cmd o' = entry_cmd track_cmd)) (mo_entries m) @ [(p, opts)]) \<and>
    (\<forall>e. try_from_entry (w_parse_size w) (added_entry p recursive types sz track_cmd max_depth) = Inl e \<longrightarrow>
       r = Inl (classify (entry_error_text e)) \<and>
       m' = m\<lparr>mo_entries := filter (\<lambda>(q, o'). \<not> (q = p \<and> po_cmd o' = entry_cmd track_cmd)) (mo_entries m)\<rparr>)"
proof -
  let ?e = "added_entry p recursive types sz track_cmd max_depth" and ?m = "without_entry p (entry_cmd track_cmd) m"
  from run obtain out where add: "add_path w ?e ?m = Some (out, m')" and r: "r = reply_of w m' out"
    by (auto simp: handle_add_as_add_path [OF allowed])
  have p: "p = snd (resolve_recursion_check (w_fs w) (pe_path ?e))" using resolved by (simp add: added_entry_def)
  have "r = Inr RespOk \<and> mo_entries m' = mo_entries ?m @ [(p, opts)]"
    if "try_from_entry (w_parse_size w) ?e = Inr opts" for opts
  proof -
    have "out = Done" using add that watched p [symmetric] by (auto simp: add_path_def Let_def split: bind_splits)
    with add_path_cases [OF add p] watched that r show ?thesis by (simp add: reply_of_def)
  qed
  moreover have "r = Inl (classify (entry_error_text e)) \<and> m' = ?m"
    if "try_from_entry (w_parse_size w) ?e = Inl e" for e
    using add that watched p [symmetric] r by (auto simp: add_path_def Let_def reply_of_def)
  ultimately show ?thesis by (simp add: without_entry_def)
qed

theorem readd_replaces_entry_witness:
  "\<exists>m m'. sample_monitor = Some m \<and>
     handle_add sample_world sample_dir (Some True) (Some [''BOGUS'']) None None None m =
       Some (Inl (Transient ''Unknown event type: BOGUS''), m') \<and> mo_entries m \<noteq> [] \<and> mo_entries m' = []"
proof -
  obtain m where m: "sample_monitor = Some m" using sample_exists by blast
  note ok = reach_ok [OF sample_reach [OF m]]
  obtain r m' where run: "handle_add sample_world sample_dir (Some True) (Some [''BOGUS'']) None None None m = Some (r, m')"
    using handle_add_ok [OF ok, of sample_world sample_dir "Some True" "Some [''BOGUS'']" None None None]
    by (auto simp: returns_iff)
  have allowed: "check_path_allowed sample_dir [] = Inr ()" by code_simp
  have resolved: "snd (resolve_recursion_check (w_fs sample_world) sample_dir) = sample_dir"
    by (simp add: sample_world_def sample_resolve)
  have bad: "try_from_entry (w_parse_size sample_world) (added_entry sample_dir (Some True) (Some [''BOGUS'']) None None None)
      = Inl (TypeError (ParseEventTypeError ''BOGUS''))"
  proof -
    have "parse_event_type ''BOGUS'' = Inl (ParseEventTypeError ''BOGUS'')" by code_simp
    then show ?thesis by (simp add: try_from_entry_def added_entry_def)
  qed
  have "classify ''Unknown event type: BOGUS'' = Transient ''Unknown event type: BOGUS''" by code_simp
  with readd_replaces_entry [OF allowed _ resolved run] bad
  have "r = Inl (Transient ''Unknown event type: BOGUS'') \<and>
      m' = m\<lparr>mo_entries := filter (\<lambda>(q, o'). \<not> (q = sample_dir \<and> po_cmd o' = entry_cmd None)) (mo_entries m)\<rparr>"
    by (simp add: sample_facts [OF m])
  then have "r = Inl (Transient ''Unknown event type: BOGUS'')" and "mo_entries m' = []" and "mo_entries m \<noteq> []"
    by (simp_all add: sample_facts [OF m] sample_opts_def entry_cmd_def)
  with m run show ?thesis by (intro exI conjI) (assumption | simp only:)+
qed

text \<open>
  The command line names the entries of all processes with a name of their own, but no entry of the daemon
  carries that name: reading an entry turns it into none. So the removal that the remove
  command sends for such an entry always fails, as a transient error, and leaves the monitor as it is.
\<close>

theorem global_removal_fails:
  assumes "\<And>q opts. (q, opts) \<in> set (mo_entries m) \<Longrightarrow> po_cmd opts \<noteq> Some CMD_GLOBAL"
    and "\<not> str_contains (''Path not found: '' @ path_str p) ''infinite recursion''"
    and "\<not> str_contains (''Path not found: '' @ path_str p) ''log directory''"
  shows "handle_socket_cmd w he dbg (Remove p (Some CMD_GLOBAL)) m =
      Some (Inl (Transient (''Path not found: '' @ path_str p)), m) \<and>
    (try_from_entry parse_sf e = Inr opts \<longrightarrow> po_cmd opts \<noteq> Some CMD_GLOBAL)"
proof
  have "remove_path w p (Some CMD_GLOBAL) m = Some (Failed (PathNotFound p), m)"
    using assms(1) by (intro remove_path_absent) (auto simp: removes_def)
  then show "handle_socket_cmd w he dbg (Remove p (Some CMD_GLOBAL)) m =
      Some (Inl (Transient (''Path not found: '' @ path_str p)), m)"
    using assms(2,3) by (simp add: handle_socket_cmd_def reply_of_def classify_def)
  show "try_from_entry parse_sf e = Inr opts \<longrightarrow> po_cmd opts \<noteq> Some CMD_GLOBAL"
    by (auto simp: try_from_entry_def entry_cmd_def split: sum.splits option.splits if_splits)
qed

theorem global_removal_fails_witness:
  "\<exists>m. sample_monitor = Some m \<and> mo_entries m = [(sample_dir, sample_opts)] \<and>
     handle_socket_cmd sample_world \<lparr>he_uptime = 1, he_channel_capacity = None, he_misses = 0,
       he_fd = (\<lambda>_. 3), he_factory_alive = True\<rparr> (\<lambda>_. ''?'') (Remove sample_dir (Some CMD_GLOBAL)) m =
       Some (Inl (Transient (''Path not found: '' @ path_str sample_dir)), m)"
proof -
  obtain m where m: "sample_monitor = Some m" using sample_exists by blast
  have "\<not> str_contains (''Path not found: '' @ path_str sample_dir) ''infinite recursion''"
    "\<not> str_contains (''Path not found: '' @ path_str sample_dir) ''log directory''"
    by code_simp+
  with m global_removal_fails [of m sample_dir sample_world "\<lparr>he_uptime = 1, he_channel_capacity = None, he_misses = 0,
       he_fd = (\<lambda>_. 3), he_factory_alive = True\<rparr>" "\<lambda>_. ''?''"] sample_facts(8) [OF m]
  show ?thesis by (auto simp: sample_opts_def)
qed

definition json_line :: "string \<Rightarrow> bool" where
  "json_line s \<longleftrightarrow> NL \<notin> set s \<and> s \<noteq> [] \<and> str_trim (s @ [NL]) = s \<and> utf8_ok (s @ [NL])"

definition json_ok :: "json_api \<Rightarrow> socket_cmd \<Rightarrow> reply \<Rightarrow> bool" where
  "json_ok js cmd r \<longleftrightarrow>
     js_parse_cmd js (js_show_cmd js cmd) = Inr cmd \<and> js_value js (js_show_cmd js cmd) \<and>
     json_line (js_show_cmd js cmd) \<and>
     js_parse_reply js (js_show_reply js r) = Inr r \<and> json_line (js_show_reply js r)"

text \<open>What comes back for the bytes that arrive on a connection; \<open>None\<close> is no reply line.\<close>

definition answer_bytes :: "json_api \<Rightarrow> world \<Rightarrow> health_env \<Rightarrow> monitor \<Rightarrow> string \<Rightarrow> string option" where
  "answer_bytes js w he m bytes =
     (case handle_socket_accept js w he (read_message (js_value js) [] bytes) m of
        Some (Replied out, _) \<Rightarrow> Some out | _ \<Rightarrow> None)"

text \<open>
  C25: What a client is answered is what the handler replied. The daemon is run on the very bytes the
  client sends: it reads them back as the command, whatever arrives after its line, and the client
  reads the reply line back as the handler's reply.
\<close>

theorem socket_round_trip:
  assumes js: "json_ok js cmd r" and cmd: "\<And>ts c l. cmd \<noteq> Subscribe ts c l"
    and run: "handle_socket_cmd w he (js_debug js) cmd m = Some (r, m')"
  shows "\<exists>bytes. handle_socket_accept js w he (read_message (js_value js) [] (js_show_cmd js cmd @ [NL] @ later)) m =
      Some (Replied bytes, m') \<and> send_cmd js cmd (\<lambda>sent. answer_bytes js w he m (sent @ later)) = r"
proof -
  let ?s = "js_show_cmd js cmd" and ?out = "js_show_reply js r @ [NL]"
  have s: "NL \<notin> set ?s" "?s \<noteq> []" "str_trim (?s @ [NL]) = ?s" "utf8_ok (?s @ [NL])" "js_value js ?s"
    "js_parse_cmd js ?s = Inr cmd"
    using js unfolding json_ok_def json_line_def by blast+
  have "next_line (?s @ [NL] @ later) = (?s @ [NL], later)" using next_line_line [OF s(1), of later] by simp
  then have read: "read_message (js_value js) [] (?s @ [NL] @ later) = ReadMsg ?s"
    using s by (subst read_message.simps) (simp add: Let_def)
  have "handle_socket_accept js w he (ReadMsg ?s) m =
      map_option (\<lambda>(r, m'). (Replied (js_show_reply js r @ [NL]), m')) (handle_socket_cmd w he (js_debug js) cmd m)"
    using s(6) cmd by (simp add: handle_socket_accept_def split: socket_cmd.split)
  then have accept: "handle_socket_accept js w he (ReadMsg ?s) m = Some (Replied ?out, m')" by (simp add: run)
  have "answer_bytes js w he m ((?s @ [NL]) @ later) = Some ?out"
    using read accept by (simp add: answer_bytes_def)
  moreover have "str_trim ?out = js_show_reply js r" "js_show_reply js r \<noteq> []"
    "js_parse_reply js (js_show_reply js r) = Inr r"
    using js unfolding json_ok_def json_line_def by blast+
  ultimately have "send_cmd js cmd (\<lambda>sent. answer_bytes js w he m (sent @ later)) = r"
    by (simp add: send_cmd_def)
  with read accept show ?thesis by simp
qed

text \<open>
  A JSON writer and reader that tells two commands apart; the line of the other command follows the
  request.
\<close>

definition sample_json :: json_api where
  "sample_json = \<lparr>js_show_cmd = (\<lambda>c. if c = ListCmd then ''L'' else ''R''),
     js_parse_cmd = (\<lambda>s. if s = ''L'' then Inr ListCmd else if s = ''R'' then Inr (Remove [Normal ''x''] None)
       else Inl ''no command''),
     js_show_reply = (\<lambda>r. if r = Inl (Transient ''Path not found: x'') then ''E'' else ''P''),
     js_parse_reply = (\<lambda>s. if s = ''E'' then Inr (Inl (Transient ''Path not found: x'')) else Inl ''no reply''),
     js_value = (\<lambda>s. s = ''L'' \<or> s = ''R''), js_debug = (\<lambda>_. ''?'')\<rparr>"

definition sample_health :: health_env where
  "sample_health = \<lparr>he_uptime = 1, he_channel_capacity = None, he_misses = 0, he_fd = (\<lambda>_. 3), he_factory_alive = True\<rparr>"

theorem socket_round_trip_witness:
  "\<exists>m bytes. sample_monitor = Some m \<and>
     json_ok sample_json (Remove [Normal ''x''] None) (Inl (Transient ''Path not found: x'')) \<and>
     handle_socket_cmd sample_world sample_health (js_debug sample_json) (Remove [Normal ''x''] None) m =
       Some (Inl (Transient ''Path not found: x''), m) \<and>
     handle_socket_accept sample_json sample_world sample_health
       (read_message (js_value sample_json) [] (''R'' @ [NL] @ ''L'')) m = Some (Replied bytes, m) \<and>
     send_cmd sample_json (Remove [Normal ''x''] None)
       (\<lambda>sent. answer_bytes sample_json sample_world sample_health m (sent @ ''L'')) =
       Inl (Transient ''Path not found: x'')"
proof -
  obtain m where m: "sample_monitor = Some m" using sample_exists by blast
  have "remove_path sample_world [Normal ''x''] None m = Some (Failed (PathNotFound [Normal ''x'']), m)"
    by (rule remove_path_absent) (simp add: sample_facts [OF m] removes_def sample_dir_def)
  moreover have "classify (''Path not found: '' @ path_str [Normal ''x'']) = Transient ''Path not found: x''"
    by code_simp
  ultimately have run: "handle_socket_cmd sample_world sample_health (js_debug sample_json) (Remove [Normal ''x''] None) m =
      Some (Inl (Transient ''Path not found: x''), m)"
    by (simp add: handle_socket_cmd_def reply_of_def)
  have "json_line ''R''" "json_line ''E''" by code_simp+
  then have js: "json_ok sample_json (Remove [Normal ''x''] None) (Inl (Transient ''Path not found: x''))"
    by (simp add: json_ok_def sample_json_def)
  have shown: "js_show_cmd sample_json (Remove [Normal ''x''] None) = ''R''" by (simp add: sample_json_def)
  from socket_round_trip [OF js _ run, of "''L''", unfolded shown] m run js show ?thesis by blast
qed

section \<open>Subscribers\<close>

lemma subscriber_loop_all:
  "(\<And>i. write_ok i) \<Longrightarrow> subscriber_loop line track_cmd types write_ok i (map Received evs) =
     map (\<lambda>ev. line ev @ [NL]) (filter (subscriber_wants track_cmd types) evs)"
  by (induction evs arbitrary: i) auto

lemma subscriber_loop_prefix:
  "prefix (subscriber_loop line track_cmd types write_ok i (map Received evs))
     (map (\<lambda>ev. line ev @ [NL]) (filter (subscriber_wants track_cmd types) evs))"
  by (induction evs arbitrary: i) auto

lemma subscriber_wants_iff:
  "subscriber_wants track_cmd types ev \<longleftrightarrow>
     (case track_cmd of
        None \<Rightarrow> True
      | Some c \<Rightarrow> if c = CMD_GLOBAL then \<not> own_event ev \<and> ev_chain ev = []
                  else (\<exists>l \<in> set (ev_chain ev). cl_comm l = c)) \<and>
     (case types of None \<Rightarrow> True | Some ts \<Rightarrow> ev_type ev \<in> set ts)"
  by (auto simp: subscriber_wants_def chains_contain_def list_ex_iff split: option.splits)

text \<open>
  A subscriber gets the greeting and then, in order and each once, a line for every event it
  asked for: those of its process chain, or without a chain and not the daemon's own for the
  global group, and of its types; when a write fails it has got a beginning of that. The
  subscriber is counted out again exactly when the greeting was written.
\<close>

theorem subscriber_gets_its_events:
  "subscriber_task utc loc ok_json track_cmd types local_time write_ok (map Received evs) mt =
     (out, mt') \<Longrightarrow>
   prefix out ((ok_json @ [NL]) # map (\<lambda>ev. (if local_time then loc else utc) ev @ [NL])
      (filter (subscriber_wants track_cmd types) evs)) \<and>
   ((\<forall>i. write_ok i) \<longrightarrow> out = (ok_json @ [NL]) # map (\<lambda>ev. (if local_time then loc else utc) ev @ [NL])
      (filter (subscriber_wants track_cmd types) evs)) \<and>
   mt' = (if write_ok 0 then dec_subscribers mt else mt) \<and>
   (subscriber_wants track_cmd types ev \<longleftrightarrow>
     (case track_cmd of
        None \<Rightarrow> True
      | Some c \<Rightarrow> if c = CMD_GLOBAL then \<not> own_event ev \<and> ev_chain ev = []
                  else (\<exists>l \<in> set (ev_chain ev). cl_comm l = c)) \<and>
     (case types of None \<Rightarrow> True | Some ts \<Rightarrow> ev_type ev \<in> set ts))"
  unfolding subscriber_wants_iff [symmetric]
  by (auto simp: subscriber_task_def subscriber_loop_all subscriber_loop_prefix split: if_splits)

definition sample_event :: "event_type \<Rightarrow> file_event" where
  "sample_event t = \<lparr>ev_time = 0, ev_type = t, ev_path = [Normal ''f''], ev_pid = 1, ev_comm = ''a'', ev_cmd = ''a'',
     ev_user = [], ev_file_size = 0, ev_ppid = 0, ev_tgid = 0, ev_chain = [], ev_fs_error = None\<rparr>"

theorem subscriber_gets_its_events_witness:
  "fst (subscriber_task (\<lambda>ev. show_event_type (ev_type ev)) (\<lambda>_. []) ''Ok'' (Some CMD_GLOBAL) (Some [Create]) False
     (\<lambda>_. True) (map Received [sample_event Create, sample_event Delete]) (metrics_new True)) = [''Ok'' @ [NL], ''CREATE'' @ [NL]]"
proof -
  obtain out mt' where "subscriber_task (\<lambda>ev. show_event_type (ev_type ev)) (\<lambda>_. []) ''Ok'' (Some CMD_GLOBAL) (Some [Create]) False
     (\<lambda>_. True) (map Received [sample_event Create, sample_event Delete]) (metrics_new True) = (out, mt')" by fastforce
  from this subscriber_gets_its_events [OF this] show ?thesis
    by (simp add: subscriber_wants_def own_event_def sample_event_def starts_with_def)
qed

end
