(* ===== verification/Daemon_Loop.thy ===== *)
theory Daemon_Loop
  imports Event_Props Socket_Props
begin

text \<open>
  The event loop of \<^verbatim>\<open>src/common/monitor.rs\<close> with the reader tasks of
  \<^verbatim>\<open>src/common/monitor/reader.rs\<close> that feed it: readers decode, the loop drains the process
  connector, processes and publishes a batch, and serves signals, inotify, the socket and dead
  readers, one arm at a time.
\<close>

section \<open>Reader tasks\<close>

datatype fan_read = DupFailed | WouldBlock | ReadFailed | Events "fid_event list"

definition read_fid_events_cached :: "fan_consts \<Rightarrow> fan_read \<Rightarrow> decoded_event list" where
  "read_fid_events_cached K rd = (case rd of Events evs \<Rightarrow> decode_events K evs | _ \<Rightarrow> [])"

text \<open>One turn: whether the descriptor became readable, what was read, whether a send succeeds.\<close>

record reader_turn =
  rt_ready :: bool
  rt_read :: fan_read
  rt_send :: bool

text \<open>The batches sent, and whether the task has ended (and so reported its death).\<close>

fun reader_loop :: "fan_consts \<Rightarrow> reader_turn list \<Rightarrow> decoded_event list list \<times> bool" where
  "reader_loop K [] = ([], False)"
| "reader_loop K (t # ts) =
     (if \<not> rt_ready t then ([], True)
      else
        (let events = read_fid_events_cached K (rt_read t) in
         if events = [] then reader_loop K ts
         else if \<not> rt_send t then ([], True)
         else (let (sent, dead) = reader_loop K ts in (events # sent, dead))))"

definition reader_task :: "fan_consts \<Rightarrow> bool \<Rightarrow> reader_turn list \<Rightarrow> decoded_event list list \<times> bool" where
  "reader_task K async_ok ts = (if \<not> async_ok then ([], True) else reader_loop K ts)"

section \<open>The state of the loop\<close>

record ('t, 'c) daemon =
  dm_monitor :: monitor
  dm_sizes :: 'c
  dm_tracker :: "'t option"
  dm_mapper :: event_mapper
  dm_published :: "(file_event \<times> string) list"

text \<open>Reads of the process connector until it would block.\<close>

datatype proc_recv = ProcRead "proc_message list" | ProcInterrupted | ProcError

fun drain_proc_conn ::
  "('t, 'k) tracker_api \<Rightarrow> proc_recv list \<Rightarrow> 't \<times> event_mapper \<Rightarrow> 't \<times> event_mapper" where
  "drain_proc_conn api [] s = s"
| "drain_proc_conn api (ProcRead msgs # rs) s = drain_proc_conn api rs (handle_proc_events api msgs s)"
| "drain_proc_conn api (ProcInterrupted # rs) s = drain_proc_conn api rs s"
| "drain_proc_conn api (ProcError # rs) s = s"

text \<open>Without a tracker nothing is read; \<open>None\<close> is a missing connector.\<close>

definition drain_proc_events ::
  "('t, 'k) tracker_api \<Rightarrow> proc_recv list option \<Rightarrow> ('t, 'c) daemon \<Rightarrow> ('t, 'c) daemon" where
  "drain_proc_events api conn d =
     (case (conn, dm_tracker d) of
        (Some rs, Some t) \<Rightarrow>
          (let (t', mapper) = drain_proc_conn api rs (t, dm_mapper d)
           in d\<lparr>dm_tracker := Some t', dm_mapper := mapper\<rparr>)
      | _ \<Rightarrow> d)"

definition send_pending_events :: "pending_event list \<Rightarrow> ('t, 'c) daemon \<Rightarrow> ('t, 'c) daemon" where
  "send_pending_events pending d =
     d\<lparr>dm_published := dm_published d @ map (\<lambda>pe. (pn_event pe, pn_cmd_name pe)) pending\<rparr>"

text \<open>What the system answers during one arm: its world, its events' environment, the connector.\<close>

record ('t, 'k, 'c) arm_env =
  ar_world :: world
  ar_events :: "('t, 'k, 'c) event_env"
  ar_before :: "proc_recv list option"
  ar_after :: "proc_recv list option"
  ar_patch :: "nat \<Rightarrow> proc_fs"

definition run_batch ::
  "('t, 'k, 'c) arm_env \<Rightarrow> decoded_event list \<Rightarrow> ('t, 'c) daemon \<Rightarrow>
     (pending_event list \<times> ('t, 'c) daemon) option" where
  "run_batch env events d =
     (let api = en_api (ar_events env); d1 = drain_proc_events api (ar_before env) d in
      map_option (\<lambda>(pending, m, c). (pending, d1\<lparr>dm_monitor := m, dm_sizes := c\<rparr>))
        (process_event_batch (ar_world env) ((ar_events env)\<lparr>en_tracker := dm_tracker d1\<rparr>) events
           (dm_monitor d1, dm_sizes d1)))"

definition on_batch ::
  "('t, 'k, 'c) arm_env \<Rightarrow> decoded_event list \<Rightarrow> ('t, 'c) daemon \<Rightarrow> ('t, 'c) daemon option" where
  "on_batch env events d =
     (let api = en_api (ar_events env) in do {
        (pending, d1) \<leftarrow> run_batch env events d;
        let d2 = drain_proc_events api (ar_after env) d1;
        let d3 = send_pending_events (patch_pending_events api (ar_patch env) (dm_tracker d2) pending) d2;
        m \<leftarrow> check_pending (ar_world env) (dm_monitor d3);
        Some (d3\<lparr>dm_monitor := m\<rparr>)
      })"

definition drain_one ::
  "('t, 'k, 'c) arm_env \<times> decoded_event list \<Rightarrow> ('t, 'c) daemon \<Rightarrow> ('t, 'c) daemon option" where
  "drain_one x d =
     (let env = fst x; api = en_api (ar_events env) in
      map_option (\<lambda>(pending, d1).
          send_pending_events (patch_pending_events api (ar_patch env) (dm_tracker d1) pending) d1)
        (run_batch env (snd x) d))"

definition drain_remaining_events ::
  "(('t, 'k, 'c) arm_env \<times> decoded_event list) list \<Rightarrow> ('t, 'c) daemon \<Rightarrow> ('t, 'c) daemon option" where
  "drain_remaining_events queue d = fold_opt drain_one queue d"

definition update_monitor :: "('t, 'c) daemon \<Rightarrow> monitor \<Rightarrow> ('t, 'c) daemon" where
  "update_monitor d m = d\<lparr>dm_monitor := m\<rparr>"

text \<open>The arms of the loop; the metrics and heartbeat ticks change nothing the model has.\<close>

datatype ('t, 'k, 'c) arm =
    BatchArm "('t, 'k, 'c) arm_env" "decoded_event list"
  | HangupArm world "(load_error + monitored) option"
  | ProcArm "('t, 'k) tracker_api" "proc_recv list"
  | InotifyArm world "inotify_event list option"
  | SocketArm json_api world health_env read_result
  | DeathArm world nat
  | TickArm

definition loop_step :: "('t, 'k, 'c) arm \<Rightarrow> ('t, 'c) daemon \<Rightarrow> ('t, 'c) daemon option" where
  "loop_step arm d =
     (case arm of
        BatchArm env events \<Rightarrow> on_batch env events d
      | HangupArm w loaded \<Rightarrow>
          map_option (\<lambda>(_, m). update_monitor d m) (reload_config w loaded (dm_monitor d))
      | ProcArm api rs \<Rightarrow> Some (drain_proc_events api (Some rs) d)
      | InotifyArm w rd \<Rightarrow> map_option (update_monitor d) (handle_inotify_events w rd (dm_monitor d))
      | SocketArm js w he rd \<Rightarrow>
          map_option (\<lambda>(_, m). update_monitor d m) (handle_socket_accept js w he rd (dm_monitor d))
      | DeathArm w k \<Rightarrow> map_option (update_monitor d) (restart_reader w k (dm_monitor d))
      | TickArm \<Rightarrow> Some d)"

text \<open>The directory tree an arm may walk has no endless path.\<close>

fun arm_grounded :: "('t, 'k, 'c) arm \<Rightarrow> bool" where
  "arm_grounded (BatchArm env events) = well_founded_tree (w_tree (ar_world env))"
| "arm_grounded (InotifyArm w rd) = well_founded_tree (w_tree w)"
| "arm_grounded _ = True"

section \<open>Every arm returns\<close>

lemma drain_monitor [simp]:
  "dm_monitor (drain_proc_events api conn d) = dm_monitor d"
  "dm_sizes (drain_proc_events api conn d) = dm_sizes d"
  "dm_published (drain_proc_events api conn d) = dm_published d"
  by (auto simp: drain_proc_events_def split: option.split prod.split)

lemma send_monitor [simp]:
  "dm_monitor (send_pending_events pending d) = dm_monitor d"
  "dm_tracker (send_pending_events pending d) = dm_tracker d"
  by (simp_all add: send_pending_events_def)

lemma run_batch_ok:
  assumes "well_founded_tree (w_tree (ar_world env))" and "monitor_ok (dm_monitor d)"
  shows "returns (run_batch env events d) (\<lambda>(_, d'). monitor_ok (dm_monitor d'))"
  using process_event_batch_ok [OF assms(1), of "dm_monitor d"] assms(2)
  by (fastforce simp: run_batch_def Let_def returns_iff)

lemma on_batch_ok:
  assumes "well_founded_tree (w_tree (ar_world env))" and "monitor_ok (dm_monitor d)"
  shows "returns (on_batch env events d) (\<lambda>d'. monitor_ok (dm_monitor d'))"
proof -
  obtain pending d1 where run: "run_batch env events d = Some (pending, d1)" and ok: "monitor_ok (dm_monitor d1)"
    using run_batch_ok [OF assms, of events] by (auto simp: returns_iff)
  obtain m where "check_pending (ar_world env) (dm_monitor d1) = Some m" "monitor_ok m"
    using check_pending_ok [OF ok, of "ar_world env"] by (auto simp: returns_iff)
  then show ?thesis by (simp add: on_batch_def run Let_def)
qed

lemma reload_config_ok:
  assumes "monitor_ok m"
  shows "returns (reload_config w loaded m) (\<lambda>(_, m'). monitor_ok m')"
proof -
  have add: "returns (reload_add w e m) monitor_ok" if "monitor_ok m" for e m
    using add_path_ok [OF that, of w e] that by (fastforce simp: reload_add_def returns_iff)
  have del: "returns (reload_remove w flat p m) monitor_ok" if "monitor_ok m" for flat p m
    using remove_path_ok [OF that, of w p None] that by (fastforce simp: reload_remove_def returns_iff)
  have "returns (do {
      m1 \<leftarrow> fold_opt (reload_add w) flat m;
      m2 \<leftarrow> fold_opt (reload_remove w flat) (mo_paths m1) m1;
      Some (True, m2) }) (\<lambda>(_, m'). monitor_ok m')" for flat
    by (rule returns_bind, rule returns_fold_opt [where P = monitor_ok, OF assms add], assumption,
        rule returns_bind, rule returns_fold_opt [where P = monitor_ok, OF _ del], assumption, assumption, simp)
  then show ?thesis using assms by (simp add: reload_config_def Let_def split: option.split sum.split)
qed

lemma handle_socket_accept_ok:
  assumes "monitor_ok m"
  shows "returns (handle_socket_accept js w he rd m) (\<lambda>(_, m'). monitor_ok m')"
proof -
  have "returns (map_option (\<lambda>(r, m'). (f r, m')) (handle_socket_cmd w he dbg cmd m)) (\<lambda>(_, m'). monitor_ok m')"
    for f :: "reply \<Rightarrow> dispatch" and dbg cmd
    using handle_socket_cmd_ok [OF assms, of w he dbg cmd] by (fastforce simp: returns_iff)
  moreover have "monitor_ok (m\<lparr>mo_metrics := mt\<rparr>)" for mt
    by (rule core_okI [OF _ assms]) (simp add: core_def)
  ultimately show ?thesis
    using assms by (simp add: handle_socket_accept_def split: read_result.split sum.split socket_cmd.split)
qed

lemma loop_step_ok:
  assumes "arm_grounded arm" and ok: "monitor_ok (dm_monitor d)"
  shows "returns (loop_step arm d) (\<lambda>d'. monitor_ok (dm_monitor d'))"
proof (cases arm)
  case (BatchArm env events)
  with assms on_batch_ok show ?thesis by (simp add: loop_step_def)
next
  case (HangupArm w loaded)
  with reload_config_ok [OF ok, of w loaded] show ?thesis
    by (fastforce simp: loop_step_def returns_iff update_monitor_def)
next
  case (ProcArm api rs)
  with ok show ?thesis by (simp add: loop_step_def)
next
  case (InotifyArm w rd)
  with handle_inotify_events_ok [of w "dm_monitor d" rd] assms show ?thesis
    by (fastforce simp: loop_step_def returns_iff update_monitor_def)
next
  case (SocketArm js w he rd)
  with handle_socket_accept_ok [OF ok, of js w he rd] show ?thesis
    by (fastforce simp: loop_step_def returns_iff update_monitor_def)
next
  case (DeathArm w k)
  have "returns (restart_reader w k (dm_monitor d)) monitor_ok"
    by (rule returns_mono [OF restart_reader_core]) (rule core_okI [OF _ ok])
  with DeathArm show ?thesis by (auto simp: loop_step_def returns_iff update_monitor_def)
next
  case TickArm
  with ok show ?thesis by (simp add: loop_step_def)
qed

lemma drain_remaining_ok:
  fixes queue :: "(('t, 'k, 'c) arm_env \<times> decoded_event list) list"
  assumes "\<And>x. x \<in> set queue \<Longrightarrow> well_founded_tree (w_tree (ar_world (fst x)))" and "monitor_ok (dm_monitor d)"
  shows "returns (drain_remaining_events queue d) (\<lambda>d'. monitor_ok (dm_monitor d'))"
  unfolding drain_remaining_events_def
proof (rule returns_fold_opt [where P = "\<lambda>d. monitor_ok (dm_monitor d)", OF assms(2)])
  fix x and d :: "('t, 'c) daemon"
  assume "x \<in> set queue" and ok: "monitor_ok (dm_monitor d)"
  from run_batch_ok [OF assms(1) [OF this(1)] ok, of "snd x"]
  show "returns (drain_one x d) (\<lambda>d. monitor_ok (dm_monitor d))"
    by (auto simp: drain_one_def Let_def returns_iff)
qed

section \<open>Start and run\<close>

definition daemon_start ::
  "world \<Rightarrow> u32 \<Rightarrow> monitor_config \<Rightarrow> bool \<Rightarrow> bool \<Rightarrow> 'c \<Rightarrow> 't option \<Rightarrow> ('t, 'c) daemon option" where
  "daemon_start w pid cfg factory privileged sizes tracker =
     (case monitor_new w pid cfg of
        Some (Inr m) \<Rightarrow>
          (case init_fanotify w (m\<lparr>mo_factory := factory, mo_privileged := privileged\<rparr>) of
             Some (Inr _, m') \<Rightarrow>
               map_option (\<lambda>m''. \<lparr>dm_monitor = m'', dm_sizes = sizes, dm_tracker = tracker,
                   dm_mapper = [], dm_published = []\<rparr>) (spawn_tasks w (start_metrics m'))
           | _ \<Rightarrow> None)
      | _ \<Rightarrow> None)"

lemma daemon_start_reach:
  "daemon_start w pid cfg f b c t = Some d \<Longrightarrow> monitor_reach (dm_monitor d)"
  by (auto simp: daemon_start_def intro: monitor_reach.start split: option.splits sum.splits prod.splits)

definition loop_run :: "('t, 'k, 'c) arm list \<Rightarrow> ('t, 'c) daemon \<Rightarrow> ('t, 'c) daemon option" where
  "loop_run arms d = fold_opt loop_step arms d"

lemma loop_run_ok:
  assumes "list_all arm_grounded arms" and "monitor_ok (dm_monitor d)"
  shows "returns (loop_run arms d) (\<lambda>d'. monitor_ok (dm_monitor d'))"
  unfolding loop_run_def
  by (rule returns_fold_opt [where P = "\<lambda>d. monitor_ok (dm_monitor d)", OF assms(2)])
    (use assms(1) in \<open>auto simp: list_all_iff intro: loop_step_ok\<close>)

section \<open>What a reader sends\<close>

definition turn_ok :: "fan_consts \<Rightarrow> reader_turn \<Rightarrow> bool" where
  "turn_ok K t \<longleftrightarrow> rt_ready t \<and> (read_fid_events_cached K (rt_read t) \<noteq> [] \<longrightarrow> rt_send t)"

lemma reader_loop_eq:
  "reader_loop K ts =
     (filter (\<lambda>b. b \<noteq> []) (map (\<lambda>t. read_fid_events_cached K (rt_read t)) (takeWhile (turn_ok K) ts)),
      \<not> list_all (turn_ok K) ts)"
  by (induction ts) (auto simp: turn_ok_def Let_def split: prod.split)

section \<open>What a batch publishes\<close>

text \<open>A record whose empty fields may have been filled in.\<close>

definition fills :: "file_event \<Rightarrow> file_event \<Rightarrow> bool" where
  "fills ev new \<longleftrightarrow>
     new = ev\<lparr>ev_comm := ev_comm new, ev_cmd := ev_cmd new, ev_ppid := ev_ppid new, ev_tgid := ev_tgid new\<rparr> \<and>
     (ev_comm ev \<noteq> [] \<longrightarrow> ev_comm new = ev_comm ev) \<and> (ev_cmd ev \<noteq> [] \<longrightarrow> ev_cmd new = ev_cmd ev) \<and>
     (ev_ppid ev \<noteq> 0 \<longrightarrow> ev_ppid new = ev_ppid ev) \<and> (ev_tgid ev \<noteq> 0 \<longrightarrow> ev_tgid new = ev_tgid ev)"

lemma patch_fills:
  "fills (pn_event pe) (pn_event (patch_pending_event api pf tracker pe)) \<and>
   pn_cmd_name (patch_pending_event api pf tracker pe) = pn_cmd_name pe"
  by (auto simp: fills_def patch_pending_event_def Let_def split: option.split)

lemma patch_all_fills:
  "list_all2 (\<lambda>pe pe'. fills (pn_event pe) (pn_event pe') \<and> pn_cmd_name pe' = pn_cmd_name pe)
     pending (patch_pending_events api pf tracker pending)"
  by (simp add: patch_pending_events_def list_all2_conv_all_nth nth_enumerate_eq patch_fills)

section \<open>Properties\<close>

text \<open>
  C3: From every start of the daemon, whatever events, signals, requests and reader deaths the
  loop serves and in whatever order, every arm returns and the monitor's invariant holds; and a
  shutdown after that drains every queued batch.
\<close>

theorem loop_never_panics:
  assumes "daemon_start w pid cfg f b c t = Some d0" and "list_all arm_grounded arms"
    and "\<And>x. x \<in> set queue \<Longrightarrow> well_founded_tree (w_tree (ar_world (fst x)))"
  shows "\<exists>d d'. loop_run arms d0 = Some d \<and> monitor_ok (dm_monitor d) \<and>
    drain_remaining_events queue d = Some d' \<and> monitor_ok (dm_monitor d')"
proof -
  obtain d where d: "loop_run arms d0 = Some d" "monitor_ok (dm_monitor d)"
    using loop_run_ok [OF assms(2) reach_ok [OF daemon_start_reach [OF assms(1)]]] by (auto simp: returns_iff)
  obtain d' where "drain_remaining_events queue d = Some d'" "monitor_ok (dm_monitor d')"
    using drain_remaining_ok [OF assms(3) d(2)] by (auto simp: returns_iff)
  with d show ?thesis by blast
qed

definition sample_arm_env :: "(u32 list \<times> (u32 \<rightharpoonup> string), u32, unit) arm_env" where
  "sample_arm_env = \<lparr>ar_world = sample_world, ar_events = sample_env, ar_before = None, ar_after = None,
     ar_patch = (\<lambda>_. \<lparr>pf_metadata = (\<lambda>_. None), pf_cmdline = (\<lambda>_. None), pf_owner = (\<lambda>_. None), pf_user = (\<lambda>_. None)\<rparr>)\<rparr>"

definition sample_daemon :: "(u32 list \<times> (u32 \<rightharpoonup> string), unit) daemon option" where
  "sample_daemon = daemon_start sample_world 7 sample_config True True () None"

lemma sample_start:
  "\<exists>d. sample_daemon = Some d \<and> sample_monitor = Some (dm_monitor d)"
  using sample_exists
  by (auto simp: sample_daemon_def daemon_start_def sample_monitor_def sample_init_def sample_new_def
      split: option.splits sum.splits prod.splits)

theorem loop_never_panics_witness:
  "\<exists>d0 d d'. sample_daemon = Some d0 \<and>
     loop_run [DeathArm sample_world 0, BatchArm sample_arm_env [sample_raw]] d0 = Some d \<and>
     drain_remaining_events [(sample_arm_env, [sample_raw])] d = Some d'"
proof -
  obtain d0 where d0: "sample_daemon = Some d0"
    using sample_start by blast
  have tree: "well_founded_tree (w_tree (ar_world sample_arm_env))"
    by (simp add: sample_arm_env_def sample_tree)
  have "list_all arm_grounded [DeathArm sample_world 0, BatchArm sample_arm_env [sample_raw]]"
    by (simp add: tree)
  from loop_never_panics [OF d0 [unfolded sample_daemon_def] this, of "[(sample_arm_env, [sample_raw])]"] tree d0
  show ?thesis by auto
qed

text \<open>
  C33: A batch publishes each record it makes once, in order, for the log it was made for; the
  second look at the processes fills empty fields only, and nothing published before is touched.
\<close>

theorem batch_published_in_order:
  assumes "on_batch env events d = Some d'"
  shows "\<exists>pending d1 records. run_batch env events d = Some (pending, d1) \<and>
    dm_published d' = dm_published d @ records \<and>
    list_all2 (\<lambda>pe (ev, cmd). fills (pn_event pe) ev \<and> cmd = pn_cmd_name pe) pending records"
proof -
  from assms obtain pending d1 where run: "run_batch env events d = Some (pending, d1)"
    and rest: "do {
      let d2 = drain_proc_events (en_api (ar_events env)) (ar_after env) d1;
      let d3 = send_pending_events (patch_pending_events (en_api (ar_events env)) (ar_patch env) (dm_tracker d2) pending) d2;
      m \<leftarrow> check_pending (ar_world env) (dm_monitor d3);
      Some (d3\<lparr>dm_monitor := m\<rparr>) } = Some d'"
    by (auto simp: on_batch_def Let_def split: bind_splits)
  let ?d2 = "drain_proc_events (en_api (ar_events env)) (ar_after env) d1"
  let ?patched = "patch_pending_events (en_api (ar_events env)) (ar_patch env) (dm_tracker ?d2) pending"
  have "dm_published d1 = dm_published d"
    using run by (auto simp: run_batch_def Let_def)
  then have "dm_published d' = dm_published d @ map (\<lambda>pe. (pn_event pe, pn_cmd_name pe)) ?patched"
    using rest by (auto simp: Let_def send_pending_events_def split: bind_splits)
  moreover have "list_all2 (\<lambda>pe (ev, cmd). fills (pn_event pe) ev \<and> cmd = pn_cmd_name pe) pending
      (map (\<lambda>pe. (pn_event pe, pn_cmd_name pe)) ?patched)"
    unfolding list_all2_map2 using patch_all_fills [of pending] by (simp add: list_all2_mono)
  ultimately show ?thesis using run by blast
qed

theorem batch_published_in_order_witness:
  "\<exists>d d' records. sample_daemon = Some d \<and>
     on_batch sample_arm_env [sample_raw] d = Some d' \<and> dm_published d' = dm_published d @ records"
proof -
  obtain d where d: "sample_daemon = Some d"
    using sample_start by blast
  have "well_founded_tree (w_tree (ar_world sample_arm_env))"
    by (simp add: sample_arm_env_def sample_tree)
  from on_batch_ok [OF this reach_ok [OF daemon_start_reach [OF d [unfolded sample_daemon_def]]], of "[sample_raw]"]
  obtain d' where d': "on_batch sample_arm_env [sample_raw] d = Some d'" by (auto simp: returns_iff)
  from batch_published_in_order [OF this] d d' show ?thesis by blast
qed

text \<open>
  A reader task sends the batches it reads, none of them empty and in the order read, until
  its descriptor fails or the loop's end of the channel is gone; it has died exactly then.
\<close>

theorem reader_sends_what_it_reads:
  "reader_task K async_ok ts =
     (if async_ok
      then (filter (\<lambda>b. b \<noteq> []) (map (\<lambda>t. read_fid_events_cached K (rt_read t)) (takeWhile (turn_ok K) ts)),
            \<not> list_all (turn_ok K) ts)
      else ([], True))"
  by (simp add: reader_task_def reader_loop_eq)

end
