(* ===== verification/Dir_Cache.thy ===== *)
theory Dir_Cache
  imports Rust_Path Ordered_Map
begin

text \<open>
  \<^verbatim>\<open>src/common/dir_cache.rs\<close>: the cache from directory handles to paths, with its capacity, its
  time to live and its count of misses. The type of filesystem ids and the choice of the entry to
  evict (the first in the iteration order of a hash map) are parameters; an instant is a natural
  number of time units.
\<close>

type_synonym handle = string
type_synonym fs_map = "(handle, path \<times> nat) hash"

record 'f dir_cache =
  dc_inner :: "('f, fs_map) hash"
  dc_capacity :: nat
  dc_ttl :: nat
  dc_misses :: u64

definition cache_new :: "nat \<Rightarrow> nat \<Rightarrow> 'f dir_cache" where
  "cache_new capacity ttl =
     \<lparr>dc_inner = [], dc_capacity = max capacity 1, dc_ttl = ttl, dc_misses = 0\<rparr>"

definition nested_get :: "('f, fs_map) hash \<Rightarrow> 'f \<Rightarrow> handle \<Rightarrow> (path \<times> nat) option" where
  "nested_get m fsid handle = (case map_of m fsid of None \<Rightarrow> None | Some fs \<Rightarrow> map_of fs handle)"

definition nested_del :: "'f \<Rightarrow> handle \<Rightarrow> ('f, fs_map) hash \<Rightarrow> ('f, fs_map) hash" where
  "nested_del fsid handle m =
     (case map_of m fsid of None \<Rightarrow> m | Some fs \<Rightarrow> al_put fsid (al_del handle fs) m)"

text \<open>\<open>cache_get\<close> is \<^verbatim>\<open>with_path\<close> with the closure that clones the path.\<close>

definition cache_get :: "nat \<Rightarrow> 'f \<Rightarrow> handle \<Rightarrow> 'f dir_cache \<Rightarrow> path option \<times> 'f dir_cache" where
  "cache_get now fsid handle c =
     (case nested_get (dc_inner c) fsid handle of
        Some (p, at) \<Rightarrow>
          if now - at < dc_ttl c then (Some p, c)
          else (None, c\<lparr>dc_inner := nested_del fsid handle (dc_inner c), dc_misses := dc_misses c + 1\<rparr>)
      | None \<Rightarrow> (None, c\<lparr>dc_misses := dc_misses c + 1\<rparr>))"

definition nested_size :: "('f, fs_map) hash \<Rightarrow> nat" where
  "nested_size m = sum_list (map (\<lambda>(_, fs). length fs) m)"

definition cache_entry_count :: "'f dir_cache \<Rightarrow> nat" where
  "cache_entry_count c = nested_size (dc_inner c)"

definition drop_expired :: "nat \<Rightarrow> nat \<Rightarrow> ('f, fs_map) hash \<Rightarrow> ('f, fs_map) hash" where
  "drop_expired now ttl m =
     filter (\<lambda>(_, fs). fs \<noteq> [])
       (map (\<lambda>(fsid, fs). (fsid, filter (\<lambda>(_, _, at). now - at < ttl) fs)) m)"

definition nested_put :: "'f \<Rightarrow> handle \<Rightarrow> path \<times> nat \<Rightarrow> ('f, fs_map) hash \<Rightarrow> ('f, fs_map) hash" where
  "nested_put fsid handle v m =
     al_put fsid (al_put handle v (case map_of m fsid of Some fs \<Rightarrow> fs | None \<Rightarrow> [])) m"

definition cache_insert ::
  "(('f, fs_map) hash \<Rightarrow> ('f \<times> handle) option) \<Rightarrow> nat \<Rightarrow> 'f \<times> handle \<Rightarrow> path \<Rightarrow>
     'f dir_cache \<Rightarrow> 'f dir_cache" where
  "cache_insert pick now key p c =
     (let (fsid, handle) = key;
          m1 = (if nested_size (dc_inner c) \<ge> dc_capacity c then
                  (let m = drop_expired now (dc_ttl c) (dc_inner c) in
                   if nested_size m \<ge> dc_capacity c
                   then (case pick m of Some (f, h) \<Rightarrow> nested_del f h m | None \<Rightarrow> m)
                   else m)
                else dc_inner c)
      in c\<lparr>dc_inner := nested_put fsid handle (p, now) m1\<rparr>)"

definition cache_forget :: "'f \<Rightarrow> handle \<Rightarrow> 'f dir_cache \<Rightarrow> 'f dir_cache" where
  "cache_forget fsid handle c = c\<lparr>dc_inner := nested_del fsid handle (dc_inner c)\<rparr>"

text \<open>A handle is given only if the kernel names both the filesystem and the handle.\<close>

definition cache_dir_handle ::
  "(('f, fs_map) hash \<Rightarrow> ('f \<times> handle) option) \<Rightarrow> nat \<Rightarrow> (path \<Rightarrow> 'f option) \<Rightarrow>
     (path \<Rightarrow> handle option) \<Rightarrow> path \<Rightarrow> 'f dir_cache \<Rightarrow> 'f dir_cache" where
  "cache_dir_handle pick now fsid_of_path name_to_handle p c =
     (case fsid_of_path p of
        None \<Rightarrow> c
      | Some fsid \<Rightarrow>
          (case name_to_handle p of None \<Rightarrow> c | Some h \<Rightarrow> cache_insert pick now (fsid, h) p c))"

definition cache_handle_from_fd ::
  "(('f, fs_map) hash \<Rightarrow> ('f \<times> handle) option) \<Rightarrow> nat \<Rightarrow> ('d \<Rightarrow> 'f option) \<Rightarrow> ('d \<Rightarrow> handle option) \<Rightarrow>
     'd \<Rightarrow> path \<Rightarrow> 'f dir_cache \<Rightarrow> 'f dir_cache" where
  "cache_handle_from_fd pick now fsid_of_fd handle_from_fd fd p c =
     (case fsid_of_fd fd of
        None \<Rightarrow> c
      | Some fsid \<Rightarrow>
          (case handle_from_fd fd of None \<Rightarrow> c | Some h \<Rightarrow> cache_insert pick now (fsid, h) p c))"

text \<open>A descriptor of the directory gives the same entry as its name.\<close>

lemma handle_from_fd_agrees:
  assumes "fsid_of_fd fd = fsid_of_path p" and "handle_from_fd fd = name_to_handle p"
  shows "cache_handle_from_fd pick now fsid_of_fd handle_from_fd fd p c =
    cache_dir_handle pick now fsid_of_path name_to_handle p c"
  using assms by (simp add: cache_handle_from_fd_def cache_dir_handle_def split: option.split)

section \<open>Eviction\<close>

text \<open>The entry the code drops: the first key of the first filesystem that has any.\<close>

definition first_entry :: "('f, fs_map) hash \<Rightarrow> ('f \<times> handle) option" where
  "first_entry m =
     (case List.find (\<lambda>(_, fs). fs \<noteq> []) m of
        Some (f, fs) \<Rightarrow> Some (f, fst (hd fs))
      | None \<Rightarrow> None)"

section \<open>Well-formed caches\<close>

definition nested_ok :: "('f, fs_map) hash \<Rightarrow> bool" where
  "nested_ok m \<longleftrightarrow> al_ok m \<and> list_all (\<lambda>(_, fs). al_ok fs) m"

lemma nested_size_Cons [simp]: "nested_size ((f, fs) # m) = length fs + nested_size m"
  by (simp add: nested_size_def)

lemma nested_size_Nil [simp]: "nested_size [] = 0"
  by (simp add: nested_size_def)

lemma nested_ok_fs: "nested_ok m \<Longrightarrow> map_of m f = Some fs \<Longrightarrow> al_ok fs"
  by (auto simp: nested_ok_def list_all_iff dest!: map_of_SomeD)

lemma al_put_entries: "(a, w) \<in> set (al_put k v m) \<Longrightarrow> (a, w) = (k, v) \<or> (a, w) \<in> set m"
  by (induction k v m rule: al_put.induct) (auto split: if_splits)

lemma nested_ok_put:
  assumes "nested_ok m" and "al_ok fs"
  shows "nested_ok (al_put f fs m)"
  using assms al.ok_put [of m f fs] al_put_entries [of _ _ f fs m]
  by (fastforce simp: nested_ok_def list_all_iff)

lemma size_al_put:
  "al_ok m \<Longrightarrow> nested_size (al_put f fs m) + (case map_of m f of Some gs \<Rightarrow> length gs | None \<Rightarrow> 0) =
     nested_size m + length fs"
proof (induction f fs m rule: al_put.induct)
  case (2 k v a w m)
  then show ?case by (auto simp: al_ok_def)
qed simp

lemma nested_get_put:
  "nested_get (nested_put f h v m) f' h' = (if f' = f \<and> h' = h then Some v else nested_get m f' h')"
  by (auto simp: nested_get_def nested_put_def al_get_put split: option.splits)

lemma nested_get_del:
  "nested_get (nested_del f h m) f' h' = (if f' = f \<and> h' = h then None else nested_get m f' h')"
  by (auto simp: nested_get_def nested_del_def al_get_put al_get_del split: option.splits)

lemma al_ok_single [simp]: "al_ok [x]"
  by (simp add: al_ok_def)

lemma nested_size_ge: "map_of m f = Some fs \<Longrightarrow> length fs \<le> nested_size m"
  by (induction m) (auto split: if_splits)

lemma nested_ok_nested_put: "nested_ok m \<Longrightarrow> nested_ok (nested_put f h v m)"
  unfolding nested_put_def
  by (rule nested_ok_put) (auto intro: al_ok_put nested_ok_fs split: option.splits)

lemma nested_ok_nested_del: "nested_ok m \<Longrightarrow> nested_ok (nested_del f h m)"
  by (auto simp: nested_del_def intro: nested_ok_put al_ok_del nested_ok_fs split: option.splits)

lemma nested_ok_al: "nested_ok m \<Longrightarrow> al_ok m"
  by (simp add: nested_ok_def)

lemma size_nested_put:
  assumes "nested_ok m"
  shows "nested_size (nested_put f h v m) = nested_size m + (if nested_get m f h = None then 1 else 0)"
proof (cases "map_of m f")
  case None
  then show ?thesis
    using size_al_put [OF nested_ok_al [OF assms], of f "[(h, v)]"]
    by (simp add: nested_put_def nested_get_def)
next
  case (Some fs)
  have fs: "al_ok fs" by (rule nested_ok_fs [OF assms Some])
  show ?thesis
    using size_al_put [OF nested_ok_al [OF assms], of f "al_put h v fs"] Some
      al.size_put_new [OF fs, of h v] al.size_put_old [OF fs, of h _ v]
    by (cases "map_of fs h") (simp_all add: nested_put_def nested_get_def)
qed

lemma size_nested_del:
  assumes "nested_ok m"
  shows "nested_size (nested_del f h m) = nested_size m - (if nested_get m f h = None then 0 else 1)"
proof (cases "map_of m f")
  case None
  then show ?thesis by (simp add: nested_del_def nested_get_def)
next
  case (Some fs)
  have fs: "al_ok fs" by (rule nested_ok_fs [OF assms Some])
  have sz: "nested_size (nested_del f h m) + length fs = nested_size m + length (al_del h fs)"
    using size_al_put [OF nested_ok_al [OF assms], of f "al_del h fs"] Some
    by (simp add: nested_del_def)
  show ?thesis
  proof (cases "map_of fs h")
    case None
    then have "length (al_del h fs) = length fs" using al.size_del [OF fs, of h] by simp
    then show ?thesis using sz None Some by (simp add: nested_get_def)
  next
    case (Some v)
    then have "0 < length fs" by (cases fs) auto
    moreover have "length (al_del h fs) = length fs - 1" using al.size_del [OF fs, of h] Some by simp
    ultimately have "nested_size (nested_del f h m) = nested_size m - 1"
      using sz nested_size_ge [OF \<open>map_of m f = Some fs\<close>] by linarith
    then show ?thesis using Some \<open>map_of m f = Some fs\<close> by (simp add: nested_get_def)
  qed
qed

lemma drop_expired_fs:
  "al_ok m \<Longrightarrow> map_of (drop_expired now ttl m) f =
     (case map_of m f of
        Some fs \<Rightarrow>
          (let gs = filter (\<lambda>(_, _, at). now - at < ttl) fs in if gs = [] then None else Some gs)
      | None \<Rightarrow> None)"
proof (induction m)
  case Nil
  then show ?case by (simp add: drop_expired_def)
next
  case (Cons x m)
  obtain g fs where x: "x = (g, fs)" by (cases x)
  have "map_of m g = None" and "al_ok m"
    using Cons.prems x by (auto simp: al_ok_def map_of_eq_None_iff)
  with Cons.IH show ?case by (auto simp: drop_expired_def x Let_def)
qed

lemma nested_ok_drop_expired:
  assumes "nested_ok m"
  shows "nested_ok (drop_expired now ttl m)"
proof -
  have "map fst (map (\<lambda>(fsid, fs). (fsid, filter (\<lambda>(_, _, at). now - at < ttl) fs)) m) = map fst m"
    by auto
  then have "al_ok (drop_expired now ttl m)"
    using assms unfolding nested_ok_def drop_expired_def al_ok_def by (metis distinct_map_filter)
  moreover have "list_all (\<lambda>(_, fs). al_ok fs) (drop_expired now ttl m)"
    using assms by (fastforce simp: nested_ok_def drop_expired_def list_all_iff intro: al_ok_filter)
  ultimately show ?thesis by (simp add: nested_ok_def)
qed

lemma map_of_filter_time:
  "al_ok fs \<Longrightarrow> map_of (filter (\<lambda>(_, _, at). now - at < ttl) fs) h =
     (case map_of fs h of Some (p, at) \<Rightarrow> if now - at < ttl then Some (p, at) else None | None \<Rightarrow> None)"
proof (induction fs)
  case (Cons x fs)
  obtain g p at where x: "x = (g, p, at)" by (cases x) auto
  have "map_of fs g = None" and "al_ok fs"
    using Cons.prems x by (auto simp: al_ok_def map_of_eq_None_iff)
  with Cons.IH show ?case by (auto simp: x split: option.splits)
qed simp

lemma nested_get_drop_expired:
  assumes "nested_ok m"
  shows "nested_get (drop_expired now ttl m) f h =
    (case nested_get m f h of
       Some (p, at) \<Rightarrow> if now - at < ttl then Some (p, at) else None
     | None \<Rightarrow> None)"
proof (cases "map_of m f")
  case None
  then show ?thesis by (simp add: nested_get_def drop_expired_fs [OF nested_ok_al [OF assms]])
next
  case (Some fs)
  have "al_ok fs" by (rule nested_ok_fs [OF assms Some])
  from map_of_filter_time [OF this, of now ttl h] show ?thesis
    by (cases "filter (\<lambda>(_, _, at). now - at < ttl) fs")
      (auto simp: nested_get_def Some drop_expired_fs [OF nested_ok_al [OF assms]] Let_def
        split: option.splits)
qed

lemma size_drop_expired: "nested_size (drop_expired now ttl m) \<le> nested_size m"
proof (induction m)
  case (Cons x m)
  obtain g fs where x: "x = (g, fs)" by (cases x)
  from Cons show ?case
    by (auto simp: x drop_expired_def intro: add_mono [OF length_filter_le])
qed (simp add: drop_expired_def)

section \<open>The contract of the eviction choice\<close>

locale evictor =
  fixes pick :: "('f, fs_map) hash \<Rightarrow> ('f \<times> handle) option"
  assumes pick_some: "nested_ok m \<Longrightarrow> 0 < nested_size m \<Longrightarrow> pick m \<noteq> None"
    and pick_present: "nested_ok m \<Longrightarrow> pick m = Some (f, h) \<Longrightarrow> nested_get m f h \<noteq> None"
begin

lemma evict_size:
  assumes "nested_ok m" and "0 < nested_size m"
  shows "nested_size (case pick m of Some (f, h) \<Rightarrow> nested_del f h m | None \<Rightarrow> m) = nested_size m - 1"
  using pick_some [OF assms] pick_present [OF assms(1)] size_nested_del [OF assms(1)]
  by (auto split: option.splits)

lemma evict_ok:
  "nested_ok m \<Longrightarrow> nested_ok (case pick m of Some (f, h) \<Rightarrow> nested_del f h m | None \<Rightarrow> m)"
  by (auto intro: nested_ok_nested_del split: option.splits)

lemma evict_get:
  "nested_get (case pick m of Some (f, h) \<Rightarrow> nested_del f h m | None \<Rightarrow> m) f' h' \<in>
     {nested_get m f' h', None}"
  by (auto simp: nested_get_del split: option.splits)

end

interpretation first: evictor first_entry
proof
  fix m :: "('f, fs_map) hash" and f h
  assume ok: "nested_ok m"
  have "first_entry m = None \<Longrightarrow> nested_size m = 0"
    by (induction m) (auto simp: first_entry_def split: if_splits option.splits)
  then show "0 < nested_size m \<Longrightarrow> first_entry m \<noteq> None" by linarith
  show "nested_get m f h \<noteq> None" if first: "first_entry m = Some (f, h)"
  proof -
    obtain fs where fs: "List.find (\<lambda>(_, fs). fs \<noteq> []) m = Some (f, fs)" "h = fst (hd fs)"
      using first by (auto simp: first_entry_def split: option.splits)
    then have "(f, fs) \<in> set m" "fs \<noteq> []" using find_SomeD [OF fs(1)] by auto
    then have "map_of m f = Some fs" "map_of fs h \<noteq> None"
      using ok fs(2) by (auto simp: nested_ok_def al_ok_def map_of_eq_None_iff)
    then show ?thesis by (simp add: nested_get_def)
  qed
qed

section \<open>Every operation keeps the bound\<close>

text \<open>The operations of the daemon on its cache, as steps.\<close>

datatype 'f cache_op = CGet nat 'f handle | CInsert nat "'f \<times> handle" path | CForget 'f handle

fun cache_step ::
  "(('f, fs_map) hash \<Rightarrow> ('f \<times> handle) option) \<Rightarrow> 'f cache_op \<Rightarrow> 'f dir_cache \<Rightarrow> 'f dir_cache" where
  "cache_step pick (CGet now f h) c = snd (cache_get now f h c)"
| "cache_step pick (CInsert now key p) c = cache_insert pick now key p c"
| "cache_step pick (CForget f h) c = cache_forget f h c"

definition cache_ok :: "'f dir_cache \<Rightarrow> bool" where
  "cache_ok c \<longleftrightarrow>
     nested_ok (dc_inner c) \<and> 0 < dc_capacity c \<and> cache_entry_count c \<le> dc_capacity c"

lemma nested_size_del_le: "nested_ok m \<Longrightarrow> nested_size (nested_del f h m) \<le> nested_size m"
  by (simp add: size_nested_del)

context evictor
begin

text \<open>The map an insertion writes to, and what is left in it.\<close>

definition room :: "nat \<Rightarrow> 'f dir_cache \<Rightarrow> ('f, fs_map) hash" where
  "room now c =
     (if nested_size (dc_inner c) \<ge> dc_capacity c then
        (let m = drop_expired now (dc_ttl c) (dc_inner c) in
         if nested_size m \<ge> dc_capacity c
         then (case pick m of Some (f, h) \<Rightarrow> nested_del f h m | None \<Rightarrow> m)
         else m)
      else dc_inner c)"

lemma insert_room:
  "cache_insert pick now (f, h) p c = c\<lparr>dc_inner := nested_put f h (p, now) (room now c)\<rparr>"
  by (simp add: cache_insert_def room_def Let_def)

lemma room_ok:
  assumes "cache_ok c"
  shows "nested_ok (room now c)" and "nested_size (room now c) < dc_capacity c"
proof -
  let ?m = "drop_expired now (dc_ttl c) (dc_inner c)"
  have ok: "nested_ok ?m" using assms by (simp add: cache_ok_def nested_ok_drop_expired)
  then show "nested_ok (room now c)"
    using assms evict_ok [OF ok] by (simp add: room_def Let_def cache_ok_def)
  have "nested_size ?m \<le> dc_capacity c"
    using assms size_drop_expired [of now "dc_ttl c" "dc_inner c"]
    by (simp add: cache_ok_def cache_entry_count_def)
  then show "nested_size (room now c) < dc_capacity c"
    using assms evict_size [OF ok] by (auto simp: room_def Let_def cache_ok_def)
qed

lemma room_get:
  assumes "cache_ok c"
  shows "nested_get (room now c) f h \<in> {nested_get (dc_inner c) f h, None}"
proof -
  have "nested_ok (dc_inner c)" using assms by (simp add: cache_ok_def)
  from nested_get_drop_expired [OF this, of now "dc_ttl c" f h]
  have "nested_get (drop_expired now (dc_ttl c) (dc_inner c)) f h \<in> {nested_get (dc_inner c) f h, None}"
    by (auto split: option.splits)
  with evict_get [of "drop_expired now (dc_ttl c) (dc_inner c)" f h] show ?thesis
    unfolding room_def Let_def by auto
qed

lemma cache_ok_insert: "cache_ok c \<Longrightarrow> cache_ok (cache_insert pick now (f, h) p c)"
  using room_ok [of c now]
  by (auto simp: insert_room cache_ok_def cache_entry_count_def size_nested_put nested_ok_nested_put)

lemma cache_ok_step: "cache_ok c \<Longrightarrow> cache_ok (cache_step pick op c)"
proof (cases op)
  case (CGet now f h)
  assume "cache_ok c"
  then show ?thesis
    using nested_size_del_le [of "dc_inner c" f h]
    by (auto simp: CGet cache_get_def cache_ok_def cache_entry_count_def nested_ok_nested_del
        split: option.splits)
next
  case (CInsert now key p)
  assume "cache_ok c"
  then show ?thesis by (cases key) (simp add: CInsert cache_ok_insert)
next
  case (CForget f h)
  assume "cache_ok c"
  then show ?thesis
    using nested_size_del_le [of "dc_inner c" f h]
    by (simp add: CForget cache_forget_def cache_ok_def cache_entry_count_def nested_ok_nested_del)
qed

lemma cache_ok_run: "cache_ok c \<Longrightarrow> cache_ok (fold (cache_step pick) ops c)"
  by (induction ops arbitrary: c) (simp_all add: cache_ok_step)

end

lemma cache_ok_new: "cache_ok (cache_new capacity ttl)"
  by (simp add: cache_ok_def cache_new_def cache_entry_count_def nested_ok_def)

lemma capacity_step: "dc_capacity (cache_step pick op c) = dc_capacity c"
  by (cases op) (auto simp: cache_get_def cache_insert_def cache_forget_def Let_def split: option.splits prod.splits)

lemma capacity_run: "dc_capacity (fold (cache_step pick) ops c) = dc_capacity c"
  by (induction ops arbitrary: c) (simp_all add: capacity_step)

section \<open>Properties\<close>

text \<open>
  Whatever sequence of lookups, insertions and removals the daemon runs, at whatever
  times, the cache never holds more entries than its capacity, whichever entry of a full cache
  the hash map offers for eviction.
\<close>

theorem cache_bounded:
  assumes "evictor pick"
  shows "cache_entry_count (fold (cache_step pick) ops (cache_new capacity ttl)) \<le> max capacity 1"
proof -
  have "cache_ok (fold (cache_step pick) ops (cache_new capacity ttl))"
    by (rule evictor.cache_ok_run [OF assms cache_ok_new])
  moreover have "dc_capacity (fold (cache_step pick) ops (cache_new capacity ttl)) = max capacity 1"
    by (simp add: capacity_run cache_new_def)
  ultimately show ?thesis by (simp add: cache_ok_def)
qed

theorem cache_bounded_witness:
  "cache_entry_count (fold (cache_step first_entry)
     [CInsert 0 (0::nat, ''h'') [RootDir], CInsert 1 (1, ''g'') [RootDir], CGet 2 0 ''h'']
     (cache_new 1 60)) \<le> 1"
  using cache_bounded [OF first.evictor_axioms,
    of "[CInsert 0 (0::nat, ''h'') [RootDir], CInsert 1 (1, ''g'') [RootDir], CGet 2 0 ''h'']" 1 60]
  by simp

text \<open>
  An insertion into any cache the daemon can reach is found until its time to live is
  over, and then it is a miss that is counted and drops the entry; any other handle answers
  with the path it had or not at all, never with another path.
\<close>

theorem cache_insert_lookup:
  assumes "evictor pick" and "c = fold (cache_step pick) ops (cache_new capacity ttl)"
  shows "(now' - now < ttl \<longrightarrow>
      cache_get now' f h (cache_insert pick now (f, h) p c) = (Some p, cache_insert pick now (f, h) p c)) \<and>
    (\<not> now' - now < ttl \<longrightarrow>
      fst (cache_get now' f h (cache_insert pick now (f, h) p c)) = None \<and>
      dc_misses (snd (cache_get now' f h (cache_insert pick now (f, h) p c))) = dc_misses c + 1) \<and>
    ((f', h') \<noteq> (f, h) \<longrightarrow>
      nested_get (dc_inner (cache_insert pick now (f, h) p c)) f' h'
        \<in> {nested_get (dc_inner c) f' h', None})"
proof -
  have ok: "cache_ok c" unfolding assms(2) by (rule evictor.cache_ok_run [OF assms(1) cache_ok_new])
  have ttl: "dc_ttl c = ttl"
  proof -
    have "dc_ttl (cache_step pick op d) = dc_ttl d" for op d
      by (cases op) (auto simp: cache_get_def cache_insert_def cache_forget_def Let_def
          split: option.splits prod.splits)
    then have "dc_ttl (fold (cache_step pick) ops d) = dc_ttl d" for d
      by (induction ops arbitrary: d) simp_all
    then show ?thesis by (simp add: assms(2) cache_new_def)
  qed
  let ?c = "cache_insert pick now (f, h) p c"
  have here: "nested_get (dc_inner ?c) f h = Some (p, now)"
    and other: "(f', h') \<noteq> (f, h) \<Longrightarrow> nested_get (dc_inner ?c) f' h' =
      nested_get (evictor.room pick now c) f' h'"
    and keep: "dc_ttl ?c = ttl" "dc_misses ?c = dc_misses c"
    by (auto simp: evictor.insert_room [OF assms(1)] nested_get_put ttl)
  show ?thesis
    using here other keep evictor.room_get [OF assms(1) ok, of now f' h']
    by (simp add: cache_get_def)
qed

theorem cache_insert_lookup_witness:
  "fst (cache_get 5 0 ''h'' (cache_insert first_entry 3 (0::nat, ''h'') [RootDir]
      (fold (cache_step first_entry) [] (cache_new 1 60)))) = Some [RootDir]"
  using cache_insert_lookup [OF first.evictor_axioms refl,
    of 5 3 60 "0::nat" "''h''" "[RootDir]" "[]" 1 0 "''h''"]
  by simp

end
