(* ===== verification/Seccomp.thy ===== *)
theory Seccomp
  imports Prelude
begin

text \<open>
  The seccomp filter of \<^verbatim>\<open>src/common/monitor/factory.rs\<close>: the program the code builds for the
  privileged child, and the meaning of a program in the kernel's classic BPF, as far as the
  filter uses it. The numbers of the system calls and of the architecture are parameters.
\<close>

record sock_filter =
  bf_code :: u16
  bf_jt :: u8
  bf_jf :: u8
  bf_k :: u32

definition BPF_LD_W_ABS :: u16 where "BPF_LD_W_ABS = 0x20"
definition BPF_JMP_JEQ_K :: u16 where "BPF_JMP_JEQ_K = 0x15"
definition BPF_RET_K :: u16 where "BPF_RET_K = 0x06"
definition SECCOMP_RET_KILL_PROCESS :: u32 where "SECCOMP_RET_KILL_PROCESS = 0x80000000"
definition SECCOMP_RET_ALLOW :: u32 where "SECCOMP_RET_ALLOW = 0x7fff0000"
definition SECCOMP_DATA_NR_OFF :: u32 where "SECCOMP_DATA_NR_OFF = 0"
definition SECCOMP_DATA_ARCH_OFF :: u32 where "SECCOMP_DATA_ARCH_OFF = 4"

datatype syscall =
  Fanotify_init | Fanotify_mark | Recvmsg | Sendmsg | Read | Write | Close | Exit_group

definition ALLOWED_SYSCALLS :: "syscall list" where
  "ALLOWED_SYSCALLS =
     [Fanotify_init, Fanotify_mark, Recvmsg, Sendmsg, Read, Write, Close, Exit_group]"

definition filter_body :: "u32 \<Rightarrow> sock_filter list" where
  "filter_body audit_arch =
     (if audit_arch \<noteq> 0 then
        [\<lparr>bf_code = BPF_LD_W_ABS, bf_jt = 0, bf_jf = 0, bf_k = SECCOMP_DATA_ARCH_OFF\<rparr>,
         \<lparr>bf_code = BPF_JMP_JEQ_K, bf_jt = 1, bf_jf = 0, bf_k = audit_arch\<rparr>,
         \<lparr>bf_code = BPF_RET_K, bf_jt = 0, bf_jf = 0, bf_k = SECCOMP_RET_KILL_PROCESS\<rparr>]
      else []) @
     [\<lparr>bf_code = BPF_LD_W_ABS, bf_jt = 0, bf_jf = 0, bf_k = SECCOMP_DATA_NR_OFF\<rparr>]"

definition patch_jump :: "nat \<Rightarrow> nat \<Rightarrow> nat \<Rightarrow> sock_filter list \<Rightarrow> sock_filter list" where
  "patch_jump first_check allow_index i f =
     f[first_check + i :=
         (f ! (first_check + i))\<lparr>bf_jt := of_nat (allow_index - (first_check + i + 1))\<rparr>]"

definition filter_for :: "u32 \<Rightarrow> u32 list \<Rightarrow> sock_filter list" where
  "filter_for audit_arch allowed =
     (let body = filter_body audit_arch;
          first_check = length body;
          f = body @
              map (\<lambda>n. \<lparr>bf_code = BPF_JMP_JEQ_K, bf_jt = 0, bf_jf = 0, bf_k = n\<rparr>) allowed @
              [\<lparr>bf_code = BPF_RET_K, bf_jt = 0, bf_jf = 0, bf_k = SECCOMP_RET_KILL_PROCESS\<rparr>];
          allow_index = length f;
          g = f @ [\<lparr>bf_code = BPF_RET_K, bf_jt = 0, bf_jf = 0, bf_k = SECCOMP_RET_ALLOW\<rparr>]
      in fold (patch_jump first_check allow_index) [0..<length allowed] g)"

definition build_filter :: "u32 \<Rightarrow> (syscall \<Rightarrow> u32) \<Rightarrow> sock_filter list" where
  "build_filter audit_arch sys_nr = filter_for audit_arch (map sys_nr ALLOWED_SYSCALLS)"

section \<open>Installing it\<close>

text \<open>
  The child gives up new privileges first, or the kernel would refuse the filter; \<open>SetFilter\<close> is the
  \<^verbatim>\<open>SockFprog\<close> with the length as the kernel reads it, in 16 bits.
\<close>

datatype prctl_call = SetNoNewPrivs | SetFilter u16 "sock_filter list"

definition install_seccomp :: "(prctl_call \<Rightarrow> bool) \<Rightarrow> sock_filter list \<Rightarrow> bool \<times> prctl_call list" where
  "install_seccomp ok prog =
     (let install = SetFilter (of_nat (length prog)) prog in
      if \<not> ok SetNoNewPrivs then (False, [SetNoNewPrivs]) else (ok install, [SetNoNewPrivs, install]))"

section \<open>Running a filter\<close>

text \<open>
  Classic BPF over the seccomp data: a load reads the call number at offset 0 or the architecture
  at offset 4, a jump skips forward, a return ends. \<open>None\<close> is a program the kernel refuses. Every
  step moves forward, so a run ends.
\<close>

function bpf_run :: "sock_filter list \<Rightarrow> u32 \<Rightarrow> u32 \<Rightarrow> nat \<Rightarrow> u32 \<Rightarrow> u32 option" where
  "bpf_run prog nr arch pc a =
     (if pc < length prog then
        (let i = prog ! pc in
         if bf_code i = BPF_LD_W_ABS then
           (if bf_k i = SECCOMP_DATA_NR_OFF then bpf_run prog nr arch (pc + 1) nr
            else if bf_k i = SECCOMP_DATA_ARCH_OFF then bpf_run prog nr arch (pc + 1) arch
            else None)
         else if bf_code i = BPF_JMP_JEQ_K then
           bpf_run prog nr arch (pc + 1 + unat (if a = bf_k i then bf_jt i else bf_jf i)) a
         else if bf_code i = BPF_RET_K then Some (bf_k i)
         else None)
      else None)"
  by auto

termination
  by (relation "measure (\<lambda>(prog, _, _, pc, _). length prog - pc)") auto

declare bpf_run.simps [simp del]

lemma bpf_ret:
  "pc < length prog \<Longrightarrow> bf_code (prog ! pc) = BPF_RET_K \<Longrightarrow>
     bpf_run prog nr arch pc a = Some (bf_k (prog ! pc))"
  by (subst bpf_run.simps) (simp add: Let_def BPF_RET_K_def BPF_LD_W_ABS_def BPF_JMP_JEQ_K_def)

lemma bpf_jeq:
  "pc < length prog \<Longrightarrow> bf_code (prog ! pc) = BPF_JMP_JEQ_K \<Longrightarrow>
     bpf_run prog nr arch pc a =
       bpf_run prog nr arch
         (pc + 1 + unat (if a = bf_k (prog ! pc) then bf_jt (prog ! pc) else bf_jf (prog ! pc))) a"
  by (subst bpf_run.simps) (simp add: Let_def BPF_LD_W_ABS_def BPF_JMP_JEQ_K_def)

lemma bpf_ld:
  "pc < length prog \<Longrightarrow> bf_code (prog ! pc) = BPF_LD_W_ABS \<Longrightarrow>
     bpf_run prog nr arch pc a =
       (if bf_k (prog ! pc) = SECCOMP_DATA_NR_OFF then bpf_run prog nr arch (pc + 1) nr
        else if bf_k (prog ! pc) = SECCOMP_DATA_ARCH_OFF then bpf_run prog nr arch (pc + 1) arch
        else None)"
  by (subst bpf_run.simps) (simp add: Let_def)

section \<open>The program that is built\<close>

lemma length_patched: "length (fold (patch_jump first allow) is g) = length g"
  by (induction "is" arbitrary: g) (simp_all add: patch_jump_def)

lemma length_filter_for: "length (filter_for audit allowed) = length (filter_body audit) + length allowed + 2"
  by (simp only: filter_for_def Let_def length_patched length_append length_map list.size)

text \<open>The child goes on only with the whole filter installed: its length survives the 16 bits.\<close>

lemma installs_whole_filter:
  assumes "install_seccomp ok (build_filter audit sys_nr) = (True, calls)"
  shows "\<exists>n. calls = [SetNoNewPrivs, SetFilter n (build_filter audit sys_nr)] \<and>
    unat n = length (build_filter audit sys_nr) \<and> ok (SetFilter n (build_filter audit sys_nr))"
proof -
  have "length (build_filter audit sys_nr) \<le> 14"
    by (simp add: build_filter_def length_filter_for filter_body_def ALLOWED_SYSCALLS_def)
  then have "unat (of_nat (length (build_filter audit sys_nr)) :: u16) = length (build_filter audit sys_nr)"
    by (simp add: unat_of_nat)
  with assms show ?thesis by (auto simp: install_seccomp_def Let_def split: if_splits)
qed

lemma patch_all:
  assumes "first + m \<le> length g"
  shows "length (fold (patch_jump first allow) [0..<m] g) = length g \<and>
    (\<forall>j < length g. fold (patch_jump first allow) [0..<m] g ! j =
      (if first \<le> j \<and> j < first + m then (g ! j)\<lparr>bf_jt := of_nat (allow - (j + 1))\<rparr> else g ! j))"
  using assms
proof (induction m)
  case 0
  then show ?case by auto
next
  case (Suc m)
  then show ?case by (auto simp: patch_jump_def nth_list_update)
qed

lemma filter_for_code:
  assumes "length allowed \<le> 255"
  shows "filter_for audit allowed =
    filter_body audit @
    map (\<lambda>i. \<lparr>bf_code = BPF_JMP_JEQ_K, bf_jt = of_nat (length allowed - i), bf_jf = 0,
               bf_k = allowed ! i\<rparr>) [0..<length allowed] @
    [\<lparr>bf_code = BPF_RET_K, bf_jt = 0, bf_jf = 0, bf_k = SECCOMP_RET_KILL_PROCESS\<rparr>,
     \<lparr>bf_code = BPF_RET_K, bf_jt = 0, bf_jf = 0, bf_k = SECCOMP_RET_ALLOW\<rparr>]"
    (is "_ = ?prog")
proof -
  let ?body = "filter_body audit" and ?n = "length allowed"
  let ?g = "?body @ map (\<lambda>n. \<lparr>bf_code = BPF_JMP_JEQ_K, bf_jt = 0, bf_jf = 0, bf_k = n\<rparr>) allowed @
      [\<lparr>bf_code = BPF_RET_K, bf_jt = 0, bf_jf = 0, bf_k = SECCOMP_RET_KILL_PROCESS\<rparr>,
       \<lparr>bf_code = BPF_RET_K, bf_jt = 0, bf_jf = 0, bf_k = SECCOMP_RET_ALLOW\<rparr>]"
  have b: "filter_for audit allowed =
      fold (patch_jump (length ?body) (length ?body + ?n + 1)) [0..<?n] ?g"
    by (simp add: filter_for_def Let_def)
  note patched = patch_all [of "length ?body" ?n ?g "length ?body + ?n + 1"]
  show ?thesis
  proof (rule nth_equalityI)
    show "length (filter_for audit allowed) = length ?prog"
      using patched by (simp add: b)
    show "filter_for audit allowed ! j = ?prog ! j" if "j < length (filter_for audit allowed)" for j
    proof -
      have "j < length ?g" using that patched by (simp add: b)
      then show ?thesis
        using patched by (auto simp: b nth_append)
    qed
  qed
qed

text \<open>The checks from the \<open>i\<close>-th on, in any program that has them at \<open>k\<close>.\<close>

lemma bpf_checks:
  assumes prog: "prog = body @
      map (\<lambda>i. \<lparr>bf_code = BPF_JMP_JEQ_K, bf_jt = of_nat (length allowed - i), bf_jf = 0,
                 bf_k = allowed ! i\<rparr>) [0..<length allowed] @
      [\<lparr>bf_code = BPF_RET_K, bf_jt = 0, bf_jf = 0, bf_k = SECCOMP_RET_KILL_PROCESS\<rparr>,
       \<lparr>bf_code = BPF_RET_K, bf_jt = 0, bf_jf = 0, bf_k = SECCOMP_RET_ALLOW\<rparr>]"
    and small: "length allowed \<le> 255" and "i \<le> length allowed"
  shows "bpf_run prog nr arch (length body + i) nr =
    Some (if nr \<in> set (drop i allowed) then SECCOMP_RET_ALLOW else SECCOMP_RET_KILL_PROCESS)"
  using assms(3)
proof (induction "length allowed - i" arbitrary: i)
  case 0
  then have "prog ! (length body + i) =
      \<lparr>bf_code = BPF_RET_K, bf_jt = 0, bf_jf = 0, bf_k = SECCOMP_RET_KILL_PROCESS\<rparr>"
    by (simp add: prog nth_append)
  moreover have "length body + i < length prog" using 0 by (simp add: prog)
  ultimately show ?case using 0 by (simp add: bpf_ret)
next
  case (Suc d)
  let ?pc = "length body + i"
  have i: "i < length allowed" using Suc by simp
  then have at_i: "prog ! ?pc = \<lparr>bf_code = BPF_JMP_JEQ_K, bf_jt = of_nat (length allowed - i), bf_jf = 0,
      bf_k = allowed ! i\<rparr>" and len: "?pc < length prog"
    by (simp_all add: prog nth_append)
  have jt: "unat (of_nat (length allowed - i) :: u8) = length allowed - i"
    using small by (simp add: unat_of_nat)
  have split: "drop i allowed = allowed ! i # drop (Suc i) allowed" using i by (rule Cons_nth_drop_Suc [symmetric])
  show ?case
  proof (cases "nr = allowed ! i")
    case True
    have "prog ! (length body + length allowed + 1) =
        \<lparr>bf_code = BPF_RET_K, bf_jt = 0, bf_jf = 0, bf_k = SECCOMP_RET_ALLOW\<rparr>"
      by (simp add: prog nth_append)
    moreover have "?pc + 1 + (length allowed - i) = length body + length allowed + 1" using i by simp
    ultimately show ?thesis
      using True at_i len jt split by (simp add: bpf_jeq bpf_ret prog)
  next
    case False
    then have "bpf_run prog nr arch ?pc nr = bpf_run prog nr arch (length body + Suc i) nr"
      using at_i len by (simp add: bpf_jeq)
    then show ?thesis using Suc.hyps(1) [of "Suc i"] Suc.hyps(2) False split i by simp
  qed
qed

lemma filter_for_whitelist:
  assumes "length allowed \<le> 255"
  shows "bpf_run (filter_for audit_arch allowed) nr arch 0 0 =
    Some (if (audit_arch = 0 \<or> arch = audit_arch) \<and> nr \<in> set allowed
          then SECCOMP_RET_ALLOW else SECCOMP_RET_KILL_PROCESS)"
proof -
  let ?p = "filter_for audit_arch allowed"
  note code = filter_for_code [OF assms, of audit_arch]
  have checks: "bpf_run ?p nr arch (length (filter_body audit_arch)) nr =
      Some (if nr \<in> set allowed then SECCOMP_RET_ALLOW else SECCOMP_RET_KILL_PROCESS)"
    using bpf_checks [OF code assms, of 0 nr arch] by simp
  show ?thesis
  proof (cases "audit_arch = 0")
    case True
    have "?p ! 0 = \<lparr>bf_code = BPF_LD_W_ABS, bf_jt = 0, bf_jf = 0, bf_k = SECCOMP_DATA_NR_OFF\<rparr>"
      "0 < length ?p"
      unfolding code filter_body_def using True by simp_all
    then show ?thesis using checks True by (simp add: bpf_ld filter_body_def)
  next
    case False
    then have i: "?p ! 0 = \<lparr>bf_code = BPF_LD_W_ABS, bf_jt = 0, bf_jf = 0, bf_k = SECCOMP_DATA_ARCH_OFF\<rparr>"
      "?p ! 1 = \<lparr>bf_code = BPF_JMP_JEQ_K, bf_jt = 1, bf_jf = 0, bf_k = audit_arch\<rparr>"
      "?p ! 2 = \<lparr>bf_code = BPF_RET_K, bf_jt = 0, bf_jf = 0, bf_k = SECCOMP_RET_KILL_PROCESS\<rparr>"
      "?p ! 3 = \<lparr>bf_code = BPF_LD_W_ABS, bf_jt = 0, bf_jf = 0, bf_k = SECCOMP_DATA_NR_OFF\<rparr>"
      and len: "3 < length ?p" and body: "length (filter_body audit_arch) = 4"
      by (simp_all add: code filter_body_def)
    have three: "bpf_run ?p nr arch 3 arch = bpf_run ?p nr arch 4 nr"
      using i(4) len by (simp add: bpf_ld)
    have two: "bpf_run ?p nr arch 2 arch = Some SECCOMP_RET_KILL_PROCESS"
      using i(3) len by (simp add: bpf_ret)
    have one: "bpf_run ?p nr arch 1 arch = bpf_run ?p nr arch (if arch = audit_arch then 3 else 2) arch"
      using i(2) len by (simp add: bpf_jeq numeral_3_eq_3 numeral_2_eq_2)
    have "bpf_run ?p nr arch 0 0 = bpf_run ?p nr arch 1 arch"
      using i(1) less_trans [OF _ len, of 0] bpf_ld [of 0 ?p nr arch 0]
      by (simp add: SECCOMP_DATA_ARCH_OFF_def SECCOMP_DATA_NR_OFF_def)
    moreover have "bpf_run ?p nr arch 1 arch =
        Some (if arch = audit_arch \<and> nr \<in> set allowed
              then SECCOMP_RET_ALLOW else SECCOMP_RET_KILL_PROCESS)"
      using checks unfolding one body using two three by (cases "arch = audit_arch") simp_all
    ultimately show ?thesis using False by simp
  qed
qed

section \<open>Properties\<close>

text \<open>
  C18: The filter the code builds lets a system call through exactly if its number is on the
  list and, where the architecture is known, it is a call of that architecture; every other
  call kills the process. The run always ends with one of the two verdicts.
\<close>

theorem filter_is_whitelist:
  "bpf_run (build_filter audit_arch sys_nr) nr arch 0 0 =
    Some (if (audit_arch = 0 \<or> arch = audit_arch) \<and> nr \<in> sys_nr ` set ALLOWED_SYSCALLS
          then SECCOMP_RET_ALLOW else SECCOMP_RET_KILL_PROCESS)"
  using filter_for_whitelist [of "map sys_nr ALLOWED_SYSCALLS" audit_arch nr arch]
  by (simp add: build_filter_def ALLOWED_SYSCALLS_def)

end
