(* ===== verification/Daemon_Lock.thy ===== *)
theory Daemon_Lock
  imports Prelude
begin

text \<open>
  \<^verbatim>\<open>DaemonLock\<close> of \<^verbatim>\<open>src/common.rs\<close>: one daemon at a time by binding a socket at a path, as the
  steps of several processes between which others may run. A process that finds the path in use
  connects to it, and when that fails takes the socket for a left-over, removes the file and binds
  again.
\<close>

section \<open>The steps of acquire and drop\<close>

text \<open>
  Where a process is: before its first bind; after it found the path in use; after its connect
  failed; after it removed the file; in a bind whose socket has the path but does not listen yet (a
  bind of the standard library is the system calls bind and listen); with the lock, on a socket;
  refused; in \<^verbatim>\<open>drop\<close> after the removal of the file and before the socket is closed; gone.
\<close>

datatype lock_pc =
  Trying | InUse | Stale | Removed | Bound nat | Holds nat | Refused | Dropping nat | Gone

text \<open>\<open>lk_file\<close> is the socket the path names, \<open>lk_live\<close> the sockets somebody listens on.\<close>

record lock_state =
  lk_file :: "nat option"
  lk_live :: "nat set"
  lk_next :: nat
  lk_pc :: "nat \<Rightarrow> lock_pc"

definition set_pc :: "nat \<Rightarrow> lock_pc \<Rightarrow> lock_state \<Rightarrow> lock_state" where
  "set_pc i pc s = s\<lparr>lk_pc := (lk_pc s)(i := pc)\<rparr>"

definition bind_socket :: "nat \<Rightarrow> lock_state \<Rightarrow> lock_state" where
  "bind_socket i s =
     set_pc i (Bound (lk_next s)) (s\<lparr>lk_file := Some (lk_next s), lk_next := lk_next s + 1\<rparr>)"

definition listen_socket :: "nat \<Rightarrow> nat \<Rightarrow> lock_state \<Rightarrow> lock_state" where
  "listen_socket i k s = set_pc i (Holds k) (s\<lparr>lk_live := insert k (lk_live s)\<rparr>)"

definition answers :: "lock_state \<Rightarrow> bool" where
  "answers s = (case lk_file s of None \<Rightarrow> False | Some k \<Rightarrow> k \<in> lk_live s)"

text \<open>
  The parameter says whether the first bind waits until nobody else is between its first bind and
  the end of its acquire; the code does not wait. The removals ignore a failure.
\<close>

definition waiting :: "lock_state \<Rightarrow> nat \<Rightarrow> bool" where
  "waiting s j \<longleftrightarrow> lk_pc s j \<in> {InUse, Stale, Removed} \<or> (\<exists>k. lk_pc s j = Bound k)"

inductive lock_step :: "bool \<Rightarrow> lock_state \<Rightarrow> lock_state \<Rightarrow> bool" for serial where
  bind_free: "lk_pc s i = Trying \<Longrightarrow> lk_file s = None \<Longrightarrow> (serial \<Longrightarrow> \<forall>j. \<not> waiting s j) \<Longrightarrow>
     lock_step serial s (bind_socket i s)"
| bind_used: "lk_pc s i = Trying \<Longrightarrow> lk_file s \<noteq> None \<Longrightarrow> (serial \<Longrightarrow> \<forall>j. \<not> waiting s j) \<Longrightarrow>
     lock_step serial s (set_pc i InUse s)"
| connected: "lk_pc s i = InUse \<Longrightarrow> answers s \<Longrightarrow> lock_step serial s (set_pc i Refused s)"
| no_answer: "lk_pc s i = InUse \<Longrightarrow> \<not> answers s \<Longrightarrow> lock_step serial s (set_pc i Stale s)"
| remove_stale: "lk_pc s i = Stale \<Longrightarrow> lock_step serial s (set_pc i Removed (s\<lparr>lk_file := None\<rparr>))"
| not_removed: "lk_pc s i = Stale \<Longrightarrow> lock_step serial s (set_pc i Removed s)"
| rebind_free: "lk_pc s i = Removed \<Longrightarrow> lk_file s = None \<Longrightarrow> lock_step serial s (bind_socket i s)"
| rebind_used: "lk_pc s i = Removed \<Longrightarrow> lk_file s \<noteq> None \<Longrightarrow> lock_step serial s (set_pc i Refused s)"
| listens: "lk_pc s i = Bound k \<Longrightarrow> lock_step serial s (listen_socket i k s)"
| crash: "lk_pc s i = Holds k \<Longrightarrow> lock_step serial s (set_pc i Gone (s\<lparr>lk_live := lk_live s - {k}\<rparr>))"
| unlink: "lk_pc s i = Holds k \<Longrightarrow> lock_step serial s (set_pc i (Dropping k) (s\<lparr>lk_file := None\<rparr>))"
| crash_before: "waiting s i \<Longrightarrow> lock_step serial s (set_pc i Gone s)"
| not_unlinked: "lk_pc s i = Holds k \<Longrightarrow> lock_step serial s (set_pc i (Dropping k) s)"
| close_socket: "lk_pc s i = Dropping k \<Longrightarrow>
     lock_step serial s (set_pc i Gone (s\<lparr>lk_live := lk_live s - {k}\<rparr>))"

definition lock_start :: lock_state where
  "lock_start = \<lparr>lk_file = None, lk_live = {}, lk_next = 0, lk_pc = \<lambda>_. Trying\<rparr>"

inductive lock_reachable :: "bool \<Rightarrow> lock_state \<Rightarrow> bool" for serial where
  start: "lock_reachable serial lock_start"
| step: "lock_reachable serial s \<Longrightarrow> lock_step serial s t \<Longrightarrow> lock_reachable serial t"

section \<open>Acquires that do not overlap\<close>

text \<open>
  Who holds the lock listens on the socket the path names; sockets have one owner; at most one
  process is in the middle, and when it has given up on the path, or has it, nobody holds the lock.
\<close>

definition owns :: "lock_state \<Rightarrow> nat \<Rightarrow> nat \<Rightarrow> bool" where
  "owns s i k \<longleftrightarrow> lk_pc s i \<in> {Bound k, Holds k, Dropping k}"

definition lock_inv :: "lock_state \<Rightarrow> bool" where
  "lock_inv s \<longleftrightarrow>
     (\<forall>i k. lk_pc s i = Holds k \<longrightarrow> lk_file s = Some k \<and> k \<in> lk_live s) \<and>
     (\<forall>i k. lk_pc s i = Bound k \<longrightarrow> lk_file s = Some k) \<and>
     (\<forall>i k. owns s i k \<longrightarrow> k < lk_next s) \<and>
     (\<forall>k. lk_file s = Some k \<longrightarrow> k < lk_next s) \<and>
     (\<forall>i j k. owns s i k \<and> owns s j k \<longrightarrow> i = j) \<and>
     (\<forall>i j. waiting s i \<and> waiting s j \<longrightarrow> i = j) \<and>
     (\<forall>i. waiting s i \<and> lk_pc s i \<noteq> InUse \<longrightarrow> (\<forall>j k. lk_pc s j \<noteq> Holds k))"

lemmas lock_simps =
  lock_inv_def waiting_def owns_def set_pc_def bind_socket_def listen_socket_def answers_def

lemma lock_inv_clauses:
  assumes "lock_inv s"
  shows "lk_pc s i = Holds k \<Longrightarrow> lk_file s = Some k \<and> k \<in> lk_live s"
    and "lk_pc s i = Bound k \<Longrightarrow> lk_file s = Some k"
    and "owns s i k \<Longrightarrow> k < lk_next s"
    and "lk_file s = Some k \<Longrightarrow> k < lk_next s"
    and "owns s i k \<Longrightarrow> owns s j k \<Longrightarrow> j = i"
    and "waiting s i \<Longrightarrow> waiting s j \<Longrightarrow> j = i"
    and "waiting s i \<Longrightarrow> lk_pc s i \<noteq> InUse \<Longrightarrow> lk_pc s j \<noteq> Holds k"
  using assms unfolding lock_inv_def by blast+

lemma lock_inv_one:
  assumes "lock_inv s" and "lk_pc s i = Holds k" and "lk_pc s j = Holds l"
  shows "j = i \<and> l = k"
proof -
  have "lk_file s = Some k" "lk_file s = Some l"
    using assms unfolding lock_inv_def by blast+
  then have "l = k" by simp
  with assms show ?thesis unfolding lock_inv_def owns_def by blast
qed

text \<open>A step changes one process; these are the clauses of the invariant for the others and for it.\<close>

lemma lock_inv_update:
  assumes "lock_inv s" and "lk_pc t = (lk_pc s)(i := pc)" and "lk_next s \<le> lk_next t"
    and "\<And>j k. j \<noteq> i \<Longrightarrow> lk_pc s j = Holds k \<Longrightarrow> lk_file t = Some k \<and> k \<in> lk_live t"
    and "\<And>j k. j \<noteq> i \<Longrightarrow> lk_pc s j = Bound k \<Longrightarrow> lk_file t = Some k"
    and "\<And>k. pc = Holds k \<Longrightarrow> lk_file t = Some k \<and> k \<in> lk_live t \<and> (\<forall>j. \<not> waiting s j \<or> j = i)"
    and "\<And>k. pc = Bound k \<Longrightarrow> lk_file t = Some k"
    and "\<And>k. pc \<in> {Bound k, Holds k, Dropping k} \<Longrightarrow> k < lk_next t \<and> (\<forall>j. owns s j k \<longrightarrow> j = i)"
    and "\<And>k. lk_file t = Some k \<Longrightarrow> k < lk_next t"
    and "pc \<in> {InUse, Stale, Removed} \<or> (\<exists>k. pc = Bound k) \<Longrightarrow> \<forall>j. waiting s j \<longrightarrow> j = i"
    and "pc \<in> {Stale, Removed} \<or> (\<exists>k. pc = Bound k) \<Longrightarrow> \<forall>j k. j \<noteq> i \<longrightarrow> lk_pc s j \<noteq> Holds k"
  shows "lock_inv t"
proof -
  have pcs: "lk_pc t j = (if j = i then pc else lk_pc s j)" for j using assms(2) by simp
  have w: "waiting t j \<longleftrightarrow> (if j = i then pc \<in> {InUse, Stale, Removed} \<or> (\<exists>k. pc = Bound k) else waiting s j)" for j
    by (simp add: waiting_def pcs)
  have o: "owns t j k \<longleftrightarrow> (if j = i then pc \<in> {Bound k, Holds k, Dropping k} else owns s j k)" for j k
    by (simp add: owns_def pcs)
  note inv = lock_inv_clauses [OF assms(1)]
  show ?thesis unfolding lock_inv_def
  proof (intro conjI)
    show "\<forall>j k. lk_pc t j = Holds k \<longrightarrow> lk_file t = Some k \<and> k \<in> lk_live t"
      using assms(4,6) by (simp add: pcs)
    show "\<forall>j k. lk_pc t j = Bound k \<longrightarrow> lk_file t = Some k" using assms(5,7) by (simp add: pcs)
    show "\<forall>j k. owns t j k \<longrightarrow> k < lk_next t"
    proof (intro allI impI)
      fix j k assume "owns t j k"
      then show "k < lk_next t"
        using assms(3,8) inv(3) [of j k] by (cases "j = i") (auto simp: o)
    qed
    show "\<forall>k. lk_file t = Some k \<longrightarrow> k < lk_next t" using assms(9) by blast
    show "\<forall>j l k. owns t j k \<and> owns t l k \<longrightarrow> j = l"
    proof (intro allI impI)
      fix j l k assume both: "owns t j k \<and> owns t l k"
      have new: "m = i" if "owns t i k" "owns t m k" for m
      proof (rule ccontr)
        assume "m \<noteq> i"
        with that have "pc \<in> {Bound k, Holds k, Dropping k}" "owns s m k" by (simp_all add: o)
        with assms(8) [of k] \<open>m \<noteq> i\<close> show False by blast
      qed
      show "j = l"
      proof (cases "j = i \<or> l = i")
        case True
        with both new [of j] new [of l] show ?thesis by metis
      next
        case False
        with both inv(5) [of l k j] show ?thesis by (simp add: o)
      qed
    qed
    show "\<forall>j l. waiting t j \<and> waiting t l \<longrightarrow> j = l"
    proof (intro allI impI)
      fix j l assume both: "waiting t j \<and> waiting t l"
      have new: "m = i" if "waiting t i" "waiting t m" for m
      proof (rule ccontr)
        assume "m \<noteq> i"
        with that have "pc \<in> {InUse, Stale, Removed} \<or> (\<exists>k. pc = Bound k)" "waiting s m" by (simp_all add: w)
        with assms(10) \<open>m \<noteq> i\<close> show False by blast
      qed
      show "j = l"
      proof (cases "j = i \<or> l = i")
        case True
        with both new [of j] new [of l] show ?thesis by metis
      next
        case False
        with both inv(6) [of l j] show ?thesis by (simp add: w)
      qed
    qed
    show "\<forall>j. waiting t j \<and> lk_pc t j \<noteq> InUse \<longrightarrow> (\<forall>l k. lk_pc t l \<noteq> Holds k)"
    proof (intro allI impI)
      fix j l k assume j: "waiting t j \<and> lk_pc t j \<noteq> InUse"
      show "lk_pc t l \<noteq> Holds k"
      proof (cases "j = i")
        case True
        with j assms(11) show ?thesis by (cases "l = i") (auto simp: w pcs)
      next
        case False
        with j have "waiting s j" "lk_pc s j \<noteq> InUse" by (simp_all add: w pcs)
        with inv(7) [of j l k] False assms(6) [of k] show ?thesis by (cases "l = i") (auto simp: pcs)
      qed
    qed
  qed
qed

lemma lock_inv_step: "lock_step True s t \<Longrightarrow> lock_inv s \<Longrightarrow> lock_inv t"
proof (induction rule: lock_step.induct)
  case (bind_free s i)
  note inv = lock_inv_clauses [OF bind_free.prems]
  have "\<not> owns s j (lk_next s)" for j using inv(3) by blast
  moreover have "lk_pc s j \<noteq> Holds k" for j k using inv(1) [of j k] bind_free(2) by auto
  moreover have "\<not> waiting s j" for j using bind_free(3) by simp
  moreover have "lk_pc s j \<noteq> Bound k" for j k using inv(2) [of j k] bind_free(2) by auto
  ultimately show ?case
    by - (rule lock_inv_update [of s _ i "Bound (lk_next s)"], simp_all add: bind_socket_def set_pc_def bind_free.prems)
next
  case (bind_used s i)
  note inv = lock_inv_clauses [OF bind_used.prems]
  have "\<not> waiting s j" for j using bind_used(3) by simp
  then show ?case
    using inv(1,2,4) by - (rule lock_inv_update [of s _ i InUse], simp_all add: set_pc_def bind_used.prems)
next
  case (connected s i)
  note inv = lock_inv_clauses [OF connected.prems]
  show ?case
    using inv(1,2,4) by - (rule lock_inv_update [of s _ i Refused], simp_all add: set_pc_def connected.prems)
next
  case (no_answer s i)
  note inv = lock_inv_clauses [OF no_answer.prems]
  have "waiting s i" using no_answer by (simp add: waiting_def)
  then have w: "j = i" if "waiting s j" for j using inv(6) that by blast
  have "lk_pc s j \<noteq> Holds k" for j k
    using inv(1) [of j k] no_answer(2) by (auto simp: answers_def)
  with w show ?case
    using inv(1,2,4) by - (rule lock_inv_update [of s _ i Stale], simp_all add: set_pc_def no_answer.prems)
next
  case (remove_stale s i)
  note inv = lock_inv_clauses [OF remove_stale.prems]
  have wi: "waiting s i" using remove_stale by (simp add: waiting_def)
  then have w: "j = i" if "waiting s j" for j using inv(6) that by blast
  have b: "lk_pc s j \<noteq> Bound k" if "j \<noteq> i" for j k using w [of j] that by (auto simp: waiting_def)
  have "lk_pc s j \<noteq> Holds k" for j k using inv(7) [OF wi] remove_stale(1) by simp
  with w b show ?case
    by - (rule lock_inv_update [of s _ i Removed], simp_all add: set_pc_def remove_stale.prems)
next
  case (not_removed s i)
  note inv = lock_inv_clauses [OF not_removed.prems]
  have wi: "waiting s i" using not_removed by (simp add: waiting_def)
  then have w: "j = i" if "waiting s j" for j using inv(6) that by blast
  have "lk_pc s j \<noteq> Holds k" for j k using inv(7) [OF wi] not_removed(1) by simp
  with w show ?case
    using inv(1,2,4) by - (rule lock_inv_update [of s _ i Removed], simp_all add: set_pc_def not_removed.prems)
next
  case (rebind_free s i)
  note inv = lock_inv_clauses [OF rebind_free.prems]
  have wi: "waiting s i" using rebind_free by (simp add: waiting_def)
  then have w: "j = i" if "waiting s j" for j using inv(6) that by blast
  have "\<not> owns s j (lk_next s)" for j using inv(3) by blast
  moreover have "lk_pc s j \<noteq> Holds k" for j k using inv(1) [of j k] rebind_free(2) by auto
  moreover have "lk_pc s j \<noteq> Bound k" for j k using inv(2) [of j k] rebind_free(2) by auto
  ultimately show ?case
    using w by - (rule lock_inv_update [of s _ i "Bound (lk_next s)"], simp_all add: bind_socket_def set_pc_def rebind_free.prems)
next
  case (rebind_used s i)
  note inv = lock_inv_clauses [OF rebind_used.prems]
  show ?case
    using inv(1,2,4) by - (rule lock_inv_update [of s _ i Refused], simp_all add: set_pc_def rebind_used.prems)
next
  case (listens s i k)
  note inv = lock_inv_clauses [OF listens.prems]
  have wi: "waiting s i" and o: "owns s i k" using listens by (simp_all add: waiting_def owns_def)
  then have w: "j = i" if "waiting s j" for j using inv(6) that by blast
  have "lk_pc s j \<noteq> Holds l" for j l using inv(7) [OF wi] listens(1) by simp
  moreover have "j = i" if "owns s j k" for j using inv(5) [OF o that] .
  ultimately show ?case
    using w inv(2,4) inv(2) [OF listens(1)] inv(3) [OF o]
    by - (rule lock_inv_update [of s _ i "Holds k"], (auto simp: listen_socket_def set_pc_def listens.prems)+)
next
  case (crash s i k)
  note inv = lock_inv_clauses [OF crash.prems]
  have "lk_pc s j \<noteq> Holds l" if "j \<noteq> i" for j l
    using that lock_inv_one [OF crash.prems crash(1)] by blast
  then show ?case
    using inv(2,4) by - (rule lock_inv_update [of s _ i Gone], simp_all add: set_pc_def crash.prems)
next
  case (unlink s i k)
  note inv = lock_inv_clauses [OF unlink.prems]
  have h: "lk_pc s j \<noteq> Holds l" if "j \<noteq> i" for j l
    using that lock_inv_one [OF unlink.prems unlink(1)] by blast
  have b: "lk_pc s j \<noteq> Bound l" for j l
    using inv(7) [of j i k] unlink(1) by (auto simp: waiting_def)
  have o: "owns s i k" using unlink(1) by (simp add: owns_def)
  have "j = i" if "owns s j k" for j using inv(5) [OF o that] .
  with h b show ?case
    using inv(3) [OF o] by - (rule lock_inv_update [of s _ i "Dropping k"], (auto simp: set_pc_def unlink.prems)+)
next
  case (crash_before s i)
  note inv = lock_inv_clauses [OF crash_before.prems]
  show ?case
    using inv(1,2,4) by - (rule lock_inv_update [of s _ i Gone], simp_all add: set_pc_def crash_before.prems)
next
  case (not_unlinked s i k)
  note inv = lock_inv_clauses [OF not_unlinked.prems]
  have o: "owns s i k" using not_unlinked(1) by (simp add: owns_def)
  have "j = i" if "owns s j k" for j using inv(5) [OF o that] .
  then show ?case
    using inv(1,2,4) inv(3) [OF o]
    by - (rule lock_inv_update [of s _ i "Dropping k"], (auto simp: set_pc_def not_unlinked.prems)+)
next
  case (close_socket s i k)
  note inv = lock_inv_clauses [OF close_socket.prems]
  have o: "owns s i k" using close_socket(1) by (simp add: owns_def)
  have "lk_pc s j \<noteq> Holds k" if "j \<noteq> i" for j
    using inv(5) [OF o, of j] that by (auto simp: owns_def)
  then show ?case
    using inv(1,2,4) by - (rule lock_inv_update [of s _ i Gone], (fastforce simp: set_pc_def close_socket.prems)+)
qed

lemma lock_inv_start: "lock_inv lock_start"
  by (simp add: lock_simps lock_start_def)

lemma lock_inv_reachable: "lock_reachable True s \<Longrightarrow> lock_inv s"
  by (induction rule: lock_reachable.induct) (auto intro: lock_inv_start lock_inv_step)

text \<open>
  C13: As long as no process makes its first bind while another is between its first bind and the
  end of its acquire, at every moment at most one process holds the lock, whatever the
  order of starts, refusals, stale sockets taken over, crashes and exits.
\<close>

theorem one_daemon_when_serial:
  assumes "lock_reachable True s" and "lk_pc s i = Holds k" and "lk_pc s j = Holds l"
  shows "i = j \<and> k = l \<and> lk_file s = Some k \<and> answers s"
proof -
  have inv: "lock_inv s" by (rule lock_inv_reachable[OF assms(1)])
  then have "lk_file s = Some k" "k \<in> lk_live s"
    using assms(2) unfolding lock_inv_def by blast+
  with lock_inv_one[OF inv assms(2,3)] show ?thesis by (simp add: answers_def)
qed

section \<open>Acquires that overlap\<close>

text \<open>A crash is the one step that takes a process out of its acquire or out of its lock at once.\<close>

definition crashed :: "lock_state \<Rightarrow> lock_state \<Rightarrow> bool" where
  "crashed s t \<longleftrightarrow> (\<exists>i. (waiting s i \<or> (\<exists>k. lk_pc s i = Holds k)) \<and> lk_pc t i = Gone)"

inductive reachable_without_crash :: "lock_state \<Rightarrow> bool" where
  clean: "reachable_without_crash lock_start"
| orderly: "reachable_without_crash s \<Longrightarrow> lock_step False s t \<Longrightarrow> \<not> crashed s t \<Longrightarrow> reachable_without_crash t"

lemma reachable_without_crash_reachable: "reachable_without_crash s \<Longrightarrow> lock_reachable False s"
  by (induction rule: reachable_without_crash.induct) (auto intro: lock_reachable.intros)

lemma crash_is_crashed: "lk_pc s i = Holds k \<Longrightarrow> crashed s (set_pc i Gone (s\<lparr>lk_live := lk_live s - {k}\<rparr>))"
  "waiting s i \<Longrightarrow> crashed s (set_pc i Gone s)"
  by (auto simp: crashed_def set_pc_def)

text \<open>
  Two processes: the second finds the path in use before the first listens on it, takes it for a
  left-over, and removes it.
\<close>

definition race_two :: lock_state where
  "race_two = \<lparr>lk_file = Some 1, lk_live = {0, 1}, lk_next = 2,
     lk_pc = (\<lambda>_. Trying)(0 := Holds 0, 1 := Holds 1)\<rparr>"

text \<open>
  Three processes: the first holds the lock and exits while the second finds the path in use; the
  second's connect fails, the third binds the free path and listens, and the second removes that
  socket.
\<close>

definition race_end :: lock_state where
  "race_end = \<lparr>lk_file = Some 2, lk_live = {1, 2}, lk_next = 3,
     lk_pc = (\<lambda>_. Trying)(0 := Gone, 1 := Holds 2, 2 := Holds 1)\<rparr>"

definition race_mid :: lock_state where
  "race_mid = \<lparr>lk_file = None, lk_live = {}, lk_next = 1, lk_pc = (\<lambda>_. Trying)(0 := Gone, 1 := Stale)\<rparr>"

lemmas race_simps =
  lock_simps crashed_def lock_start_def race_mid_def race_end_def race_two_def fun_eq_iff

lemma race_two_reachable: "reachable_without_crash race_two"
proof -
  let ?a = "bind_socket 0 lock_start"
  let ?b = "set_pc 1 InUse ?a"
  let ?c = "set_pc 1 Stale ?b"
  let ?d = "listen_socket 0 0 ?c"
  let ?e = "set_pc 1 Removed (?d\<lparr>lk_file := None\<rparr>)"
  let ?f = "bind_socket 1 ?e"
  have "reachable_without_crash ?a"
    by (rule orderly[OF clean bind_free]) (auto simp: race_simps)
  then have "reachable_without_crash ?b"
    by (rule orderly[OF _ bind_used]) (auto simp: race_simps)
  then have "reachable_without_crash ?c"
    by (rule orderly[OF _ no_answer]) (auto simp: race_simps)
  then have "reachable_without_crash ?d"
    by (rule orderly[OF _ listens]) (auto simp: race_simps)
  then have "reachable_without_crash ?e"
    by (rule orderly[OF _ remove_stale]) (auto simp: race_simps)
  then have "reachable_without_crash ?f"
    by (rule orderly[OF _ rebind_free]) (auto simp: race_simps)
  then have "reachable_without_crash (listen_socket 1 1 ?f)"
    by (rule orderly[OF _ listens]) (auto simp: race_simps)
  moreover have "listen_socket 1 1 ?f = race_two"
    by (auto simp: race_simps)
  ultimately show ?thesis by simp
qed

definition first_holds :: lock_state where
  "first_holds = listen_socket 0 0 (bind_socket 0 lock_start)"

lemmas first_holds_simps = race_simps first_holds_def

definition second_waits :: lock_state where
  "second_waits = set_pc 0 (Dropping 0) ((set_pc 1 InUse first_holds)\<lparr>lk_file := None\<rparr>)"

lemma race_mid_eq: "set_pc 1 Stale (set_pc 0 Gone (second_waits\<lparr>lk_live := lk_live second_waits - {0}\<rparr>)) = race_mid"
  by (auto simp: first_holds_simps second_waits_def)

lemma race_first_half: "lock_reachable serial race_mid"
proof -
  have "lock_reachable serial (bind_socket 0 lock_start)"
    by (rule step[OF start bind_free]) (auto simp: race_simps)
  then have "lock_reachable serial first_holds" unfolding first_holds_def
    by (rule step[OF _ listens]) (auto simp: race_simps)
  then have "lock_reachable serial (set_pc 1 InUse first_holds)"
    by (rule step[OF _ bind_used]) (auto simp: first_holds_simps)
  then have "lock_reachable serial second_waits" unfolding second_waits_def
    by (rule step[OF _ unlink]) (auto simp: first_holds_simps)
  then have "lock_reachable serial (set_pc 0 Gone (second_waits\<lparr>lk_live := lk_live second_waits - {0}\<rparr>))"
    by (rule step[OF _ close_socket]) (auto simp: first_holds_simps second_waits_def)
  then show ?thesis unfolding race_mid_eq[symmetric]
    by (rule step[OF _ no_answer]) (auto simp: first_holds_simps second_waits_def)
qed

lemma race_first_half_orderly: "reachable_without_crash race_mid"
proof -
  have "reachable_without_crash (bind_socket 0 lock_start)"
    by (rule orderly[OF clean bind_free]) (auto simp: race_simps)
  then have "reachable_without_crash first_holds" unfolding first_holds_def
    by (rule orderly[OF _ listens]) (auto simp: race_simps)
  then have "reachable_without_crash (set_pc 1 InUse first_holds)"
    by (rule orderly[OF _ bind_used]) (auto simp: first_holds_simps)
  then have "reachable_without_crash second_waits" unfolding second_waits_def
    by (rule orderly[OF _ unlink]) (auto simp: first_holds_simps)
  then have "reachable_without_crash (set_pc 0 Gone (second_waits\<lparr>lk_live := lk_live second_waits - {0}\<rparr>))"
    by (rule orderly[OF _ close_socket]) (auto simp: first_holds_simps second_waits_def)
  then show ?thesis unfolding race_mid_eq[symmetric]
    by (rule orderly[OF _ no_answer]) (auto simp: first_holds_simps second_waits_def)
qed

lemma race_end_reachable: "reachable_without_crash race_end"
proof -
  let ?a = "bind_socket 2 race_mid"
  let ?b = "listen_socket 2 1 ?a"
  let ?c = "set_pc 1 Removed (?b\<lparr>lk_file := None\<rparr>)"
  have "reachable_without_crash ?a"
    by (rule orderly[OF race_first_half_orderly bind_free]) (auto simp: race_simps)
  then have "reachable_without_crash ?b"
    by (rule orderly[OF _ listens]) (auto simp: race_simps)
  then have "reachable_without_crash ?c"
    by (rule orderly[OF _ remove_stale]) (auto simp: race_simps)
  then have "reachable_without_crash (bind_socket 1 ?c)"
    by (rule orderly[OF _ rebind_free]) (auto simp: race_simps)
  then have "reachable_without_crash (listen_socket 1 2 (bind_socket 1 ?c))"
    by (rule orderly[OF _ listens]) (auto simp: race_simps)
  moreover have "listen_socket 1 2 (bind_socket 1 ?c) = race_end"
    by (auto simp: race_simps)
  ultimately show ?thesis by simp
qed

text \<open>
  C12: The check for a left-over socket and its removal are two steps, so two daemons can hold the
  lock at once, each listening on its own socket. From a clean start, by steps none of which is a
  crash, this is reached in two ways: with no other process than the two, when one tests the socket
  before the other listens on it; and when an earlier daemon exits while the two start.
\<close>

theorem two_daemons_reachable:
  "(\<exists>s. reachable_without_crash s \<and> lk_pc s 0 = Holds 0 \<and> lk_pc s 1 = Holds 1 \<and> lk_live s = {0, 1} \<and>
      (\<forall>i. 2 \<le> i \<longrightarrow> lk_pc s i = Trying)) \<and>
   (\<exists>s. reachable_without_crash s \<and> lock_reachable False s \<and>
      lk_pc s 1 = Holds 2 \<and> lk_pc s 2 = Holds 1 \<and> lk_live s = {1, 2} \<and> lk_pc s 0 = Gone)"
proof (intro conjI)
  show "\<exists>s. reachable_without_crash s \<and> lk_pc s 0 = Holds 0 \<and> lk_pc s 1 = Holds 1 \<and> lk_live s = {0, 1} \<and>
      (\<forall>i. 2 \<le> i \<longrightarrow> lk_pc s i = Trying)"
    using race_two_reachable by (auto simp: race_two_def intro!: exI[of _ race_two])
  show "\<exists>s. reachable_without_crash s \<and> lock_reachable False s \<and>
      lk_pc s 1 = Holds 2 \<and> lk_pc s 2 = Holds 1 \<and> lk_live s = {1, 2} \<and> lk_pc s 0 = Gone"
    using race_end_reachable reachable_without_crash_reachable [OF race_end_reachable]
    by (auto simp: race_end_def intro!: exI[of _ race_end])
qed

theorem two_daemons_reachable_witness:
  "\<exists>s. reachable_without_crash s \<and> lk_pc s 0 = Holds 0 \<and> lk_pc s 1 = Holds 1"
  using two_daemons_reachable by blast

text \<open>The hypotheses of the first property hold where a left-over socket was taken over.\<close>

definition taken_over :: lock_state where
  "taken_over = listen_socket 1 1 (bind_socket 1 (set_pc 1 Removed (race_mid\<lparr>lk_file := None\<rparr>)))"

lemma taken_over_reachable: "lock_reachable True taken_over"
proof -
  have "lock_reachable True (set_pc 1 Removed (race_mid\<lparr>lk_file := None\<rparr>))"
    by (rule step[OF race_first_half remove_stale]) (auto simp: race_simps)
  then have "lock_reachable True (bind_socket 1 (set_pc 1 Removed (race_mid\<lparr>lk_file := None\<rparr>)))"
    by (rule step[OF _ rebind_free]) (auto simp: race_simps)
  then show ?thesis unfolding taken_over_def
    by (rule step[OF _ listens]) (auto simp: race_simps)
qed

theorem one_daemon_when_serial_witness:
  "lk_file taken_over = Some 1 \<and> answers taken_over"
  using one_daemon_when_serial[OF taken_over_reachable, of 1 1 1 1]
  by (simp add: taken_over_def listen_socket_def set_pc_def)

end
