(* ===== verification/Factory_Spawn.thy ===== *)
theory Factory_Spawn
  imports Factory
begin

text \<open>
  How the privileged child of \<^verbatim>\<open>src/common/monitor/factory.rs\<close> comes up and goes: \<^verbatim>\<open>spawn\<close>, the
  descriptors the forked child closes before it serves, the hand-shake with the parent, the probe
  for the privilege, and \<^verbatim>\<open>drop\<close>. A process' descriptors are a table; which system calls succeed
  is a parameter.
\<close>

section \<open>Descriptor tables\<close>

text \<open>The two ends of the pair, a fanotify group, and what else the daemon has open.\<close>

datatype obj = ParentEnd | ChildEnd | Group | Held nat

type_synonym fd_table = "fd \<rightharpoonup> obj"

definition FACTORY_SOCK_FD :: fd where "FACTORY_SOCK_FD = 3"
definition FALLBACK_FD_LIMIT :: fd where "FALLBACK_FD_LIMIT = 4096"

definition close_fd :: "fd \<Rightarrow> fd_table \<Rightarrow> fd_table" where
  "close_fd fd T = T(fd := None)"

text \<open>
  What the system answers: the pair, \<^verbatim>\<open>fork\<close>, \<^verbatim>\<open>dup2\<close>, \<^verbatim>\<open>close_range\<close>, whether the parent is
  still there when the child looks, the seccomp filter, and in the parent \<^verbatim>\<open>poll\<close> and \<^verbatim>\<open>recvmsg\<close>.
\<close>

record spawn_env =
  se_pair :: "(fd \<times> fd) option"
  se_fork :: bool
  se_dup2 :: bool
  se_close_range :: bool
  se_parent_alive :: bool
  se_seccomp :: bool
  se_readable :: bool
  se_recv :: bool

definition dup2 :: "spawn_env \<Rightarrow> fd \<Rightarrow> fd \<Rightarrow> fd_table \<Rightarrow> fd_table option" where
  "dup2 e old new T = (if se_dup2 e \<and> T old \<noteq> None then Some (T(new := T old)) else None)"

text \<open>One call when the kernel has it, otherwise a loop up to a fixed limit; always \<^verbatim>\<open>true\<close>.\<close>

definition close_fds_above :: "spawn_env \<Rightarrow> fd \<Rightarrow> fd_table \<Rightarrow> bool \<times> fd_table" where
  "close_fds_above e keep T =
     (if se_close_range e then (True, \<lambda>fd. if fd \<ge> keep + 1 then None else T fd)
      else (True, fold close_fd [keep + 1..FALLBACK_FD_LIMIT - 1] T))"

section \<open>The child before it serves\<close>

text \<open>\<open>Inl\<close> is the status the child exits with, \<open>Inr\<close> the descriptors it goes on with.\<close>

definition move_socket :: "spawn_env \<Rightarrow> fd \<Rightarrow> fd_table \<Rightarrow> fd_table option" where
  "move_socket e fd1 T =
     (if fd1 \<noteq> FACTORY_SOCK_FD then map_option (close_fd fd1) (dup2 e fd1 FACTORY_SOCK_FD T)
      else Some T)"

definition child_start :: "spawn_env \<Rightarrow> fd \<Rightarrow> fd \<Rightarrow> fd_table \<Rightarrow> nat + fd_table" where
  "child_start e fd0 fd1 T =
     (case move_socket e fd1 (close_fd fd0 T) of
        None \<Rightarrow> Inl 102
      | Some T1 \<Rightarrow>
          let (ok, T2) = close_fds_above e FACTORY_SOCK_FD T1 in
          if \<not> ok then Inl 103
          else if \<not> se_parent_alive e then Inl 0
          else Inr T2)"

text \<open>
  The child's whole life: its exit status, and what it does on the socket; \<open>ms\<close> is what the
  parent sends.
\<close>

definition child_life ::
  "spawn_env \<Rightarrow> kernel \<Rightarrow> message list \<Rightarrow> fd \<Rightarrow> fd \<Rightarrow> fd_table \<Rightarrow> nat \<times> action list" where
  "child_life e k ms fd0 fd1 T =
     (case child_start e fd0 fd1 T of
        Inl code \<Rightarrow> (code, [])
      | Inr _ \<Rightarrow>
          (case factory_child_main k (se_seccomp e) ms of
             None \<Rightarrow> (101, [])
           | Some acts \<Rightarrow> (0, acts)))"

section \<open>The parent\<close>

datatype spawn_error = PairFailed | ForkFailed | NotReady
datatype child_action = KillChild | WaitChild

text \<open>The first message: its bytes and how many descriptors came with it; a closed socket has none.\<close>

definition first_message :: "action list \<Rightarrow> u8 list \<times> nat" where
  "first_message acts =
     (case acts of
        SendReady # _ \<Rightarrow> ([READY_BYTE], 0)
      | Reply _ fds # _ \<Rightarrow> ([0], min 1 (length fds))
      | _ \<Rightarrow> ([], 0))"

definition handshake :: "spawn_env \<Rightarrow> action list \<Rightarrow> (u8 list \<times> nat) option" where
  "handshake e acts = (if se_readable e \<and> se_recv e then Some (first_message acts) else None)"

text \<open>The handle or the error, the parent's descriptors afterwards, and what it did to the child.\<close>

definition spawn ::
  "spawn_env \<Rightarrow> kernel \<Rightarrow> message list \<Rightarrow> fd_table \<Rightarrow>
     (spawn_error + factory) \<times> fd_table \<times> child_action list" where
  "spawn e k ms T =
     (case se_pair e of
        None \<Rightarrow> (Inl PairFailed, T, [])
      | Some (fd0, fd1) \<Rightarrow>
          let T1 = T(fd0 \<mapsto> ParentEnd, fd1 \<mapsto> ChildEnd) in
          if \<not> se_fork e then (Inl ForkFailed, close_fd fd1 (close_fd fd0 T1), [])
          else
            let Tp = close_fd fd1 T1;
                acts = snd (child_life e k ms fd0 fd1 T1)
            in if handshake e acts = Some ([READY_BYTE], 0)
               then (Inr \<lparr>fa_alive = True\<rparr>, Tp, [])
               else (Inl NotReady, close_fd fd0 Tp, [KillChild, WaitChild]))"

text \<open>The probe: a group is created and closed at once.\<close>

definition has_privileged_fanotify :: "kernel \<Rightarrow> u32 \<Rightarrow> u32 \<Rightarrow> fd_table \<Rightarrow> bool \<times> fd_table" where
  "has_privileged_fanotify k init_flags unlimited T =
     (case k_init k (init_flags OR unlimited) of
        Inl _ \<Rightarrow> (False, T)
      | Inr fd \<Rightarrow> (True, close_fd fd (T(fd \<mapsto> Group))))"

text \<open>
  \<^verbatim>\<open>drop\<close>: the guard of the mutex goes, the child is killed and reaped; the socket itself is a
  field and is closed after that.
\<close>

datatype drop_step = ReleaseGuard | ChildStep child_action | CloseSocket

definition drop_factory :: "bool \<Rightarrow> int \<Rightarrow> drop_step list" where
  "drop_factory poisoned child =
     (if poisoned then [] else [ReleaseGuard]) @
     (if child > 0 then [ChildStep KillChild, ChildStep WaitChild] else []) @ [CloseSocket]"

section \<open>What the child is left with\<close>

lemma fold_close_fd: "fold close_fd fds T = (\<lambda>fd. if fd \<in> set fds then None else T fd)"
  by (induction fds arbitrary: T) (auto simp: close_fd_def fun_eq_iff)

lemma close_fds_above_eq:
  "close_fds_above e keep T =
     (True, \<lambda>fd. if fd > keep \<and> (se_close_range e \<or> fd < FALLBACK_FD_LIMIT) then None else T fd)"
  by (auto simp: close_fds_above_def fold_close_fd fun_eq_iff)

text \<open>A pair as the system hands it out: two descriptors that were not open.\<close>

definition fresh_pair :: "fd \<Rightarrow> fd \<Rightarrow> fd_table \<Rightarrow> bool" where
  "fresh_pair fd0 fd1 T \<longleftrightarrow> fd0 \<noteq> fd1 \<and> T fd0 = None \<and> T fd1 = None"

lemma child_start_cases:
  assumes "fresh_pair fd0 fd1 T"
  shows "child_start e fd0 fd1 (T(fd0 \<mapsto> ParentEnd, fd1 \<mapsto> ChildEnd)) =
    (if fd1 \<noteq> FACTORY_SOCK_FD \<and> \<not> se_dup2 e then Inl 102
     else if \<not> se_parent_alive e then Inl 0
     else Inr (\<lambda>fd. if fd = 3 then Some ChildEnd
        else if fd > 3 \<and> (se_close_range e \<or> fd < 4096) then None else T fd))"
  using assms
  by (auto simp: child_start_def move_socket_def close_fds_above_eq dup2_def close_fd_def
      fresh_pair_def FACTORY_SOCK_FD_def FALLBACK_FD_LIMIT_def fun_eq_iff)

text \<open>
  C27: When the privileged child starts to serve, its descriptors are exactly these: the socket at
  3, the daemon's descriptors 0, 1 and 2 unchanged, nothing else where close_range works; where it
  does not, everything the daemon held at 4096 and above is still open in the child.
\<close>

theorem child_descriptors:
  assumes "fresh_pair fd0 fd1 T"
    and "child_start e fd0 fd1 (T(fd0 \<mapsto> ParentEnd, fd1 \<mapsto> ChildEnd)) = Inr C"
  shows "C fd =
    (if fd = 3 then Some ChildEnd
     else if fd < 3 then T fd
     else if se_close_range e \<or> fd < 4096 then None
     else T fd)"
  using assms by (auto simp: child_start_cases split: if_splits)

theorem child_descriptors_witness:
  "\<exists>C. child_start \<lparr>se_pair = Some (4, 5), se_fork = True, se_dup2 = True, se_close_range = False,
           se_parent_alive = True, se_seccomp = True, se_readable = True, se_recv = True\<rparr> 4 5
         ([0 \<mapsto> Held 0, 3 \<mapsto> Held 1, 5000 \<mapsto> Held 2, 4 \<mapsto> ParentEnd, 5 \<mapsto> ChildEnd]) = Inr C \<and>
       C 0 = Some (Held 0) \<and> C 3 = Some ChildEnd \<and> C 4 = None \<and> C 5000 = Some (Held 2)"
proof -
  let ?e = "\<lparr>se_pair = Some (4, 5), se_fork = True, se_dup2 = True, se_close_range = False,
           se_parent_alive = True, se_seccomp = True, se_readable = True, se_recv = True\<rparr>"
  let ?T = "[0 \<mapsto> Held 0, 3 \<mapsto> Held 1, 5000 \<mapsto> Held 2] :: fd_table"
  have fresh: "fresh_pair 4 5 ?T" by (simp add: fresh_pair_def)
  then obtain C where C: "child_start ?e 4 5 (?T(4 \<mapsto> ParentEnd, 5 \<mapsto> ChildEnd)) = Inr C"
    by (simp add: child_start_cases)
  note at = child_descriptors[OF fresh C]
  show ?thesis using C at[of 0] at[of 3] at[of 4] at[of 5000] by auto
qed

section \<open>What the parent is left with\<close>

lemma child_life_acts:
  assumes "fresh_pair fd0 fd1 T"
  shows "snd (child_life e k ms fd0 fd1 (T(fd0 \<mapsto> ParentEnd, fd1 \<mapsto> ChildEnd))) =
    (if (fd1 = FACTORY_SOCK_FD \<or> se_dup2 e) \<and> se_parent_alive e \<and> se_seccomp e
     then SendReady # child_loop k ms else [])"
  using assms by (simp add: child_life_def child_start_cases factory_child_main_def)

text \<open>
  A spawn either gives a handle, and then the child runs behind its seccomp filter and the
  parent holds one descriptor more, its end of the pair; or it gives an error, and then the
  parent's descriptors are those from before and a forked child is killed and reaped. It gives a
  handle exactly when every step of both processes succeeds.
\<close>

theorem spawn_contract:
  assumes "se_pair e = Some (fd0, fd1)" and "fresh_pair fd0 fd1 T"
  shows "spawn e k ms T =
    (if \<not> se_fork e then (Inl ForkFailed, T, [])
     else if (fd1 = FACTORY_SOCK_FD \<or> se_dup2 e) \<and> se_parent_alive e \<and> se_seccomp e \<and>
        se_readable e \<and> se_recv e
     then (Inr \<lparr>fa_alive = True\<rparr>, T(fd0 \<mapsto> ParentEnd), [])
     else (Inl NotReady, T, [KillChild, WaitChild]))"
  using assms
  by (auto simp: spawn_def Let_def child_life_acts handshake_def first_message_def close_fd_def
      fresh_pair_def fun_eq_iff)

theorem spawn_contract_witness:
  "spawn \<lparr>se_pair = Some (3, 4), se_fork = True, se_dup2 = True, se_close_range = True,
           se_parent_alive = True, se_seccomp = False, se_readable = True, se_recv = True\<rparr>
     \<lparr>k_init = \<lambda>_. Inl 1, k_mark = \<lambda>_ _ _ _. None, k_einval = 22, k_mark_add = 1\<rparr> []
     [0 \<mapsto> Held 0] = (Inl NotReady, [0 \<mapsto> Held 0], [KillChild, WaitChild])"
proof -
  have "fresh_pair 3 4 [0 \<mapsto> Held 0]" by (simp add: fresh_pair_def)
  from spawn_contract[OF _ this] show ?thesis by simp
qed

text \<open>Probing leaves no descriptor behind; the socket outlives the child on \<^verbatim>\<open>drop\<close>.\<close>

lemma probe_leaves_nothing:
  assumes "\<And>fd. k_init k (flags OR unlimited) = Inr fd \<Longrightarrow> T fd = None"
  shows "snd (has_privileged_fanotify k flags unlimited T) = T"
  using assms by (auto simp: has_privileged_fanotify_def close_fd_def fun_eq_iff split: sum.splits)

lemma drop_closes_last: "last (drop_factory poisoned child) = CloseSocket"
  by (simp add: drop_factory_def)

end
