(* ===== verification/Privileges.thy ===== *)
theory Privileges
  imports Config
begin

text \<open>
  \<^verbatim>\<open>src/common/privileges.rs\<close>: how the daemon gives up its privileges, as the system calls it
  makes in order. What a call does to the capabilities of the threads of the process is a
  parameter, with what the manual pages promise as hypotheses where a property needs it.
\<close>

section \<open>The calls\<close>

definition CAP_LAST_CAP :: nat where "CAP_LAST_CAP = 40"
definition CAP_SETPCAP :: nat where "CAP_SETPCAP = 8"

text \<open>\<open>CapSet\<close> sets all three capability sets to empty.\<close>

datatype call = BoundingDrop nat | SetGroups | SetGid u32 | SetUid u32 | CapSet | NoNewPrivs

datatype priv_error = SetGidFailed | SetUidFailed | CapSetFailed | NoNewPrivsFailed

definition drop_bounding_set :: "call list" where
  "drop_bounding_set =
     map BoundingDrop (filter (\<lambda>c. c \<noteq> CAP_SETPCAP) [0..<CAP_LAST_CAP + 1]) @ [BoundingDrop CAP_SETPCAP]"

text \<open>The steps after the user; the calls so far come first.\<close>

definition clear_capabilities :: "(call \<Rightarrow> bool) \<Rightarrow> call list \<Rightarrow> (priv_error + unit) \<times> call list" where
  "clear_capabilities ok done =
     (if \<not> ok CapSet then (Inl CapSetFailed, done @ [CapSet])
      else if \<not> ok NoNewPrivs then (Inl NoNewPrivsFailed, done @ [CapSet, NoNewPrivs])
      else (Inr (), done @ [CapSet, NoNewPrivs]))"

text \<open>A failed \<^verbatim>\<open>setgroups\<close> is only a warning.\<close>

definition drop_privileges :: "identity_env \<Rightarrow> (call \<Rightarrow> bool) \<Rightarrow> (priv_error + unit) \<times> call list" where
  "drop_privileges env ok =
     (let (uid, gid) = resolve_uid_gid env in
      if ie_euid env = 0 \<and> uid \<noteq> 0 then
        let calls = drop_bounding_set @ [SetGroups, SetGid gid] in
        if \<not> ok (SetGid gid) then (Inl SetGidFailed, calls)
        else if \<not> ok (SetUid uid) then (Inl SetUidFailed, calls @ [SetUid uid])
        else clear_capabilities ok (calls @ [SetUid uid])
      else clear_capabilities ok drop_bounding_set)"

section \<open>The threads of the daemon\<close>

text \<open>
  The permitted capabilities of every thread. \<open>effect c t C\<close> is what the successful call \<open>c\<close> of
  thread \<open>t\<close> makes of them.
\<close>

type_synonym caps = "nat \<Rightarrow> nat set"

definition run_calls ::
  "(call \<Rightarrow> bool) \<Rightarrow> (call \<Rightarrow> nat \<Rightarrow> caps \<Rightarrow> caps) \<Rightarrow> nat \<Rightarrow> call list \<Rightarrow> caps \<Rightarrow> caps" where
  "run_calls ok effect t calls C = fold (\<lambda>c C. if ok c then effect c t C else C) calls C"

text \<open>
  What the manuals say: \<^verbatim>\<open>capset\<close> changes the calling thread only; \<^verbatim>\<open>setuid\<close> of the C library
  from root to another user clears the sets of every thread; the other calls leave the permitted
  sets alone.
\<close>

definition documented :: "(call \<Rightarrow> nat \<Rightarrow> caps \<Rightarrow> caps) \<Rightarrow> bool" where
  "documented effect \<longleftrightarrow>
     (\<forall>t C. effect CapSet t C = C(t := {})) \<and>
     (\<forall>u t C. u \<noteq> 0 \<longrightarrow> effect (SetUid u) t C = (\<lambda>_. {})) \<and>
     (\<forall>c t C. (\<forall>u. c \<noteq> SetUid u) \<and> c \<noteq> CapSet \<longrightarrow> effect c t C = C)"

lemma run_calls_append [simp]:
  "run_calls ok eff t (xs @ ys) C = run_calls ok eff t ys (run_calls ok eff t xs C)"
  by (simp add: run_calls_def)

lemma run_calls_keep:
  assumes "documented eff" and "\<forall>c \<in> set calls. (\<forall>u. c \<noteq> SetUid u) \<and> c \<noteq> CapSet"
  shows "run_calls ok eff t calls C = C"
  using assms(2)
proof (induction calls arbitrary: C)
  case (Cons c cs)
  then have "eff c t C = C" using assms(1) by (simp add: documented_def)
  with Cons show ?case by (simp add: run_calls_def)
qed (simp add: run_calls_def)

lemma run_bounding [simp]: "documented eff \<Longrightarrow> run_calls ok eff t drop_bounding_set C = C"
  by (rule run_calls_keep) (auto simp: drop_bounding_set_def)

lemma run_one: "run_calls ok eff t (c # cs) C = run_calls ok eff t cs (if ok c then eff c t C else C)"
  by (simp add: run_calls_def)

lemma run_none: "run_calls ok eff t [] C = C"
  by (simp add: run_calls_def)

text \<open>The bounding set loses every capability, the one that authorises the drops last.\<close>

lemma bounding_drops:
  "set drop_bounding_set = BoundingDrop ` {0..CAP_LAST_CAP} \<and> distinct drop_bounding_set \<and>
   last drop_bounding_set = BoundingDrop CAP_SETPCAP"
  by (auto simp: drop_bounding_set_def CAP_SETPCAP_def CAP_LAST_CAP_def distinct_map inj_on_def)

text \<open>
  C9: When the drop succeeds, the thread that made it has no capability left. A daemon started as
  root for another user has none in any thread; any other daemon, as under the service unit, keeps
  in all its other threads exactly the capabilities they had.
\<close>

theorem privileges_after_drop:
  assumes "documented effect" and "drop_privileges env ok = (Inr (), calls)"
  shows "run_calls ok effect t calls C =
    (if ie_euid env = 0 \<and> fst (resolve_uid_gid env) \<noteq> 0 then (\<lambda>_. {}) else C(t := {}))"
proof -
  have [simp]: "effect NoNewPrivs t' C' = C'" "effect SetGroups t' C' = C'"
    "effect (SetGid g) t' C' = C'" "effect CapSet t' C' = C'(t' := {})" for t' C' g
    using assms(1) by (simp_all add: documented_def)
  have [simp]: "u \<noteq> 0 \<Longrightarrow> effect (SetUid u) t' C' = (\<lambda>_. {})" for u t' C'
    using assms(1) by (simp add: documented_def)
  show ?thesis
    using assms
    by (auto simp: drop_privileges_def clear_capabilities_def Let_def case_prod_beta run_one run_none
        fun_eq_iff split: if_splits)
qed

text \<open>The service: a user with \<^verbatim>\<open>CAP_SYS_ADMIN\<close> (21) in the main thread and in one worker.\<close>

definition service_env :: identity_env where
  "service_env = \<lparr>ie_var = (\<lambda>_. None), ie_parse_u32 = (\<lambda>_. None), ie_user = (\<lambda>_. None),
     ie_loginuid_text = None, ie_owner = (\<lambda>_. None), ie_euid = 1000, ie_egid = 1000\<rparr>"

definition manual_effect :: "call \<Rightarrow> nat \<Rightarrow> caps \<Rightarrow> caps" where
  "manual_effect c t C =
     (case c of CapSet \<Rightarrow> C(t := {}) | SetUid u \<Rightarrow> if u \<noteq> 0 then (\<lambda>_. {}) else C | _ \<Rightarrow> C)"

theorem privileges_after_drop_witness:
  "run_calls (\<lambda>_. True) manual_effect 0 (drop_bounding_set @ [CapSet, NoNewPrivs])
     ((\<lambda>_. {})(0 := {21}, 1 := {21})) = (\<lambda>_. {})(1 := {21})"
proof -
  have doc: "documented manual_effect"
    by (auto simp: documented_def manual_effect_def split: call.split)
  have "fst (resolve_uid_gid service_env) = 1000"
    by (simp add: resolve_uid_gid_def sudo_uid_def resolve_rest_def login_user_def get_loginuid_def
        service_env_def)
  moreover have "drop_privileges service_env (\<lambda>_. True) =
      (Inr (), drop_bounding_set @ [CapSet, NoNewPrivs])"
    by (simp add: drop_privileges_def clear_capabilities_def service_env_def case_prod_beta)
  note privileges_after_drop[OF doc this, of 0 "(\<lambda>_. {})(0 := {21}, 1 := {21})"]
  ultimately show ?thesis by (auto simp: service_env_def fun_eq_iff)
qed

text \<open>When a step fails, no later one is made, and the daemon stops.\<close>

lemma drop_stops_at_failure:
  "fst (drop_privileges env ok) = Inr () \<longleftrightarrow>
     (\<forall>c \<in> set (snd (drop_privileges env ok)). ok c \<or> c = SetGroups \<or> (\<exists>n. c = BoundingDrop n))"
  by (auto simp: drop_privileges_def clear_capabilities_def Let_def case_prod_beta drop_bounding_set_def)

end
