(* ===== verification/Startup.thy ===== *)
theory Startup
  imports Daemon_Loop Factory_Spawn Privileges "HOL-Library.Option_ord"
begin

text \<open>
  The daemon from the probe for its privilege to the message that it is ready: the part of
  \<^verbatim>\<open>Monitor::run\<close> of \<^verbatim>\<open>src/common/monitor.rs\<close> before the event loop, with \<^verbatim>\<open>monitor/init.rs\<close> and
  the notification of \<^verbatim>\<open>src/common/watchdog.rs\<close>. It puts together the factory, the monitor and
  the drop of privileges.
\<close>

section \<open>Notifying systemd\<close>

datatype notify_state = NotifyReady | NotifyWatchdog

fun to_message :: "notify_state \<Rightarrow> string" where
  "to_message NotifyReady = ''READY=1''"
| "to_message NotifyWatchdog = ''WATCHDOG=1''"

datatype notify_address = Abstract string | Pathname string

datatype notify_error = NoNotifySocket | BadAddress | NoDatagram | SendFailed

text \<open>Which addresses are well formed, and whether the datagram is sent, is a parameter.\<close>

definition sd_notify ::
  "string option \<Rightarrow> (notify_address \<Rightarrow> bool) \<Rightarrow> bool \<Rightarrow> bool \<Rightarrow> notify_state \<Rightarrow>
     notify_error + notify_address \<times> string" where
  "sd_notify var address_ok socket_ok send_ok state =
     (case var of
        None \<Rightarrow> Inl NoNotifySocket
      | Some raw \<Rightarrow>
          let addr = (if raw \<noteq> [] \<and> hd raw = CHR ''@'' then Abstract (tl raw) else Pathname raw) in
          if \<not> address_ok addr then Inl BadAddress
          else if \<not> socket_ok then Inl NoDatagram
          else if \<not> send_ok then Inl SendFailed
          else Inr (addr, to_message state))"

section \<open>What is printed\<close>

definition cmd_label :: "string option \<Rightarrow> string" where
  "cmd_label cmd = (case cmd of Some name \<Rightarrow> ''['' @ name @ '']'' | None \<Rightarrow> ''[global]'')"

definition status_line :: "string option \<Rightarrow> path \<Rightarrow> string" where
  "status_line cmd p = ''  '' @ cmd_label cmd @ '' '' @ lossy (path_str p)"

text \<open>The pending paths under their commands, in the order of the commands, none first.\<close>

definition pending_by_cmd :: "(path \<times> path_entry) list \<Rightarrow> (string option, path list) btree" where
  "pending_by_cmd pending =
     fold (\<lambda>(p, e) m.
        let cmd = (case pe_cmd e of Some c \<Rightarrow> if c = CMD_GLOBAL then None else Some c | None \<Rightarrow> None) in
        bt_insert cmd ((case bt_get m cmd of Some ps \<Rightarrow> ps | None \<Rightarrow> []) @ [p]) m) pending []"

definition print_startup_status :: "nat \<Rightarrow> monitor \<Rightarrow> string list" where
  "print_startup_status fan_group_count m =
     [''Starting file trace monitor...''] @
     (if mo_canonical m \<noteq> []
      then (''Active paths ('' @ nat_string fan_group_count @ '' fd(s)):'') #
           map (\<lambda>(p, opts). status_line (po_cmd opts) p) (mo_entries m)
      else []) @
     (if mo_pending m \<noteq> []
      then ''Pending paths (waiting for directory creation):'' #
           concat (map (\<lambda>(cmd, ps). map (status_line cmd) ps) (pending_by_cmd (mo_pending m)))
      else [])"

section \<open>The start\<close>

definition unprivileged_allowed :: "string option \<Rightarrow> bool" where
  "unprivileged_allowed var = (case var of Some v \<Rightarrow> v \<noteq> ''0'' | None \<Rightarrow> False)"

text \<open>
  What the system answers: to the probe and the factory, to the monitor, to the directory of the
  logs, to the calls that drop privileges, to the signal handlers and to the registration of the
  inotify descriptor with the event loop.
\<close>

record startup_env =
  su_world :: world
  su_kernel :: kernel
  su_init_flags :: u32
  su_unlimited_marks :: u32
  su_allow_unprivileged :: "string option"
  su_spawn :: spawn_env
  su_identity :: identity_env
  su_mkdir :: bool
  su_call_ok :: "call \<Rightarrow> bool"
  su_signals :: bool
  su_async :: bool

datatype start_error =
    NotPrivileged
  | NoFactoryProcess spawn_error
  | FanotifyError mon_error
  | LogDirError path
  | DropError priv_error
  | SignalError

text \<open>What has been done when the start ends, in order.\<close>

datatype phase =
    Probed bool
  | FactoryForked
  | FanotifyReady nat
  | LogDirOwned path
  | PrivilegesDropped "call list"
  | StatusPrinted "string list"
  | TasksSpawned
  | SentReady

text \<open>\<open>None\<close> is a panic: of the monitor's own operations, or of the registration of inotify.\<close>

definition run_start ::
  "startup_env \<Rightarrow> monitor \<Rightarrow> 'c \<Rightarrow> 't option \<Rightarrow> fd_table \<Rightarrow>
     ((start_error + ('t, 'c) daemon) \<times> phase list) option" where
  "run_start e m sizes tracker T =
     (let (privileged, T1) =
            has_privileged_fanotify (su_kernel e) (su_init_flags e) (su_unlimited_marks e) T;
          m1 = m\<lparr>mo_privileged := privileged\<rparr>;
          ph1 = [Probed privileged]
      in if \<not> check_privileges (unprivileged_allowed (su_allow_unprivileged e)) m1
         then Some (Inl NotPrivileged, ph1)
         else
           (case fst (spawn (su_spawn e) (su_kernel e) [] T1) of
              Inl err \<Rightarrow> Some (Inl (NoFactoryProcess err), ph1)
            | Inr _ \<Rightarrow>
                (let ph2 = ph1 @ [FactoryForked] in
                 case init_fanotify (su_world e) (m\<lparr>mo_factory := True, mo_privileged := privileged\<rparr>) of
                   None \<Rightarrow> None
                 | Some (Inl err, _) \<Rightarrow> Some (Inl (FanotifyError err), ph2)
                 | Some (Inr n, m2) \<Rightarrow>
                     if mo_log_dir m2 \<noteq> None \<and> \<not> su_mkdir e
                     then Some (Inl (LogDirError (the (mo_log_dir m2))), ph2 @ [FanotifyReady n])
                     else
                       (let ph3 = ph2 @ [FanotifyReady n] @
                              (case mo_log_dir m2 of Some d \<Rightarrow> [LogDirOwned d] | None \<Rightarrow> [])
                        in case drop_privileges (su_identity e) (su_call_ok e) of
                             (Inl err, _) \<Rightarrow> Some (Inl (DropError err), ph3)
                           | (Inr _, calls) \<Rightarrow>
                               (case spawn_tasks (su_world e) (start_metrics m2) of
                                  None \<Rightarrow> None
                                | Some m3 \<Rightarrow>
                                    let ph4 = ph3 @ [PrivilegesDropped calls,
                                          StatusPrinted (print_startup_status n m2), TasksSpawned]
                                    in if \<not> su_signals e then Some (Inl SignalError, ph4)
                                       else if \<not> su_async e then None
                                       else Some (Inr \<lparr>dm_monitor = m3, dm_sizes = sizes,
                                              dm_tracker = tracker, dm_mapper = [],
                                              dm_published = []\<rparr>, ph4 @ [SentReady]))))))"

text \<open>The status the process of the daemon exits with when the start fails.\<close>

definition exit_code :: "start_error \<Rightarrow> nat" where
  "exit_code err = (case err of NotPrivileged \<Rightarrow> 2 | _ \<Rightarrow> 1)"

section \<open>What a start guarantees\<close>

lemma probe_result:
  "fst (has_privileged_fanotify k flags unl T) = (\<exists>fd. k_init k (flags OR unl) = Inr fd)"
  by (auto simp: has_privileged_fanotify_def split: sum.splits)

text \<open>Where the monitor comes to, before the directory of the logs.\<close>

lemma run_start_cases:
  assumes "run_start e m sizes tracker T = Some (Inr d, phases)"
  obtains n m2 calls where
    "check_privileges (unprivileged_allowed (su_allow_unprivileged e))
       (m\<lparr>mo_privileged := fst (has_privileged_fanotify (su_kernel e) (su_init_flags e) (su_unlimited_marks e) T)\<rparr>)"
    "init_fanotify (su_world e) (m\<lparr>mo_factory := True,
       mo_privileged := fst (has_privileged_fanotify (su_kernel e) (su_init_flags e) (su_unlimited_marks e) T)\<rparr>) =
       Some (Inr n, m2)"
    "drop_privileges (su_identity e) (su_call_ok e) = (Inr (), calls)"
    "spawn_tasks (su_world e) (start_metrics m2) = Some (dm_monitor d)"
    "d = \<lparr>dm_monitor = dm_monitor d, dm_sizes = sizes, dm_tracker = tracker, dm_mapper = [], dm_published = []\<rparr>"
    "phases = [Probed (fst (has_privileged_fanotify (su_kernel e) (su_init_flags e) (su_unlimited_marks e) T)),
       FactoryForked, FanotifyReady n] @ (case mo_log_dir m2 of Some l \<Rightarrow> [LogDirOwned l] | None \<Rightarrow> []) @
       [PrivilegesDropped calls, StatusPrinted (print_startup_status n m2), TasksSpawned, SentReady]"
proof -
  obtain p T1 where p: "has_privileged_fanotify (su_kernel e) (su_init_flags e) (su_unlimited_marks e) T = (p, T1)"
    by (cases "has_privileged_fanotify (su_kernel e) (su_init_flags e) (su_unlimited_marks e) T")
  obtain r calls where c: "drop_privileges (su_identity e) (su_call_ok e) = (r, calls)"
    by (cases "drop_privileges (su_identity e) (su_call_ok e)")
  show thesis
    using assms
    unfolding run_start_def p c Let_def prod.case
    by (auto split: if_splits sum.splits option.splits prod.splits intro: that simp: p c)
qed

lemma init_ok:
  assumes "monitor_new w pid cfg = Some (Inr m)"
  obtains r m' where "init_fanotify w' (m\<lparr>mo_factory := f, mo_privileged := b\<rparr>) = Some (r, m')" "monitor_ok m'"
proof -
  have "fresh (m\<lparr>mo_factory := f, mo_privileged := b\<rparr>)"
    using monitor_new_fresh [OF assms] by (simp add: fresh_def)
  from init_fanotify_ok [OF this, of w'] that show thesis by (auto simp: returns_iff)
qed

lemma spawned_ok:
  assumes "monitor_ok m"
  obtains m' where "spawn_tasks w (start_metrics m) = Some m'"
  using spawn_tasks_ok [OF start_metrics_ok [OF assms], of w] by (auto simp: returns_iff)

lemma run_start_returns:
  assumes "monitor_new w pid cfg = Some (Inr m)" and "su_async e"
  shows "run_start e m sizes tracker T \<noteq> None"
proof -
  obtain p T1 where p: "has_privileged_fanotify (su_kernel e) (su_init_flags e) (su_unlimited_marks e) T = (p, T1)"
    by (cases "has_privileged_fanotify (su_kernel e) (su_init_flags e) (su_unlimited_marks e) T")
  obtain r m2 where i: "init_fanotify (su_world e) (m\<lparr>mo_factory := True, mo_privileged := p\<rparr>) = Some (r, m2)"
    and ok: "monitor_ok m2" using init_ok [OF assms(1)] by metis
  obtain m3 where s: "spawn_tasks (su_world e) (start_metrics m2) = Some m3"
    using spawned_ok [OF ok] by metis
  show ?thesis
    by (simp add: run_start_def p i s Let_def assms(2) split: sum.split prod.split)
qed

lemma failed_start:
  assumes "run_start e m sizes tracker T = Some (Inl err, phases)"
  shows "SentReady \<notin> set phases \<and>
    (exit_code err = 2 \<longleftrightarrow> (\<forall>fd. k_init (su_kernel e) (su_init_flags e OR su_unlimited_marks e) \<noteq> Inr fd) \<and>
       \<not> unprivileged_allowed (su_allow_unprivileged e))"
proof -
  obtain p T1 where p: "has_privileged_fanotify (su_kernel e) (su_init_flags e) (su_unlimited_marks e) T = (p, T1)"
    by (cases "has_privileged_fanotify (su_kernel e) (su_init_flags e) (su_unlimited_marks e) T")
  then have "p \<longleftrightarrow> (\<exists>fd. k_init (su_kernel e) (su_init_flags e OR su_unlimited_marks e) = Inr fd)"
    using probe_result [of "su_kernel e" "su_init_flags e" "su_unlimited_marks e" T] by simp
  with assms show ?thesis
    unfolding run_start_def p Let_def prod.case check_privileges_def exit_code_def
    by (auto split: if_splits sum.splits option.splits prod.splits)
qed

text \<open>
  C6: From every monitor that can be constructed the start comes to an end. Either it fails, then
  systemd is never told that the daemon is ready, and the exit status is 2 exactly when the
  privilege is missing and doing without is not allowed; or it succeeds, then the daemon is one
  from which the loop was proved never to panic, and it says ready only after the factory has been
  forked, then its privileges dropped, then the readers spawned.
\<close>

theorem startup_outcome:
  fixes sizes :: 'c and tracker :: "'t option"
  assumes "monitor_new (su_world e) pid cfg = Some (Inr m)" and "su_async e"
  shows "\<exists>r phases. run_start e m sizes tracker T = Some (r, phases) \<and>
    (case r of
       Inl err \<Rightarrow> SentReady \<notin> set phases \<and>
         (exit_code err = 2 \<longleftrightarrow>
            (\<forall>fd. k_init (su_kernel e) (su_init_flags e OR su_unlimited_marks e) \<noteq> Inr fd) \<and>
            \<not> unprivileged_allowed (su_allow_unprivileged e))
     | Inr d \<Rightarrow>
         (\<exists>privileged. daemon_start (su_world e) pid cfg True privileged sizes tracker = Some d) \<and>
         (\<exists>before calls between. phases = before @ PrivilegesDropped calls # between @ [SentReady] \<and>
            drop_privileges (su_identity e) (su_call_ok e) = (Inr (), calls) \<and>
            FactoryForked \<in> set before \<and> TasksSpawned \<in> set between))"
proof -
  obtain r phases where run: "run_start e m sizes tracker T = Some (r, phases)"
    using run_start_returns [OF assms, of sizes tracker T] by auto
  show ?thesis
  proof (cases r)
    case (Inl err)
    with run failed_start [of e m sizes tracker T err phases] show ?thesis by simp
  next
    case (Inr d)
    from run_start_cases [OF run [unfolded Inr]] obtain n m2 calls where
      i: "init_fanotify (su_world e) (m\<lparr>mo_factory := True,
         mo_privileged := fst (has_privileged_fanotify (su_kernel e) (su_init_flags e) (su_unlimited_marks e) T)\<rparr>) =
         Some (Inr n, m2)"
      and c: "drop_privileges (su_identity e) (su_call_ok e) = (Inr (), calls)"
      and s: "spawn_tasks (su_world e) (start_metrics m2) = Some (dm_monitor d)"
      and d: "d = \<lparr>dm_monitor = dm_monitor d, dm_sizes = sizes, dm_tracker = tracker, dm_mapper = [], dm_published = []\<rparr>"
      and ph: "phases = [Probed (fst (has_privileged_fanotify (su_kernel e) (su_init_flags e) (su_unlimited_marks e) T)),
         FactoryForked, FanotifyReady n] @ (case mo_log_dir m2 of Some l \<Rightarrow> [LogDirOwned l] | None \<Rightarrow> []) @
         [PrivilegesDropped calls, StatusPrinted (print_startup_status n m2), TasksSpawned, SentReady]"
      by metis
    have "daemon_start (su_world e) pid cfg True
        (fst (has_privileged_fanotify (su_kernel e) (su_init_flags e) (su_unlimited_marks e) T)) sizes tracker = Some d"
      using assms(1) i s d by (simp add: daemon_start_def)
    moreover have "\<exists>before calls between. phases = before @ PrivilegesDropped calls # between @ [SentReady] \<and>
        drop_privileges (su_identity e) (su_call_ok e) = (Inr (), calls) \<and>
        FactoryForked \<in> set before \<and> TasksSpawned \<in> set between"
      by (rule exI [of _ "[Probed (fst (has_privileged_fanotify (su_kernel e) (su_init_flags e) (su_unlimited_marks e) T)),
            FactoryForked, FanotifyReady n] @ (case mo_log_dir m2 of Some l \<Rightarrow> [LogDirOwned l] | None \<Rightarrow> [])"],
          rule exI [of _ calls],
          rule exI [of _ "[StatusPrinted (print_startup_status n m2), TasksSpawned]"])
        (simp add: ph c)
    ultimately show ?thesis unfolding run Inr by auto
  qed
qed

definition sample_startup :: startup_env where
  "sample_startup =
     \<lparr>su_world = sample_world,
      su_kernel = \<lparr>k_init = (\<lambda>_. Inr 7), k_mark = (\<lambda>_ _ _ _. None), k_einval = 22, k_mark_add = 1\<rparr>,
      su_init_flags = 0, su_unlimited_marks = 32, su_allow_unprivileged = None,
      su_spawn = \<lparr>se_pair = Some (3, 4), se_fork = True, se_dup2 = True, se_close_range = True,
        se_parent_alive = True, se_seccomp = True, se_readable = True, se_recv = True\<rparr>,
      su_identity = service_env, su_mkdir = True, su_call_ok = (\<lambda>_. True), su_signals = True, su_async = True\<rparr>"

theorem startup_outcome_witness:
  "\<exists>m d phases privileged. monitor_new sample_world 7 sample_config = Some (Inr m) \<and>
     run_start sample_startup m () (None :: unit option) Map.empty = Some (Inr d, phases) \<and>
     daemon_start sample_world 7 sample_config True privileged () None = Some d \<and> last phases = SentReady"
proof -
  obtain m where m: "monitor_new sample_world 7 sample_config = Some (Inr m)"
    using sample_new_eq by (auto simp: sample_new_def split: option.splits sum.splits)
  then have new: "sample_new = Some m" by (simp add: sample_new_def)
  then obtain n m2 where i: "init_fanotify sample_world (m\<lparr>mo_factory := True, mo_privileged := True\<rparr>) = Some (Inr n, m2)"
    using sample_init_eq by (auto simp: sample_init_def new split: option.splits sum.splits)
  obtain r m2' where "init_fanotify sample_world (m\<lparr>mo_factory := True, mo_privileged := True\<rparr>) = Some (r, m2')" "monitor_ok m2'"
    using init_ok [OF m] by metis
  with i have "monitor_ok m2" by simp
  then obtain m3 where s: "spawn_tasks sample_world (start_metrics m2) = Some m3"
    using spawned_ok by metis
  have "\<exists>calls. drop_privileges service_env (\<lambda>_. True) = (Inr (), calls)"
    by (simp add: drop_privileges_def clear_capabilities_def case_prod_beta Let_def)
  then obtain calls where c: "drop_privileges service_env (\<lambda>_. True) = (Inr (), calls)" by blast
  have f: "fst (spawn (su_spawn sample_startup) (su_kernel sample_startup) [] Map.empty) = Inr \<lparr>fa_alive = True\<rparr>"
    by (simp add: spawn_contract [of _ 3 4] fresh_pair_def sample_startup_def)
  have p: "has_privileged_fanotify (su_kernel sample_startup) (su_init_flags sample_startup)
      (su_unlimited_marks sample_startup) Map.empty = (True, Map.empty)"
    by (simp add: has_privileged_fanotify_def sample_startup_def close_fd_def)
  have w: "su_world sample_startup = sample_world" "su_identity sample_startup = service_env"
    "su_call_ok sample_startup = (\<lambda>_. True)" "su_mkdir sample_startup" "su_signals sample_startup" "su_async sample_startup"
    by (simp_all add: sample_startup_def)
  obtain d phases where run: "run_start sample_startup m () (None :: unit option) Map.empty = Some (Inr d, phases)"
    by (simp add: run_start_def p f i s c w check_privileges_def Let_def)
  have "monitor_new (su_world sample_startup) 7 sample_config = Some (Inr m)" using m w by simp
  from startup_outcome [OF this w(6), of "()" "None :: unit option" Map.empty] run w m
  show ?thesis by fastforce
qed

end
