(* ===== verification/Factory_Msg.thy ===== *)
theory Factory_Msg
  imports Factory
begin

text \<open>
  Descriptors in the control part of a message: \<^verbatim>\<open>cmsg_align\<close>, \<^verbatim>\<open>control_space\<close>, \<^verbatim>\<open>send_msg\<close> and
  \<^verbatim>\<open>recv_msg\<close> of \<^verbatim>\<open>src/common/monitor/factory.rs\<close>. The size \<open>h\<close> of a control header is the C
  library's; offsets count from the start of the control buffer, and none comes near the end of
  \<^verbatim>\<open>usize\<close>.
\<close>

unbundle bit_operations_syntax

definition cmsg_align :: "nat \<Rightarrow> nat \<Rightarrow> nat" where
  "cmsg_align h len = nat ((int len + int h - 1) AND NOT (int h - 1))"

definition cmsg_data_len :: "nat \<Rightarrow> nat" where
  "cmsg_data_len nfds = nfds * 4"

definition control_space :: "nat \<Rightarrow> nat \<Rightarrow> nat" where
  "control_space h nfds = cmsg_align h h + cmsg_align h (nfds * 4)"

text \<open>
  A header: whether level and type say that descriptors follow, its length, and the descriptors
  in the memory behind it.
\<close>

record cmsghdr =
  cm_rights :: bool
  cm_len :: nat
  cm_data :: "nat \<Rightarrow> fd"

text \<open>The control part that is handed to \<^verbatim>\<open>sendmsg\<close>: none without descriptors.\<close>

definition send_msg :: "nat \<Rightarrow> fd list \<Rightarrow> (nat \<times> cmsghdr) option" where
  "send_msg h fds =
     (if fds = [] then None
      else Some (control_space h (length fds),
        \<lparr>cm_rights = True, cm_len = cmsg_align h h + cmsg_data_len (length fds), cm_data = (!) fds\<rparr>))"

text \<open>
  The walk over the headers at their offsets in a buffer of length \<open>L\<close>, into a slice of \<open>cap\<close>
  descriptors.
\<close>

definition take_fds :: "nat \<Rightarrow> cmsghdr \<Rightarrow> nat \<Rightarrow> fd list \<Rightarrow> fd list" where
  "take_fds h c cap fds =
     (if cm_rights c \<and> cm_len c \<ge> cmsg_align h h
      then fds @ map (cm_data c) [0..<min ((cm_len c - cmsg_align h h) div 4) (cap - length fds)]
      else fds)"

partial_function (option) recv_walk ::
  "nat \<Rightarrow> (nat \<Rightarrow> cmsghdr) \<Rightarrow> nat \<Rightarrow> nat \<Rightarrow> nat \<Rightarrow> fd list \<Rightarrow> fd list option" where
  "recv_walk h ctl L cap addr fds =
     (if addr + cmsg_align h h > L then Some fds
      else
        let fds' = take_fds h (ctl addr) cap fds;
            nxt = addr + cmsg_align h (cm_len (ctl addr))
        in if nxt + cmsg_align h h > L then Some fds' else recv_walk h ctl L cap nxt fds')"

text \<open>\<^verbatim>\<open>CMSG_FIRSTHDR\<close> is null when the buffer is shorter than a header.\<close>

definition recv_fds :: "nat \<Rightarrow> (nat \<Rightarrow> cmsghdr) \<Rightarrow> nat \<Rightarrow> nat \<Rightarrow> fd list option" where
  "recv_fds h ctl L cap = (if L < h then Some [] else recv_walk h ctl L cap 0 [])"

section \<open>Alignment\<close>

lemma and_not_mask: "x AND NOT (mask n) = x - x mod 2 ^ n" for x :: int
proof -
  have "x AND NOT (mask n) = push_bit n (drop_bit n x)"
    by (auto simp: bit_eq_iff bit_simps)
  also have "\<dots> = (x div 2 ^ n) * 2 ^ n"
    by (simp add: push_bit_eq_mult drop_bit_eq_div)
  finally show ?thesis by (simp add: minus_mod_eq_div_mult)
qed

lemma cmsg_align_eq:
  assumes "h = 2 ^ k"
  shows "cmsg_align h len = (len + h - 1) div h * h"
proof -
  have h: "int h - 1 = mask k" "int h = 2 ^ k"
    using assms by (simp_all add: mask_eq_exp_minus_1)
  have pos: "h > 0" using assms by simp
  then have "int len + int h - 1 = int (len + h - 1)" by (simp add: of_nat_diff)
  then have "cmsg_align h len = nat (int (len + h - 1) - int (len + h - 1) mod int h)"
    by (simp only: cmsg_align_def h(1) and_not_mask h(2)[symmetric])
  also have "\<dots> = len + h - 1 - (len + h - 1) mod h"
    by (simp add: zmod_int[symmetric] nat_diff_distrib)
  finally show ?thesis by (simp add: minus_mod_eq_div_mult)
qed

lemma cmsg_align_bounds:
  assumes "h = 2 ^ k"
  shows "len \<le> cmsg_align h len" and "cmsg_align h len < len + h"
proof -
  let ?x = "len + h - 1"
  have "?x div h * h + ?x mod h = ?x" by simp
  moreover have "?x mod h < h" using assms by simp
  moreover have "h > 0" using assms by simp
  ultimately show "len \<le> cmsg_align h len" and "cmsg_align h len < len + h"
    using cmsg_align_eq[OF assms, of len] by linarith+
qed

lemma cmsg_align_shift:
  assumes "h = 2 ^ k"
  shows "cmsg_align h (h + n) = h + cmsg_align h n"
proof -
  have "h > 0" using assms by simp
  then have "h + n + h - 1 = n + h - 1 + h" by simp
  then have "(h + n + h - 1) div h = (n + h - 1) div h + 1"
    using \<open>h > 0\<close> by (simp only: div_add_self2)
  then show ?thesis by (simp add: cmsg_align_eq[OF assms])
qed

lemma cmsg_align_0: "h = 2 ^ k \<Longrightarrow> cmsg_align h 0 = 0"
  by (simp add: cmsg_align_eq)

lemma cmsg_align_self: "h = 2 ^ k \<Longrightarrow> cmsg_align h h = h"
  using cmsg_align_shift[of h k 0] cmsg_align_0[of h k] by simp

section \<open>The walk\<close>

lemma take_fds_bound: "length fds \<le> cap \<Longrightarrow> length (take_fds h c cap fds) \<le> cap"
  by (auto simp: take_fds_def min_def)

text \<open>
  It ends when no header in the buffer has length 0, and never puts more than \<open>cap\<close> descriptors
  into the slice.
\<close>

lemma recv_walk_returns:
  assumes "h = 2 ^ k" and "\<And>a. a + h \<le> L \<Longrightarrow> cm_len (ctl a) > 0" and "length fds \<le> cap"
  shows "\<exists>out. recv_walk h ctl L cap addr fds = Some out \<and> length out \<le> cap"
  using assms(3)
proof (induction "L - addr" arbitrary: addr fds rule: less_induct)
  case less
  show ?case
  proof (cases "addr + h > L")
    case True
    with less.prems show ?thesis
      by (subst recv_walk.simps) (simp add: cmsg_align_self[OF assms(1)])
  next
    case False
    let ?fds = "take_fds h (ctl addr) cap fds"
    let ?n = "addr + cmsg_align h (cm_len (ctl addr))"
    have "cm_len (ctl addr) > 0" using assms(2) False by simp
    then have "?n > addr" using cmsg_align_bounds(1)[OF assms(1), of "cm_len (ctl addr)"] by linarith
    moreover have "h > 0" using assms(1) by simp
    ultimately have "L - ?n < L - addr" using False by linarith
    from less.hyps[OF this take_fds_bound[OF less.prems]] take_fds_bound[OF less.prems]
    show ?thesis
      by (subst recv_walk.simps) (simp add: False Let_def cmsg_align_self[OF assms(1)])
  qed
qed

text \<open>
  Receiving ends for every control buffer in which no header has length 0, and writes no more
  descriptors than the caller's slice has room for, whatever lengths the headers claim.
\<close>

theorem recv_returns_within_slice:
  assumes "h = 2 ^ k" and "\<And>a. a + h \<le> L \<Longrightarrow> cm_len (ctl a) > 0"
  shows "\<exists>out. recv_fds h ctl L cap = Some out \<and> length out \<le> cap"
  using recv_walk_returns[where fds = "[]" and addr = 0 and h = h and k = k and L = L and
      ctl = ctl and cap = cap] assms
  by (simp add: recv_fds_def)

text \<open>
  What one side puts into a message the other side takes out: the same descriptors in the same
  order, up to the room in the slice, however much of the alignment after them the kernel counts
  in the length it reports.
\<close>

theorem descriptors_cross:
  assumes "h = 2 ^ k" and "send_msg h fds = Some (space, c)" and "ctl 0 = c"
    and "cm_len c \<le> L" and "L \<le> space"
  shows "recv_fds h ctl L cap = Some (take cap fds)"
proof -
  note self = cmsg_align_self[OF assms(1)]
  let ?n = "length fds"
  have c: "c = \<lparr>cm_rights = True, cm_len = h + ?n * 4, cm_data = (!) fds\<rparr>"
    and space: "space = h + cmsg_align h (?n * 4)"
    using assms(2) by (auto simp: send_msg_def control_space_def cmsg_data_len_def self split: if_splits)
  have L: "\<not> L < h" using assms(4) c by simp
  have "cmsg_align h (cm_len c) = space"
    by (simp add: c space cmsg_align_shift[OF assms(1)])
  moreover have "h > 0" using assms(1) by simp
  ultimately have last: "cmsg_align h (cm_len c) + h > L" using assms(5) by linarith
  have "take_fds h c cap [] = map ((!) fds) [0..<min ?n cap]"
    by (simp add: take_fds_def c self)
  also have "\<dots> = take cap fds"
    by (simp add: list_eq_iff_nth_eq)
  finally show ?thesis
    using L last
    by (simp add: recv_fds_def recv_walk.simps[of h ctl L cap 0] assms(3) self Let_def)
qed

text \<open>Two descriptors behind a 64-bit header, with the kernel counting 24 bytes.\<close>

definition two_fds :: cmsghdr where
  "two_fds = \<lparr>cm_rights = True, cm_len = 24, cm_data = (!) [7, 9]\<rparr>"

lemma send_two: "send_msg 16 [7, 9] = Some (32, two_fds)"
proof -
  have "cmsg_align 16 16 = 16" "cmsg_align 16 8 = 16"
    using cmsg_align_eq[of 16 4] by simp_all
  then show ?thesis by (simp add: send_msg_def control_space_def cmsg_data_len_def two_fds_def)
qed

theorem descriptors_cross_witness: "recv_fds 16 (\<lambda>_. two_fds) 24 64 = Some [7, 9]"
  using descriptors_cross[of 16 4 "[7, 9]" 32 two_fds "\<lambda>_. two_fds" 24 64] send_two
  by (simp add: two_fds_def)

theorem recv_returns_within_slice_witness:
  "\<exists>out. recv_fds 16 (\<lambda>_. two_fds) 80 1 = Some out \<and> length out \<le> 1"
  by (rule recv_returns_within_slice[of 16 4]) (simp_all add: two_fds_def)

end
