(* ===== verification/Service.thy ===== *)
theory Service
  imports Cli
begin

text \<open>
  \<^verbatim>\<open>fsmon init\<close> and \<^verbatim>\<open>fsmon cd\<close> of \<^verbatim>\<open>src/bin/fsmon/commands/init_cd.rs\<close>, with the default
  configuration file of \<^verbatim>\<open>src/common/config.rs\<close>. A command is its result and the steps it takes
  on the file system, in order; which of them succeed is a parameter. What clap writes into man
  pages and completions is not modelled, only where it goes.
\<close>

section \<open>Steps\<close>

datatype fs_step =
    CreateDir path
  | Chown path u32 u32
  | WriteText path string
  | Generate path
  | Rename path path
  | DaemonReload
  | RunShell string path

datatype init_error =
  StepFailed fs_step | NeedsRoot | NoExe | InitConfig config_error

type_synonym 'a run = "(init_error + 'a) \<times> fs_step list"

text \<open>A step whose failure ends the command, one whose failure is ignored, and sequencing.\<close>

definition attempt :: "(fs_step \<Rightarrow> bool) \<Rightarrow> fs_step \<Rightarrow> unit run" where
  "attempt ok s = (if ok s then Inr () else Inl (StepFailed s), [s])"

definition chown_to_original_user :: "identity_env \<Rightarrow> path \<Rightarrow> unit run" where
  "chown_to_original_user env p =
     (Inr (), [Chown p (fst (resolve_uid_gid env)) (snd (resolve_uid_gid env))])"

definition and_then :: "unit run \<Rightarrow> 'a run \<Rightarrow> 'a run" where
  "and_then a b =
     (case a of (Inl e, s) \<Rightarrow> (Inl e, s) | (Inr _, s) \<Rightarrow> (fst b, s @ snd b))"

definition nothing :: "unit run" where "nothing = (Inr (), [])"

fun in_order :: "unit run list \<Rightarrow> unit run" where
  "in_order [] = nothing"
| "in_order (a # as) = and_then a (in_order as)"

section \<open>The default configuration file\<close>

definition default_toml_1 :: "string list" where
  "default_toml_1 = [
     ''## ================================================================'',
     ''## fsmon configuration file'',
     ''## ================================================================'',
     ''##'',
     ''## All settings are optional. Commented values show defaults.'',
     ''## Uncomment to override. Changes take effect on next daemon start.'',
     ''## CLI flags override config file values.'',
     ''##'',
     ''## Legend:'',
     ''##   ##  = descriptive comment (documentation)'',
     ''##   #   = commented-out option (remove one # to enable)'',
     [],
     ''[monitored]'',
     ''## Monitored paths database file path.'',
     ''## Config-only (no CLI flag).'',
     ''path = '' @ [CHR 0x22] @ ''~/.local/share/fsmon/monitored.jsonl'' @ [CHR 0x22],
     [],
     ''## ----------------------------------------------------------------'',
     ''## Daemon runtime settings.'',
     ''## ----------------------------------------------------------------'',
     ''# [daemon]'',
     [],
     ''## Enable debug output (event matching, routing decisions).'',
     ''## Default: false. CLI: --debug'',
     ''# debug = false'',
     [],
     ''## Metrics report interval in seconds.'',
     ''## When set to N > 0, prints a one-line status report to stderr'',
     ''## every N seconds (uptime, RSS, caches, readers).'',
     ''## Default: disabled (0). CLI: --metrics-interval SECS'',
     ''# metrics_interval = 0'',
     [],
     ''[logging]'',
     ''## Log file output directory. Remove this section to disable file logging.'']"

definition default_toml_2 :: "string list" where
  "default_toml_2 = [
     ''## Config-only (no CLI flag).'',
     ''path = '' @ [CHR 0x22] @ ''~/.local/state/fsmon'' @ [CHR 0x22],
     [],
     ''## Auto-clean: keep entries for at most N days.'',
     ''## Config-only (clean command accepts -t/--time per invocation).'',
     ''# keep_days = 30'',
     [],
     ''## Auto-clean: truncate log file when it exceeds this size.'',
     ''## Config-only (clean command accepts -s/--size per invocation).'',
     ''# size = '' @ [CHR 0x22] @ ''>=1GB'' @ [CHR 0x22],
     [],
     ''## Warn when free disk space drops below this threshold.'',
     ''## Format: percentage ('' @ [CHR 0x22] @ ''10%'' @ [CHR 0x22] @ '') or absolute ('' @ [CHR 0x22] @ ''5GB'' @ [CHR 0x22] @ '').'',
     ''## Default: no check. CLI: --logging-disk-free 10%'',
     ''# disk_min_free = '' @ [CHR 0x22] @ ''10%'' @ [CHR 0x22],
     [],
     ''## Use local time instead of UTC in event timestamps.'',
     ''## Default: false (UTC). CLI: --logging-local-time'',
     ''# local_time = false'',
     [],
     ''## ----------------------------------------------------------------'',
     ''## Cache settings. Uncomment to override defaults.'',
     ''## ----------------------------------------------------------------'',
     ''# [cache]'',
     [],
     ''## Directory handle cache capacity.'',
     ''## Each entry is ~150-200 bytes. Lower on memory-constrained systems.'',
     ''## Default: 100000. CLI: --cache-dir-cap N'',
     ''# dir_capacity = 100000'',
     [],
     ''## Directory handle cache TTL in seconds.'',
     ''## Shorter = faster memory reclaim for volatile directories.'',
     ''## Default: 3600. CLI: --cache-dir-ttl SECS'',
     ''# dir_ttl_secs = 3600'']"

definition default_toml_3 :: "string list" where
  "default_toml_3 = [
     [],
     ''## File size cache capacity.'',
     ''## Raise for high-file-volume workloads.'',
     ''## Default: 10000. CLI: --cache-file-size N'',
     ''# file_size_capacity = 10000'',
     [],
     ''## Process cache TTL in seconds.'',
     ''## Applies to proc_cache and pid_tree.'',
     ''## Default: 600. CLI: --cache-proc-ttl SECS'',
     ''# proc_ttl_secs = 600'',
     [],
     ''## Fanotify read buffer size in bytes.'',
     ''## Raise for high-throughput event volumes.'',
     ''## Default: 32768. CLI: --cache-buffer BYTES'',
     ''# buffer_size = 32768'',
     [],
     ''## Event channel capacity between reader tasks and main loop.'',
     ''## Default: unbounded. CLI: --cache-channel N'',
     ''# channel_capacity = 1024'',
     [],
     ''## Subscribe event stream buffer capacity.'',
     ''## Events buffered for slow subscribers before dropping oldest.'',
     ''## Default: 4096. CLI: --cache-subscribe N'',
     ''# subscribe_buf = 4096'',
     [],
     ''## ----------------------------------------------------------------'',
     ''## systemd watchdog integration.'',
     ''## Sends periodic WATCHDOG=1 to prevent systemd from restarting.'',
     ''## ----------------------------------------------------------------'',
     ''# [watchdog]'',
     [],
     ''## Heartbeat interval in seconds.'',
     ''## Must be > 0 to enable watchdog. Default: disabled.'',
     ''## CLI: --watchdog-interval SECS'']"

definition default_toml_4 :: "string list" where
  "default_toml_4 = [
     ''# interval_secs = 15'',
     [],
     ''## Timeout multiplier. WatchdogSec = interval_secs '' @ [CHR 0xC3] @ [CHR 0x97] @ '' multiplier.'',
     ''## MUST be > 1 (daemon refuses to start otherwise).'',
     ''## Recommended: 2-4. Higher = more tolerant of transient stalls.'',
     ''## Default: 2. CLI: --watchdog-multiplier N'',
     ''# multiplier = 2'']"

definition default_toml_lines :: "string list" where
  "default_toml_lines = default_toml_1 @ default_toml_2 @ default_toml_3 @ default_toml_4"

definition default_commented_toml :: string where
  "default_commented_toml = unlines default_toml_lines"

definition create_default_config :: "identity_env \<Rightarrow> (fs_step \<Rightarrow> bool) \<Rightarrow> path \<Rightarrow> unit run" where
  "create_default_config env ok p =
     in_order
       ((case parent p of
           Some d \<Rightarrow> [attempt ok (CreateDir d), chown_to_original_user env d] | None \<Rightarrow> []) @
        [attempt ok (WriteText p default_commented_toml), chown_to_original_user env p])"

definition init_dirs :: "cli_env \<Rightarrow> (fs_step \<Rightarrow> bool) \<Rightarrow> unit run" where
  "init_dirs env ok =
     (let p = user_path (cl_identity env) in
      if \<not> fs_exists (cl_fs env) p then create_default_config (cl_identity env) ok p else nothing)"

section \<open>The service\<close>

definition service_lines :: "string \<Rightarrow> string \<Rightarrow> u64 option \<Rightarrow> string list \<Rightarrow> string list" where
  "service_lines binary user wd read_write_paths = [
     ''[Unit]'',
     ''Description=fsmon - File System Change Monitor'',
     ''Documentation=man:fsmon(1)'',
     ''After=local-fs.target'',
     ''# Must live in [Unit]: systemd has ignored it in [Service] since v229, which'',
     ''# would silently leave the restart-rate policy at its defaults.'',
     ''StartLimitIntervalSec=300'',
     [],
     ''[Service]'',
     ''Type=notify'',
     ''User='' @ user,
     ''ExecStart='' @ binary @ '' daemon'',
     [],
     ''# fanotify_init() needs CAP_SYS_ADMIN for exactly one thing: clearing the'',
     ''# group'' @ [CHR 0x27] @ ''s FANOTIFY_UNPRIV flag. Without it the kernel blanks the pid of'',
     ''# events caused by other processes. The forked fanotify factory inherits'',
     ''# this capability; the main process drops it right after startup.'',
     ''AmbientCapabilities=CAP_SYS_ADMIN'',
     ''CapabilityBoundingSet=CAP_SYS_ADMIN'',
     ''NoNewPrivileges=yes'',
     [],
     ''Restart=always'',
     ''RestartSec=5'',
     ''RestartPreventExitStatus=2'',
     ''StartLimitBurst=5''] @
     (case wd of Some secs \<Rightarrow> [''WatchdogSec='' @ nat_string (unat secs), []] | None \<Rightarrow> [[]]) @ [
     ''# fsmon only writes its own store, its logs and its runtime socket.'',
     ''ProtectSystem=strict'',
     ''ProtectHome=read-only'',
     ''ReadWritePaths='' @ join_with CHR '' '' read_write_paths,
     ''ProtectKernelTunables=yes'',
     ''ProtectKernelModules=yes'',
     ''ProtectControlGroups=yes'',
     ''RestrictNamespaces=yes'',
     ''RestrictRealtime=yes'',
     ''LockPersonality=yes'',
     ''MemoryDenyWriteExecute=yes'',
     [],
     ''# fanotify_init/fanotify_mark belong to systemd'' @ [CHR 0x27] @ ''s @privileged group and are'',
     ''# NOT part of @system-service, so they must be added explicitly. Everything'',
     ''# else CAP_SYS_ADMIN could abuse (mount, setns, bpf, open_by_handle_at, ...)'',
     ''# stays filtered out.'',
     ''SystemCallFilter=@system-service fanotify_init fanotify_mark'',
     ''SystemCallArchitectures=native'',
     [],
     ''[Install]'',
     ''WantedBy=multi-user.target'']"

definition service_template :: "string \<Rightarrow> string \<Rightarrow> u64 option \<Rightarrow> string list \<Rightarrow> string" where
  "service_template binary user wd read_write_paths =
     unlines (service_lines binary user wd read_write_paths)"

text \<open>
  The interval times the multiplier, 2 when there is none; where overflow is checked the product
  may panic (\<open>None\<close>), otherwise it wraps.
\<close>

definition unit_watchdog :: "bool \<Rightarrow> config \<Rightarrow> u64 option option" where
  "unit_watchdog checked cfg =
     (case Option.bind (cf_watchdog cfg) wc_interval_secs of
        None \<Rightarrow> Some None
      | Some i \<Rightarrow>
          let m = (case Option.bind (cf_watchdog cfg) wc_multiplier of Some m \<Rightarrow> m | None \<Rightarrow> 2) in
          if checked \<and> 2 ^ 64 \<le> unat i * unat m then None else Some (Some (i * m)))"

definition unit_paths :: "identity_env \<Rightarrow> u32 \<Rightarrow> config \<Rightarrow> string list" where
  "unit_paths env uid cfg =
     (let dirs =
        (case parent (cf_monitored_path cfg) of Some d \<Rightarrow> [lossy (path_str d)] | None \<Rightarrow> []) @
        (case lc_path (cf_logging cfg) of Some p \<Rightarrow> [lossy (path_str p)] | None \<Rightarrow> []);
          runtime = (case ie_var env ''XDG_RUNTIME_DIR'' of
                       Some d \<Rightarrow> d | None \<Rightarrow> ''/run/user/'' @ nat_string (unat uid))
      in if runtime \<in> set dirs then dirs else dirs @ [runtime])"

definition unit_dir :: path where "unit_dir = path_of ''/etc/systemd/system''"
definition unit_path :: path where "unit_path = path_of ''/etc/systemd/system/fsmon.service''"

text \<open>\<open>None\<close> is the panic of the product; a reload that fails after it started is only a warning.\<close>

definition install_service ::
  "cli_env \<Rightarrow> bool \<Rightarrow> string option \<Rightarrow> (fs_step \<Rightarrow> bool) \<Rightarrow> unit run option" where
  "install_service env checked exe ok =
     (let ident = cl_identity env in
      if ie_euid ident \<noteq> 0 then Some (Inl NeedsRoot, [])
      else
        (case exe of
           None \<Rightarrow> Some (Inl NoExe, [])
         | Some binary \<Rightarrow>
             let uid = fst (resolve_uid_gid ident);
                 user_name = (case ie_user ident uid of
                                Some u \<Rightarrow> lossy (ue_name u) | None \<Rightarrow> nat_string (unat uid))
             in (case cli_config env of
                   Inl e \<Rightarrow> Some (Inl (InitConfig e), [])
                 | Inr cfg \<Rightarrow>
                     (case unit_watchdog checked cfg of
                        None \<Rightarrow> None
                      | Some wd \<Rightarrow>
                          let content = service_template (lossy binary) user_name wd
                                (unit_paths ident uid cfg)
                          in if fs_exists (cl_fs env) unit_path then Some nothing
                             else Some (in_order
                               [chown_to_original_user ident unit_dir,
                                attempt ok (WriteText unit_path content),
                                attempt ok DaemonReload])))))"

section \<open>Man pages and completions\<close>

definition home_dir :: "identity_env \<Rightarrow> string \<Rightarrow> path" where
  "home_dir env rel = path_of (guess_home env @ rel)"

definition generate_one_completion ::
  "cli_env \<Rightarrow> (fs_step \<Rightarrow> bool) \<Rightarrow> path \<Rightarrow> string \<Rightarrow> unit run" where
  "generate_one_completion env ok dir filename =
     (let p = path_join dir (path_of filename) in
      if fs_exists (cl_fs env) p then nothing
      else and_then (attempt ok (Generate p)) (chown_to_original_user (cl_identity env) p))"

definition completion_dir ::
  "cli_env \<Rightarrow> (fs_step \<Rightarrow> bool) \<Rightarrow> string \<Rightarrow> string \<Rightarrow> unit run" where
  "completion_dir env ok rel filename =
     (let dir = home_dir (cl_identity env) rel in
      in_order [attempt ok (CreateDir dir), chown_to_original_user (cl_identity env) dir,
                generate_one_completion env ok dir filename])"

definition generate_shell_completions :: "cli_env \<Rightarrow> (fs_step \<Rightarrow> bool) \<Rightarrow> unit run" where
  "generate_shell_completions env ok = in_order
     [completion_dir env ok ''/.config/fish/completions'' ''fsmon.fish'',
      completion_dir env ok ''/.local/share/bash-completion/completions'' ''fsmon'',
      completion_dir env ok ''/.local/share/zsh/site-functions'' ''_fsmon'',
      completion_dir env ok ''/.local/share/nushell/completions'' ''fsmon.nu'']"

text \<open>A page that is not named after the program is renamed; \<open>subs\<close> are the pages clap writes.\<close>

definition file_ext :: "string \<Rightarrow> string option" where
  "file_ext n =
     (if file_stem n = n then None else Some (drop (length (file_stem n) + 1) n))"

definition man_page :: "identity_env \<Rightarrow> (fs_step \<Rightarrow> bool) \<Rightarrow> path \<Rightarrow> unit run" where
  "man_page env ok p =
     (let name = (case file_name p of Some n \<Rightarrow> n | None \<Rightarrow> []);
          stem = (if utf8_ok (file_stem name) then file_stem name else [])
      in and_then (attempt ok (Generate p))
           (if \<not> prefix ''fsmon-'' stem then
              let ext = (case file_ext name of Some e \<Rightarrow> (if utf8_ok e then e else ''1'') | None \<Rightarrow> ''1'');
                  q = butlast p @ [Normal (''fsmon-'' @ stem @ ''.'' @ ext)]
              in and_then (attempt ok (Rename p q)) (chown_to_original_user env q)
            else chown_to_original_user env p))"

definition generate_man_pages :: "cli_env \<Rightarrow> (fs_step \<Rightarrow> bool) \<Rightarrow> path \<Rightarrow> path list \<Rightarrow> unit run" where
  "generate_man_pages env ok page subs =
     (let ident = cl_identity env; dir = home_dir ident ''/.local/share/man/man1'' in
      and_then (in_order [attempt ok (CreateDir dir), chown_to_original_user ident dir])
        (if fs_exists (cl_fs env) (path_join dir (path_of ''fsmon.1'')) then nothing
         else in_order ([attempt ok (Generate page), chown_to_original_user ident page] @
                        map (man_page ident ok) subs)))"

text \<open>\<open>None\<close> is the panic of the service's product.\<close>

definition cmd_init ::
  "cli_env \<Rightarrow> bool \<Rightarrow> string option \<Rightarrow> path \<Rightarrow> path list \<Rightarrow> (fs_step \<Rightarrow> bool) \<Rightarrow> bool \<Rightarrow> bool \<Rightarrow>
     unit run option" where
  "cmd_init env checked exe page subs ok service completions =
     map_option
       (\<lambda>installed. in_order
          ([init_dirs env ok, installed] @
           (if completions then [generate_man_pages env ok page subs, generate_shell_completions env ok]
            else [])))
       (if service \<and> fst (init_dirs env ok) = Inr () then install_service env checked exe ok
        else Some nothing)"

section \<open>Changing to a directory\<close>

datatype cd_target = CdLog | CdMonitored | CdConfig

definition from_args :: "bool \<Rightarrow> bool \<Rightarrow> cd_target" where
  "from_args monitored config = (if config then CdConfig else if monitored then CdMonitored else CdLog)"

definition cd_dir :: "cli_env \<Rightarrow> config \<Rightarrow> cd_target \<Rightarrow> path" where
  "cd_dir env cfg target =
     (case target of
        CdConfig \<Rightarrow>
          (case parent (user_path (cl_identity env)) of
             Some d \<Rightarrow> d | None \<Rightarrow> home_dir (cl_identity env) ''/.config/fsmon'')
      | CdMonitored \<Rightarrow>
          (case parent (cf_monitored_path cfg) of Some d \<Rightarrow> d | None \<Rightarrow> cf_monitored_path cfg)
      | CdLog \<Rightarrow>
          (case lc_path (cf_logging cfg) of
             Some p \<Rightarrow> p | None \<Rightarrow> home_dir (cl_identity env) ''/.local/state/fsmon''))"

text \<open>
  \<open>status\<close> is how the shell ended: \<open>Some c\<close> with a code, \<open>None\<close> by a signal. The result is the
  code the process exits with at once, if any.
\<close>

definition cmd_cd ::
  "cli_env \<Rightarrow> (fs_step \<Rightarrow> bool) \<Rightarrow> string option \<Rightarrow> int option \<Rightarrow> cd_target \<Rightarrow> int option run" where
  "cmd_cd env ok shell_var status target =
     (case cli_config env of
        Inl e \<Rightarrow> (Inl (InitConfig e), [])
      | Inr cfg \<Rightarrow>
          let dir = cd_dir env cfg target;
              shell = (case shell_var of Some s \<Rightarrow> s | None \<Rightarrow> ''/bin/sh'')
          in and_then
               (in_order
                  ((if \<not> fs_exists (cl_fs env) dir
                    then [attempt ok (CreateDir dir), chown_to_original_user (cl_identity env) dir] else []) @
                   [attempt ok (RunShell shell dir)]))
               (Inr (if status = Some 0 then None
                     else Some (case status of Some c \<Rightarrow> c | None \<Rightarrow> - 1)), []))"

section \<open>What the commands leave behind\<close>

lemma in_order_simps [simp]:
  "and_then nothing b = b" "and_then (Inl e, s) b = (Inl e, s)"
  "and_then (Inr (), s) b = (fst b, s @ snd b)"
  by (simp_all add: and_then_def nothing_def)

lemma snd_and_then: "set (snd (and_then a b)) \<subseteq> set (snd a) \<union> set (snd b)"
  by (auto simp: and_then_def split: sum.splits prod.splits)

lemma snd_in_order: "set (snd (in_order rs)) \<subseteq> (\<Union>r\<in>set rs. set (snd r))"
proof (induction rs)
  case (Cons r rs)
  then show ?case using snd_and_then[of r "in_order rs"] by auto
qed (simp add: nothing_def)

text \<open>What is written or generated.\<close>

fun written :: "fs_step \<Rightarrow> path option" where
  "written (WriteText p _) = Some p"
| "written (Generate p) = Some p"
| "written _ = None"

definition keeps_files :: "cli_env \<Rightarrow> 'a run \<Rightarrow> bool" where
  "keeps_files env r \<longleftrightarrow> (\<forall>s \<in> set (snd r). \<forall>p. written s = Some p \<longrightarrow> \<not> fs_exists (cl_fs env) p)"

lemma keeps_simps [simp]:
  "keeps_files env nothing" "keeps_files env (chown_to_original_user i p)"
  "keeps_files env (attempt ok s) \<longleftrightarrow> (\<forall>p. written s = Some p \<longrightarrow> \<not> fs_exists (cl_fs env) p)"
  by (simp_all add: keeps_files_def nothing_def chown_to_original_user_def attempt_def)

lemma keeps_and_then: "keeps_files env a \<Longrightarrow> keeps_files env b \<Longrightarrow> keeps_files env (and_then a b)"
  using snd_and_then[of a b] unfolding keeps_files_def by blast

lemma keeps_in_order: "(\<And>r. r \<in> set rs \<Longrightarrow> keeps_files env r) \<Longrightarrow> keeps_files env (in_order rs)"
  using snd_in_order[of rs] unfolding keeps_files_def by blast

lemma init_keeps: "keeps_files env (init_dirs env ok)"
  by (auto simp: init_dirs_def create_default_config_def Let_def split: option.splits
      intro!: keeps_and_then)

lemma completions_keep: "keeps_files env (generate_shell_completions env ok)"
  unfolding generate_shell_completions_def
  by (rule keeps_in_order)
    (auto simp: completion_dir_def generate_one_completion_def Let_def
      intro!: keeps_and_then)

text \<open>An installation that takes a step, with what it writes.\<close>

definition installation :: "identity_env \<Rightarrow> (fs_step \<Rightarrow> bool) \<Rightarrow> string \<Rightarrow> unit run" where
  "installation ident ok content = in_order
     [chown_to_original_user ident unit_dir, attempt ok (WriteText unit_path content),
      attempt ok DaemonReload]"

lemma install_cases:
  assumes "install_service env checked exe ok = Some r"
  obtains "snd r = []"
  | binary user wd uid cfg where "ie_euid (cl_identity env) = 0" "cli_config env = Inr cfg"
      "\<not> fs_exists (cl_fs env) unit_path"
      "r = installation (cl_identity env) ok
         (service_template binary user wd (unit_paths (cl_identity env) uid cfg))"
proof (cases "snd r = []")
  case False
  from assms False have root: "ie_euid (cl_identity env) = 0"
    by (auto simp: install_service_def Let_def split: if_splits)
  from assms False root obtain binary where exe: "exe = Some binary"
    by (cases exe) (auto simp: install_service_def Let_def)
  from assms False root exe obtain cfg where cfg: "cli_config env = Inr cfg"
    by (cases "cli_config env") (auto simp: install_service_def Let_def)
  from assms root exe cfg obtain wd where wd: "unit_watchdog checked cfg = Some wd"
    by (cases "unit_watchdog checked cfg") (auto simp: install_service_def Let_def)
  have new: "\<not> fs_exists (cl_fs env) unit_path"
    using assms False root exe cfg wd
    by (auto simp: install_service_def Let_def nothing_def)
  let ?uid = "fst (resolve_uid_gid (cl_identity env))"
  have "r = installation (cl_identity env) ok
     (service_template (lossy binary)
        (case ie_user (cl_identity env) ?uid of Some u \<Rightarrow> lossy (ue_name u) | None \<Rightarrow> nat_string (unat ?uid))
        wd (unit_paths (cl_identity env) ?uid cfg))"
    using assms root exe cfg wd new
    by (simp only: install_service_def installation_def Let_def refl if_False if_True not_not
        option.case sum.case option.inject simp_thms)
  with root cfg new show ?thesis by (rule that(2))
qed (rule that(1))

lemma installation_steps:
  "snd (installation ident ok content) =
     take (if ok (WriteText unit_path content) then 3 else 2)
       [Chown unit_dir (fst (resolve_uid_gid ident)) (snd (resolve_uid_gid ident)),
        WriteText unit_path content, DaemonReload]"
  "fst (installation ident ok content) = Inr () \<longleftrightarrow>
     ok (WriteText unit_path content) \<and> ok DaemonReload"
  by (simp_all add: installation_def chown_to_original_user_def attempt_def nothing_def and_then_def)

lemma service_keeps: "install_service env checked exe ok = Some r \<Longrightarrow> keeps_files env r"
  by (erule install_cases) (auto simp: keeps_files_def installation_steps take_Cons')

text \<open>
  Without completions, fsmon init writes no file that exists: neither the configuration nor
  an installed unit is overwritten. The same holds for the shell completions.
\<close>

theorem init_overwrites_nothing:
  assumes "cmd_init env checked exe page subs ok service False = Some r"
  shows "keeps_files env r \<and> keeps_files env (generate_shell_completions env ok)"
  using assms
  by (auto simp: cmd_init_def completions_keep init_keeps service_keeps
      intro!: keeps_and_then split: if_splits)

section \<open>Who owns the unit directory\<close>

text \<open>
  C14: Installing the service takes no step at all, or it is root and its first step gives the
  directory of all system units, /etc/systemd/system, to the user behind sudo; the unit is
  written after that, and no later step takes the directory back.
\<close>

theorem unit_directory_given_away:
  assumes "install_service env checked exe ok = Some (r, steps)"
  shows "steps = [] \<or>
    (ie_euid (cl_identity env) = 0 \<and>
     (\<exists>content. steps = take (length steps)
        [Chown unit_dir (fst (resolve_uid_gid (cl_identity env))) (snd (resolve_uid_gid (cl_identity env))),
         WriteText unit_path content, DaemonReload] \<and> 2 \<le> length steps \<and>
        (r = Inr () \<longrightarrow> 3 \<le> length steps)))"
  using assms
proof (rule install_cases)
  fix binary user wd uid cfg
  let ?c = "service_template binary user wd (unit_paths (cl_identity env) uid cfg)"
  assume root: "ie_euid (cl_identity env) = 0"
    and eq: "(r, steps) = installation (cl_identity env) ok ?c"
  from eq have "steps = snd (installation (cl_identity env) ok ?c)"
    and "r = fst (installation (cl_identity env) ok ?c)" by (metis snd_conv, metis fst_conv)
  with root show ?thesis by (auto simp: installation_steps intro!: exI[of _ ?c])
qed simp

section \<open>Lines of the unit\<close>

lemma split_on_append: "split_on d (x @ d # y) = split_on d x @ split_on d y"
proof (induction x)
  case (Cons c x)
  show ?case
  proof (cases "c = d")
    case False
    obtain w ws where "split_on d x = w # ws" by (cases "split_on d x") auto
    with Cons False show ?thesis by simp
  qed (use Cons in simp)
qed simp

lemma split_on_word: "d \<notin> set l \<Longrightarrow> split_on d l = [l]"
  by (induction l) auto

lemma line_between:
  assumes "NL \<notin> set l" and "l = [] \<or> last l \<noteq> CHR 0x0D"
  shows "l \<in> set (str_lines (x @ NL # l @ NL # y))"
proof -
  have "split_on NL (x @ NL # l @ NL # y) = split_on NL x @ l # split_on NL y"
    using split_on_append[of NL x "l @ NL # y"] split_on_append[of NL l y]
    by (simp add: split_on_word[OF assms(1)])
  moreover have "chomp_cr l = l" using assms(2) by (auto simp: chomp_cr_def)
  ultimately show ?thesis by (force simp: str_lines_def Let_def butlast_append image_iff)
qed

lemma join_with_part: "w \<in> set ws \<Longrightarrow> \<exists>x y. join_with d ws = x @ w @ y"
proof -
  have *: "\<exists>x y. concat (map (\<lambda>v. d # v) vs) = x @ w @ y" if "w \<in> set vs" for vs
  proof -
    from that obtain as bs where "vs = as @ w # bs" by (auto simp: in_set_conv_decomp)
    then have "concat (map (\<lambda>v. d # v) vs) =
        (concat (map (\<lambda>v. d # v) as) @ [d]) @ w @ concat (map (\<lambda>v. d # v) bs)" by simp
    then show ?thesis by blast
  qed
  assume "w \<in> set ws"
  then consider vs where "ws = w # vs" | v vs where "ws = v # vs" "w \<in> set vs" by (cases ws) auto
  then show ?thesis
  proof cases
    case 1
    then have "join_with d ws = [] @ w @ concat (map (\<lambda>v. d # v) vs)" by (simp add: join_with_def)
    then show ?thesis by blast
  next
    case 2
    from *[OF 2(2)] obtain x y where "concat (map (\<lambda>v. d # v) vs) = x @ w @ y" by blast
    then have "join_with d ws = (v @ x) @ w @ y" by (simp add: join_with_def 2(1))
    then show ?thesis by blast
  qed
qed

lemma unlines_part: "w \<in> set ws \<Longrightarrow> \<exists>x y. unlines ws = x @ w @ NL # y"
  by (metis in_set_conv_decomp unlines_simps(2,3) append.assoc append_Cons)

lemma unit_paths_part:
  assumes "lc_path (cf_logging cfg) = Some p" and "lossy (path_str p) = a @ NL # l @ NL # b"
  shows "\<exists>x y. service_template binary user wd (unit_paths env uid cfg) = x @ NL # l @ NL # y"
proof -
  let ?rw = "unit_paths env uid cfg"
  have "lossy (path_str p) \<in> set ?rw"
    using assms(1) by (auto simp: unit_paths_def Let_def)
  with join_with_part obtain x y where "join_with CHR '' '' ?rw = x @ lossy (path_str p) @ y"
    by meson
  moreover have "''ReadWritePaths='' @ join_with CHR '' '' ?rw \<in> set (service_lines binary user wd ?rw)"
    by (simp add: service_lines_def)
  with unlines_part obtain x' y' where
    "service_template binary user wd ?rw = x' @ (''ReadWritePaths='' @ join_with CHR '' '' ?rw) @ NL # y'"
    unfolding service_template_def by meson
  ultimately have "service_template binary user wd ?rw =
      (x' @ ''ReadWritePaths='' @ x @ a) @ NL # l @ NL # (b @ y @ NL # y')"
    using assms(2) by simp
  then show ?thesis by blast
qed

text \<open>
  C22: The unit that root installs takes the log directory from the configuration of the user behind
  sudo as it is: any line the user puts between two newlines into that path becomes a line of
  the installed unit.
\<close>

theorem log_path_adds_unit_lines:
  assumes "cli_config env = Inr cfg" and "lc_path (cf_logging cfg) = Some p"
    and "lossy (path_str p) = a @ NL # l @ NL # b"
    and "NL \<notin> set l" and "l = [] \<or> last l \<noteq> CHR 0x0D"
    and "install_service env checked exe ok = Some (r, steps)"
    and "WriteText unit_path content \<in> set steps"
  shows "l \<in> set (str_lines content)"
proof -
  obtain binary user wd uid where
    "content = service_template binary user wd (unit_paths (cl_identity env) uid cfg)"
    using assms(6)
  proof (rule install_cases)
    fix binary user wd uid cfg'
    let ?c = "service_template binary user wd (unit_paths (cl_identity env) uid cfg')"
    assume "cli_config env = Inr cfg'" and "(r, steps) = installation (cl_identity env) ok ?c"
    then have "cfg' = cfg" and "steps = snd (installation (cl_identity env) ok ?c)"
      using assms(1) by (simp, metis snd_conv)
    with assms(7) that[of binary user wd uid] show ?thesis
      by (auto simp: installation_steps take_Cons' split: if_splits)
  qed (use assms(7) in simp)
  with unit_paths_part[OF assms(2,3)] obtain x y where "content = x @ NL # l @ NL # y" by meson
  with line_between[OF assms(4,5)] show ?thesis by simp
qed

section \<open>The file that init writes\<close>

text \<open>
  It is not read as one that holds comments only: the settings of the two paths are not commented
  out, so the TOML reader gets it.
\<close>

lemma default_config_is_parsed:
  assumes "utf8_ok default_commented_toml"
  shows "load_config from_toml (Some (Some default_commented_toml)) =
    (case from_toml default_commented_toml of Inr cfg \<Rightarrow> Inr cfg | Inl e \<Rightarrow> Inl (ConfigInvalid e))"
proof -
  let ?l = "''[monitored]''"
  have eq: "default_toml_lines = (take 11 default_toml_1 @ [[]]) @ ?l # drop 13 default_toml_1 @
      default_toml_2 @ default_toml_3 @ default_toml_4"
    by (simp add: default_toml_lines_def default_toml_1_def)
  have "default_commented_toml = unlines (take 11 default_toml_1) @ NL # ?l @ NL #
      unlines (drop 13 default_toml_1 @ default_toml_2 @ default_toml_3 @ default_toml_4)"
    unfolding default_commented_toml_def eq by simp
  then obtain x y where "default_commented_toml = x @ NL # ?l @ NL # y" by blast
  then have "?l \<in> set (str_lines default_commented_toml)"
    using line_between[of ?l x y] by simp
  moreover have "str_trim ?l \<noteq> [] \<and> \<not> prefix ''#'' (str_trim ?l)"
    by code_simp
  ultimately have "\<not> is_comment_only default_commented_toml"
    by (auto simp: is_comment_only_def list_all_iff Let_def)
  with assms show ?thesis by (simp add: load_config_def)
qed

section \<open>An example\<close>

text \<open>Root by \<^verbatim>\<open>sudo\<close> of the user 1000, whose configuration has a log directory with two newlines.\<close>

definition eve_config :: config where
  "eve_config = default_config\<lparr>cf_logging := (cf_logging default_config)\<lparr>
     lc_path := Some [RootDir, Normal (''x'' @ NL # ''User=root'' @ [NL])]\<rparr>\<rparr>"

definition sudo_env :: cli_env where
  "sudo_env =
     \<lparr>cl_identity = \<lparr>ie_var = [''SUDO_UID'' \<mapsto> ''1000''],
        ie_parse_u32 = (\<lambda>s. if s = ''1000'' then Some 1000 else None),
        ie_user = [1000 \<mapsto> \<lparr>ue_name = ''eve'', ue_gid = 1000, ue_home = ''/home/eve''\<rparr>],
        ie_loginuid_text = None, ie_owner = \<lambda>_. None, ie_euid = 0, ie_egid = 0\<rparr>,
      cl_from_toml = (\<lambda>_. Inr eve_config), cl_config_file = Some (Some ''x''),
      cl_fs = \<lparr>fs_exists = \<lambda>_. False, fs_is_dir = \<lambda>_. False, fs_canonicalize = \<lambda>_. None,
        fs_is_symlink = \<lambda>_. None, fs_dev = \<lambda>_. None, fs_open_dir = \<lambda>_. False, fs_home = None\<rparr>,
      cl_clean = \<lambda>p. p, cl_cwd = None, cl_mkdir_ok = True, cl_readable = True,
      cl_from_json = \<lambda>_. None, cl_to_json = \<lambda>_. None,
      cl_save = \<lambda>_. \<lparr>sv_mkdir_ok = True, sv_create_ok = True, sv_write_ok = \<lambda>_. True,
        sv_sync_ok = True, sv_rename_ok = True\<rparr>,
      cl_send = \<lambda>_. Inl (Permanent []), cl_overflow_checks = False\<rparr>"

lemma sudo_cli: "cli_config sudo_env = Inr (resolve_paths ''/home/eve'' eve_config)"
proof -
  have "guess_home (cl_identity sudo_env) = ''/home/eve''"
    by (simp add: guess_home_def sudo_uid_def resolve_home_def sudo_env_def)
  moreover have "utf8_ok ''x'' \<and> \<not> is_comment_only ''x''" by code_simp
  ultimately show ?thesis by (simp add: cli_config_def load_config_def sudo_env_def)
qed

lemma sudo_install:
  "\<exists>c. install_service sudo_env False (Some ''/usr/bin/fsmon'') (\<lambda>_. True) =
    Some (Inr (), [Chown unit_dir 1000 1000, WriteText unit_path c, DaemonReload])"
proof -
  have "resolve_uid_gid (cl_identity sudo_env) = (1000, 1000)"
    by (simp add: resolve_uid_gid_def sudo_uid_def sudo_gid_def sudo_env_def)
  moreover have "ie_euid (cl_identity sudo_env) = 0" "\<not> fs_exists (cl_fs sudo_env) unit_path"
    by (simp_all add: sudo_env_def)
  moreover have "unit_watchdog False (resolve_paths ''/home/eve'' eve_config) = Some None"
    by (simp add: unit_watchdog_def resolve_paths_def eve_config_def default_config_def)
  ultimately show ?thesis
    by (simp add: install_service_def sudo_cli Let_def chown_to_original_user_def attempt_def
        nothing_def and_then_def)
qed

theorem unit_directory_given_away_witness:
  "\<exists>r steps. install_service sudo_env False (Some ''/usr/bin/fsmon'') (\<lambda>_. True) = Some (r, steps) \<and>
     steps \<noteq> [] \<and> hd steps = Chown unit_dir 1000 1000"
proof -
  obtain c where c: "install_service sudo_env False (Some ''/usr/bin/fsmon'') (\<lambda>_. True) =
      Some (Inr (), [Chown unit_dir 1000 1000, WriteText unit_path c, DaemonReload])"
    using sudo_install by blast
  from unit_directory_given_away[OF c] c show ?thesis by simp
qed

theorem log_path_adds_unit_lines_witness:
  "\<exists>r c u g. install_service sudo_env False (Some ''/usr/bin/fsmon'') (\<lambda>_. True) =
      Some (r, [Chown unit_dir u g, WriteText unit_path c, DaemonReload]) \<and>
     ''User=root'' \<in> set (str_lines c)"
proof -
  obtain c where c: "install_service sudo_env False (Some ''/usr/bin/fsmon'') (\<lambda>_. True) =
      Some (Inr (), [Chown unit_dir 1000 1000, WriteText unit_path c, DaemonReload])"
    using sudo_install by blast
  let ?p = "expand_path ''/home/eve'' [RootDir, Normal (''x'' @ NL # ''User=root'' @ [NL])]"
  have p: "lc_path (cf_logging (resolve_paths ''/home/eve'' eve_config)) = Some ?p"
    by (simp add: resolve_paths_def eve_config_def)
  have t: "lossy (path_str ?p) = ''/x'' @ NL # ''User=root'' @ NL # []"
    by code_simp
  have "''User=root'' \<in> set (str_lines c)"
    by (rule log_path_adds_unit_lines[OF sudo_cli p t _ _ c]) simp_all
  with c show ?thesis by blast
qed

theorem init_overwrites_nothing_witness:
  "\<exists>r. cmd_init sudo_env False (Some ''/usr/bin/fsmon'') [] [] (\<lambda>_. True) True False = Some r \<and>
     snd r \<noteq> [] \<and> keeps_files sudo_env r"
proof -
  obtain c where "install_service sudo_env False (Some ''/usr/bin/fsmon'') (\<lambda>_. True) =
      Some (Inr (), [Chown unit_dir 1000 1000, WriteText unit_path c, DaemonReload])"
    using sudo_install by blast
  moreover have "fst (init_dirs sudo_env (\<lambda>_. True)) = Inr ()"
    by (auto simp: init_dirs_def create_default_config_def attempt_def and_then_def nothing_def
        chown_to_original_user_def Let_def split: option.split)
  ultimately obtain r where r: "cmd_init sudo_env False (Some ''/usr/bin/fsmon'') [] [] (\<lambda>_. True) True False = Some r"
    and "snd r \<noteq> []"
    by (cases "init_dirs sudo_env (\<lambda>_. True)") (auto simp: cmd_init_def and_then_def nothing_def)
  with init_overwrites_nothing[OF r] show ?thesis by blast
qed

end
