(* ===== verification/Pipeline.thy ===== *)
theory Pipeline
  imports Writer_Props Log_Clean Daemon_Loop
begin

text \<open>
  From the event loop to a query: what \<^verbatim>\<open>monitor.rs\<close> publishes, \<^verbatim>\<open>monitor/file_writer.rs\<close> appends to
  the logs and \<^verbatim>\<open>query/core.rs\<close> reads back.
\<close>

section \<open>An undisturbed writer\<close>

text \<open>Messages whose logs open, whose writes are accepted and whose logs stay.\<close>

definition undisturbed :: "writer_msg \<Rightarrow> bool" where
  "undisturbed m \<longleftrightarrow> logs_open m \<and> writes_accepted m"

lemma undisturbed_event:
  assumes opens: "\<forall>n p. io_open io n p = Opened \<or> io_open io n p = Missing True" and io: "io_full io"
    and w: "written_since jsonl fw0 ys fw" and empty: "fw_disk_buf fw = []"
  shows "written_since jsonl fw0 (ys @ [x]) (snd (write_event io jsonl x fw)) \<and>
    fw_disk_buf (snd (write_event io jsonl x fw)) = []"
proof -
  define fwa where "fwa = (if \<not> fw_healthy fw \<and> RETRY_SECS \<le> io_now io - fw_last_check fw
                 then flush_disk_buf io jsonl fw else fw)"
  have same: "fw_disk fwa = fw_disk fw" "fw_handles fwa = fw_handles fw" "fw_log_dir fwa = fw_log_dir fw"
    "fw_disk_buf fwa = []"
    using empty by (simp_all add: fwa_def flush_disk_buf_def)
  have wa: "written_since jsonl fw0 ys fwa" by (rule written_cong [OF w same(1-3)])
  then have con: "consistent fwa" by (simp add: written_since_def)
  let ?p = "log_path_of fw (snd x)"
  obtain ok fw1 where g: "get_or_open io ?p fwa = (ok, fw1)" by (cases "get_or_open io ?p fwa")
  have ok: ok using get_or_open_opened [OF opens, of ?p fwa] by (simp add: g)
  note got = get_or_open_appends [OF io con g, of ?p]
  from got have ap1: "appends ?p [] fwa fw1" by (elim conjE)
  then have con1: "consistent fw1" by (simp add: appends_def)
  from got ok obtain h where h: "map_of (fw_handles fw1) ?p = Some h" by blast
  obtain ok2 fw2 where wl: "write_line io ?p (jsonl (fst x)) fw1 = (ok2, fw2)"
    by (cases "write_line io ?p (jsonl (fst x)) fw1")
  with write_line_appends [OF io con1 h, of "jsonl (fst x)"]
  have ok2 and "appends ?p (jsonl (fst x) @ [NL]) fw1 fw2" by simp_all
  from appends_other [OF ap1 this(2)]
  have ap2: "appends (log_path_of fwa (snd x)) (jsonl (fst x) @ [NL]) fwa fw2"
    by (simp add: log_path_of_def same(3))
  let ?fw = "fw2\<lparr>fw_dirty := List.insert ?p (fw_dirty fw2), fw_healthy := True\<rparr>"
  have "written_since jsonl fw0 (ys @ [x]) ?fw"
    by (rule written_cong [OF written_one [OF wa ap2]]) simp_all
  moreover have "fw_disk_buf ?fw = []" using ap2 same(4) by (simp add: appends_def)
  moreover have "snd (write_event io jsonl x fw) = ?fw"
    using g wl ok \<open>ok2\<close> by (simp add: write_event_def Let_def fwa_def [symmetric])
  ultimately show ?thesis by simp
qed

lemma undisturbed_steps:
  assumes "list_all undisturbed msgs" and "written_since jsonl fw0 ys fw" and "fw_disk_buf fw = []"
  shows "written_since jsonl fw0 (ys @ events_of msgs) (fold (writer_step jsonl) msgs fw) \<and>
    fw_disk_buf (fold (writer_step jsonl) msgs fw) = []"
  using assms
proof (induction msgs arbitrary: ys fw)
  case (Cons m msgs)
  show ?case
  proof (cases m)
    case (Event io x)
    with Cons.prems undisturbed_event [of io jsonl fw0 ys fw x]
    have "written_since jsonl fw0 (ys @ [x]) (writer_step jsonl m fw)" "fw_disk_buf (writer_step jsonl m fw) = []"
      by (simp_all add: undisturbed_def writer_step_def)
    from Cons.IH [OF _ this] Cons.prems Event show ?thesis by simp
  next
    case (FlushTick io)
    have ap: "appends [] [] fw (flush_and_sync_dirty_logs io fw)"
      using flush_dirty_logs_appends [of io fw] Cons.prems FlushTick
      by (simp add: undisturbed_def written_since_def)
    have "written_since jsonl fw0 ys (writer_step jsonl m fw)"
      using written_nothing [OF Cons.prems(2) ap] FlushTick by (simp add: writer_step_def)
    moreover have "fw_disk_buf (writer_step jsonl m fw) = []"
      using ap Cons.prems(3) FlushTick by (simp add: writer_step_def appends_def)
    ultimately show ?thesis using Cons.IH [of ys "writer_step jsonl m fw"] Cons.prems(1) FlushTick by simp
  qed (use Cons in \<open>simp_all add: undisturbed_def writer_step_def\<close>)
qed simp

lemma undisturbed_run:
  assumes "list_all undisturbed msgs" and io: "io_full io" and "consistent fw" and "fw_disk_buf fw = []"
  shows "file_text (writer_run jsonl msgs io fw) p =
      log_view fw p @ lines_for jsonl (fw_log_dir fw) p (events_of msgs) \<and>
    fw_log_dir (writer_run jsonl msgs io fw) = fw_log_dir fw"
proof -
  let ?fw1 = "fold (writer_step jsonl) msgs fw"
  let ?fw2 = "flush_and_sync_dirty_logs io ?fw1"
  have "written_since jsonl fw [] fw" using assms(3) by (simp add: written_since_def lines_for_def)
  from undisturbed_steps [OF assms(1) this assms(4)]
  have w1: "written_since jsonl fw (events_of msgs) ?fw1" by simp
  have w2: "written_since jsonl fw (events_of msgs) ?fw2"
    by (rule written_nothing [OF w1 flush_dirty_logs_appends [OF io]]) (use w1 in \<open>simp add: written_since_def\<close>)
  then have con2: "consistent ?fw2" by (simp add: written_since_def)
  from flush_all_flushes [OF io con2, of p]
  have ap: "appends p [] ?fw2 (flush_all io ?fw2)" and un: "unflushed (flush_all io ?fw2) = {}" by simp_all
  have "written_since jsonl fw (events_of msgs) (writer_run jsonl msgs io fw)"
    unfolding writer_run_def by (rule written_nothing [OF w2 ap])
  then show ?thesis
    using flushed_view [of "writer_run jsonl msgs io fw" p] un
    by (simp add: written_since_def writer_run_def)
qed

section \<open>The log directory a query sees\<close>

definition seen_by_query :: "file_writer \<Rightarrow> log_dir_view" where
  "seen_by_query fw =
     \<lparr>ld_exists = True,
      ld_listing = Some (remdups (filter (\<lambda>p. parent p = Some (fw_log_dir fw)) (map fst (ld_names (fw_disk fw))))),
      ld_file = (\<lambda>p. if p \<in> fst ` set (ld_names (fw_disk fw)) then Some (Some (file_text fw p)) else None),
      ld_is_file = (\<lambda>p. p \<in> fst ` set (ld_names (fw_disk fw)))\<rparr>"

text \<open>The log of a published event, and the events published for a log.\<close>

definition log_for :: "path \<Rightarrow> file_event \<times> string \<Rightarrow> path" where
  "log_for dir x = path_join dir (path_of (cmd_to_log_name (snd x)))"

definition published_to :: "path \<Rightarrow> path \<Rightarrow> (file_event \<times> string) list \<Rightarrow> file_event list" where
  "published_to dir p xs = map fst (filter (\<lambda>x. log_for dir x = p) xs)"

lemma lines_for_log: "lines_for jsonl dir p xs = log_of jsonl (published_to dir p xs)"
  by (simp add: lines_for_def published_to_def log_for_def unlines_def comp_def)

lemma log_for_name: "log_for dir x = dir @ [Normal (cmd_to_log_name (snd x))]"
  by (simp add: log_for_def log_path)

lemma log_for_parent [simp]: "parent (log_for dir x) = Some dir"
  by (simp add: log_for_name parent_def)

lemma log_for_suffix: "suffix ''_log.jsonl'' (case file_name (log_for dir x) of Some n \<Rightarrow> n | None \<Rightarrow> [])"
  by (simp add: log_for_name file_name_def cmd_to_log_name_def suffix_def)

text \<open>A writer on an empty directory, and what its logs hold, as a query needs it.\<close>

definition new_writer :: "path \<Rightarrow> metrics \<Rightarrow> nat \<Rightarrow> file_writer" where
  "new_writer dir mt now = writer_new dir mt \<lparr>ld_names = [], ld_data = \<lambda>_. [], ld_next = 0\<rparr> now"

lemma undisturbed_logs:
  assumes "list_all undisturbed msgs" and "io_full io"
    and fw: "fw = writer_run jsonl msgs io (new_writer dir mt now)"
  shows "file_text fw p = log_of jsonl (published_to dir p (events_of msgs))"
    and "p \<notin> fst ` set (ld_names (fw_disk fw)) \<Longrightarrow> published_to dir p (events_of msgs) = []"
    and "fw_log_dir fw = dir"
proof -
  have "consistent (new_writer dir mt now)" "fw_disk_buf (new_writer dir mt now) = []"
    "log_view (new_writer dir mt now) p = []" "fw_log_dir (new_writer dir mt now) = dir"
    by (simp_all add: new_writer_def writer_new_def consistent_def log_view_def)
  with undisturbed_run [OF assms(1,2), of "new_writer dir mt now" jsonl p]
  show content: "file_text fw p = log_of jsonl (published_to dir p (events_of msgs))" and "fw_log_dir fw = dir"
    by (simp_all add: fw lines_for_log)
  assume "p \<notin> fst ` set (ld_names (fw_disk fw))"
  then have "map_of (ld_names (fw_disk fw)) p = None" by (simp add: map_of_eq_None_iff)
  then have "file_text fw p = []" by (simp add: file_text_def)
  with content have "log_of jsonl (published_to dir p (events_of msgs)) = []" by simp
  then show "published_to dir p (events_of msgs) = []" by (simp add: unlines_def)
qed

section \<open>Queries\<close>

abbreviation selected :: "query \<Rightarrow> file_event \<Rightarrow> bool" where
  "selected q e \<equiv> path_passes q e \<and> list_all (\<lambda>f. time_matches f (ev_time e)) (q_time_filters q)"

lemma execute_on_logs:
  assumes "resolve_log_files v q = Inr files"
    and "\<And>p. p \<in> set files \<Longrightarrow> ld_file v p = Some (Some (log_of to_json (evs p))) \<and>
      list_all (event_json_ok to_json from_json) (evs p) \<and> sorted (map ev_time (evs p))"
  shows "execute from_json v q = Inr (filter (selected q) (concat (map evs files)))"
proof -
  have "read_all from_json v q files = Inr (filter (passes (q_time_filters q)) (concat (map evs files)))"
    using assms(2) by (rule read_all_logs)
  then show ?thesis using assms(1) by (cases files) (simp_all add: execute_def conj_commute)
qed

text \<open>Each published event is in the log of its process and in no other.\<close>

lemma mset_published:
  assumes "distinct files" and "\<And>x. x \<in> set xs \<Longrightarrow> log_for dir x \<in> set files"
  shows "mset (concat (map (\<lambda>p. published_to dir p xs) files)) = mset (map fst xs)"
proof -
  have "mset (concat (map (\<lambda>p. published_to dir p xs) files)) = (\<Sum>p\<in>set files. mset (published_to dir p xs))"
    using assms(1) by (simp add: mset_concat sum_list_distinct_conv_sum_set comp_def)
  also have "\<dots> = mset (map fst xs)"
    using assms(2)
  proof (induction xs)
    case (Cons x xs)
    have "(\<Sum>p\<in>set files. mset (published_to dir p (x # xs))) =
        (\<Sum>p\<in>set files. (if p = log_for dir x then {#fst x#} else {#}) + mset (published_to dir p xs))"
      by (rule sum.cong) (auto simp: published_to_def)
    also have "\<dots> = {#fst x#} + mset (map fst xs)"
      using Cons by (simp add: sum.distrib sum.delta)
    finally show ?case by simp
  qed (simp add: published_to_def)
  finally show ?thesis .
qed

lemma query_finds_published:
  assumes "events_of msgs = dm_published d" and "list_all undisturbed msgs" and "io_full io"
    and "q_log_dir q = dir"
    and "list_all (\<lambda>x. event_json_ok jsonl from_json (fst x)) (dm_published d)"
    and "\<And>p. sorted (map ev_time (published_to dir p (dm_published d)))"
  shows "\<exists>res. execute from_json (seen_by_query (writer_run jsonl msgs io (new_writer dir mt now))) q = Inr res \<and>
    (case q_cmd_filter q of
       None \<Rightarrow> mset res = mset (filter (selected q) (map fst (dm_published d)))
     | Some cmd \<Rightarrow> res = filter (selected q)
         (map fst (filter (\<lambda>x. cmd_to_log_name (snd x) = cmd_to_log_name cmd) (dm_published d))))"
proof -
  define fw where "fw = writer_run jsonl msgs io (new_writer dir mt now)"
  let ?xs = "dm_published d" and ?v = "seen_by_query fw"
  note logs = undisturbed_logs [OF assms(2,3) fw_def, unfolded assms(1)]
  have stored: "ld_file ?v p = Some (Some (log_of jsonl (published_to dir p ?xs))) \<and>
      list_all (event_json_ok jsonl from_json) (published_to dir p ?xs) \<and>
      sorted (map ev_time (published_to dir p ?xs))" if "p \<in> fst ` set (ld_names (fw_disk fw))" for p
    using that assms(5,6) by (auto simp: seen_by_query_def logs(1) list_all_iff published_to_def)
  have run: "execute from_json ?v q = Inr (filter (selected q) (concat (map (\<lambda>p. published_to dir p ?xs) files)))"
    if "resolve_log_files ?v q = Inr files" and "set files \<subseteq> fst ` set (ld_names (fw_disk fw))" for files
    by (rule execute_on_logs [OF that(1)]) (use that(2) stored in blast)
  show ?thesis
  proof (cases "q_cmd_filter q")
    case (Some cmd)
    let ?p = "path_join dir (path_of (cmd_to_log_name cmd))"
    let ?files = "if ?p \<in> fst ` set (ld_names (fw_disk fw)) then [?p] else []"
    have "resolve_log_files ?v q = Inr ?files"
      using Some assms(4) by (simp add: resolve_log_files_def seen_by_query_def Let_def)
    from run [OF this]
    have "execute from_json ?v q = Inr (filter (selected q) (published_to dir ?p ?xs))"
      using logs(2) [of ?p] by (cases "?p \<in> fst ` set (ld_names (fw_disk fw))") simp_all
    moreover have "published_to dir ?p ?xs =
        map fst (filter (\<lambda>x. cmd_to_log_name (snd x) = cmd_to_log_name cmd) ?xs)"
      by (simp add: published_to_def log_for_name log_path)
    ultimately show ?thesis using Some by (simp add: fw_def)
  next
    case None
    let ?listed = "remdups (filter (\<lambda>p. parent p = Some dir) (map fst (ld_names (fw_disk fw))))"
    let ?files = "sort (filter (\<lambda>p. suffix ''_log.jsonl'' (case file_name p of Some n \<Rightarrow> n | None \<Rightarrow> []) \<and>
        p \<in> fst ` set (ld_names (fw_disk fw))) ?listed)"
    have res: "resolve_log_files ?v q = Inr ?files"
      using None by (simp add: resolve_log_files_def seen_by_query_def logs(3))
    have "log_for dir x \<in> set ?files" if "x \<in> set ?xs" for x
    proof -
      have "published_to dir (log_for dir x) ?xs \<noteq> []"
        using that by (auto simp: published_to_def filter_empty_conv)
      with logs(2) have "log_for dir x \<in> fst ` set (ld_names (fw_disk fw))" by blast
      with log_for_suffix [of dir x] show ?thesis by auto
    qed
    from mset_published [of ?files ?xs dir, OF _ this]
    have "mset (concat (map (\<lambda>p. published_to dir p ?xs) ?files)) = mset (map fst ?xs)" by simp
    then have "mset (filter (selected q) (concat (map (\<lambda>p. published_to dir p ?xs) ?files))) =
        mset (filter (selected q) (map fst ?xs))"
      by (metis mset_filter)
    moreover have "set ?files \<subseteq> fst ` set (ld_names (fw_disk fw))" by auto
    ultimately show ?thesis using run [OF res] None by (simp add: fw_def)
  qed
qed

section \<open>From a kernel event to the log\<close>

lemma fills_same:
  assumes "fills ev new"
  shows "ev_path new = ev_path ev" "ev_type new = ev_type ev" "ev_pid new = ev_pid ev"
proof -
  from assms have eq: "new = ev\<lparr>ev_comm := ev_comm new, ev_cmd := ev_cmd new, ev_ppid := ev_ppid new, ev_tgid := ev_tgid new\<rparr>"
    by (simp add: fills_def)
  show "ev_path new = ev_path ev" "ev_type new = ev_type ev" "ev_pid new = ev_pid ev" by (subst eq, simp)+
qed

text \<open>What a batch records is published, with its path, type, process and log.\<close>

lemma batch_publishes:
  assumes "on_batch env events d = Some d'" and "run_batch env events d = Some (pending, d1)" and "pn \<in> set pending"
  shows "\<exists>ev. (ev, pn_cmd_name pn) \<in> set (dm_published d') \<and> fills (pn_event pn) ev"
proof -
  let ?api = "en_api (ar_events env)"
  let ?d2 = "drain_proc_events ?api (ar_after env) d1"
  let ?patched = "patch_pending_events ?api (ar_patch env) (dm_tracker ?d2) pending"
  from assms(1,2) have "dm_published d' = dm_published d1 @ map (\<lambda>pe. (pn_event pe, pn_cmd_name pe)) ?patched"
    by (auto simp: on_batch_def Let_def send_pending_events_def split: bind_splits)
  moreover obtain pe where "pe \<in> set ?patched" "fills (pn_event pn) (pn_event pe)" "pn_cmd_name pe = pn_cmd_name pn"
    using patch_all_fills [of pending ?api "ar_patch env" "dm_tracker ?d2"] assms(3)
    by (auto simp: list_all2_conv_all_nth in_set_conv_nth) metis
  ultimately show ?thesis by (intro exI [of _ "pn_event pe"] conjI) (auto intro: rev_image_eqI)
qed

text \<open>The environment the events of a batch are looked at in: the tracker has seen the processes.\<close>

definition events_env :: "('t, 'k, 'c) arm_env \<Rightarrow> ('t, 'c) daemon \<Rightarrow> ('t, 'k, 'c) event_env" where
  "events_env env d =
     (ar_events env)\<lparr>en_tracker := dm_tracker (drain_proc_events (en_api (ar_events env)) (ar_before env) d)\<rparr>"

lemma run_batch_event:
  assumes tree: "well_founded_tree (w_tree (ar_world env))"
    and run: "run_batch env (raw # post) d = Some (pending, d1)"
    and "de_rename raw = None" and "considered (ar_world env) (dm_monitor d) raw"
    and "list_all (\<lambda>x. po_size_filter (snd x) = None) (matching_opts_for_event (ar_world env) (dm_monitor d) (de_path raw))"
    and "(ty, name) \<in> set (expected_records (events_env env d) (mo_entries (dm_monitor d)) raw
       (mask_to_event_types (w_fan (ar_world env)) (de_mask raw))
       (matching_opts_for_event (ar_world env) (dm_monitor d) (de_path raw)))"
  shows "\<exists>pn \<in> set pending. ev_path (pn_event pn) = de_path raw \<and> ev_type (pn_event pn) = ty \<and>
    ev_pid (pn_event pn) = unsigned_abs (de_pid raw) \<and> pn_cmd_name pn = name"
proof -
  from run obtain m' c' where
    "process_event_batch (ar_world env) (events_env env d) (raw # post) (dm_monitor d, dm_sizes d) = Some (pending, m', c')"
    by (auto simp: run_batch_def Let_def events_env_def)
  from first_event_recorded [OF tree this assms(3-6)] show ?thesis .
qed

section \<open>Properties\<close>

lemma published_concat_mem:
  "e \<in> set (published_to dir p xs) \<Longrightarrow> \<exists>x\<in>set xs. e = fst x"
  by (auto simp: published_to_def)

text \<open>
  C7: What the event loop publishes is what a query finds. A log writer that starts on an empty
  directory, is served every published event and is not disturbed leaves logs in which a query
  without a process name finds each published event that passes its filters as often as it was
  published, and a query for a process name finds exactly the events published for that log, in the
  order of publication; provided each log's times do not go backwards, since the bisection relies
  on it.
\<close>

theorem published_then_found:
  assumes "events_of msgs = dm_published d" and "list_all undisturbed msgs" and "io_full io"
    and "q_log_dir q = dir"
    and "list_all (\<lambda>x. event_json_ok jsonl from_json (fst x)) (dm_published d)"
    and "\<And>p. sorted (map ev_time (published_to dir p (dm_published d)))"
  shows "\<exists>res. execute from_json (seen_by_query (writer_run jsonl msgs io (new_writer dir mt now))) q = Inr res \<and>
    (case q_cmd_filter q of
       None \<Rightarrow> mset res = mset (filter (selected q) (map fst (dm_published d)))
     | Some cmd \<Rightarrow> res = filter (selected q)
         (map fst (filter (\<lambda>x. cmd_to_log_name (snd x) = cmd_to_log_name cmd) (dm_published d))))"
  by (rule query_finds_published [OF assms])

text \<open>Two records for two processes.\<close>

definition two_pending :: "pending_event list" where
  "two_pending =
     [\<lparr>pn_event = Log_Query.sample_event 1 ''a'', pn_cmd_name = ''x'', pn_pid = 1\<rparr>,
      \<lparr>pn_event = Log_Query.sample_event 5 ''b'', pn_cmd_name = ''y'', pn_pid = 1\<rparr>]"

definition sample_query :: "string option \<Rightarrow> time_filter list \<Rightarrow> query" where
  "sample_query cmd tfs =
     \<lparr>q_log_dir = [RootDir], q_cmd_filter = cmd, q_path_filters = None, q_time_filters = tfs, q_local_time = False\<rparr>"

theorem published_then_found_witness:
  "\<exists>d. sample_daemon = Some d \<and>
     execute sample_from_json (seen_by_query (writer_run sample_to_json
         (map (Event good_io) (dm_published (send_pending_events two_pending d))) good_io
         (new_writer [RootDir] (metrics_new True) 0)))
       (sample_query (Some ''y'') []) = Inr [Log_Query.sample_event 5 ''b'']"
proof -
  obtain d where d: "sample_daemon = Some d" using sample_start by blast
  then have "dm_published d = []"
    by (auto simp: sample_daemon_def daemon_start_def split: option.splits sum.splits prod.splits)
  then have pub: "dm_published (send_pending_events two_pending d) =
      [(Log_Query.sample_event 1 ''a'', ''x''), (Log_Query.sample_event 5 ''b'', ''y'')]" (is "_ = ?xs")
    by (simp add: send_pending_events_def two_pending_def)
  have msgs: "events_of (map (Event good_io) ?xs) = ?xs" "list_all undisturbed (map (Event good_io) ?xs)" "io_full good_io"
    by (simp_all add: undisturbed_def good_io_def io_full_def)
  have json: "list_all (\<lambda>x. event_json_ok sample_to_json sample_from_json (fst x)) ?xs"
    using sample_ok by (simp add: sample_log_def)
  have times: "sorted (map ev_time (published_to [RootDir] p ?xs))" for p
    by (simp add: published_to_def Log_Query.sample_event_def)
  have found: "filter (selected (sample_query (Some ''y'') []))
      (map fst (filter (\<lambda>x. cmd_to_log_name (snd x) = cmd_to_log_name ''y'') ?xs)) = [Log_Query.sample_event 5 ''b'']"
    by code_simp
  have q: "q_log_dir (sample_query (Some ''y'') []) = [RootDir]" "q_cmd_filter (sample_query (Some ''y'') []) = Some ''y''"
    by (simp_all add: sample_query_def)
  from published_then_found [where d = "send_pending_events two_pending d", unfolded pub, OF msgs q(1) json times,
      of "metrics_new True" 0]
  have "execute sample_from_json (seen_by_query (writer_run sample_to_json (map (Event good_io) ?xs) good_io
      (new_writer [RootDir] (metrics_new True) 0))) (sample_query (Some ''y'') []) = Inr [Log_Query.sample_event 5 ''b'']"
    unfolding q(2) option.case found by blast
  then show ?thesis using d \<open>dm_published d = []\<close> pub by auto
qed

text \<open>
  C4: From the kernel to the reader. An event that comes first in a batch, is no rename and not the
  daemon's own, and lies below an entry without a size filter, is found by the query for the process
  name of that entry, with its path, its type and its process, once the log writer has served what
  the daemon published: for every type of the event and every entry that the filters of the entry
  allow.
\<close>

theorem event_reaches_query:
  assumes tree: "well_founded_tree (w_tree (ar_world env))" and batch: "on_batch env (raw # post) d = Some d'"
    and one: "de_rename raw = None" "considered (ar_world env) (dm_monitor d) raw"
    and unsized: "list_all (\<lambda>x. po_size_filter (snd x) = None)
       (matching_opts_for_event (ar_world env) (dm_monitor d) (de_path raw))"
    and expected: "(ty, name) \<in> set (expected_records (events_env env d) (mo_entries (dm_monitor d)) raw
       (mask_to_event_types (w_fan (ar_world env)) (de_mask raw))
       (matching_opts_for_event (ar_world env) (dm_monitor d) (de_path raw)))"
    and writer: "events_of msgs = dm_published d'" "list_all undisturbed msgs" "io_full io"
    and q: "q_log_dir q = dir" "q_cmd_filter q = Some name" "q_time_filters q = []"
      "\<And>pfs. q_path_filters q = Some pfs \<Longrightarrow> list_ex (\<lambda>pf. starts_with (de_path raw) pf) pfs"
    and logs: "list_all (\<lambda>x. event_json_ok jsonl from_json (fst x)) (dm_published d')"
      "\<And>p. sorted (map ev_time (published_to dir p (dm_published d')))"
  shows "\<exists>res e. execute from_json (seen_by_query (writer_run jsonl msgs io (new_writer dir mt now))) q = Inr res \<and>
    e \<in> set res \<and> ev_path e = de_path raw \<and> ev_type e = ty \<and> ev_pid e = unsigned_abs (de_pid raw)"
proof -
  from batch obtain pending d1 where run: "run_batch env (raw # post) d = Some (pending, d1)"
    by (auto simp: on_batch_def Let_def split: bind_splits)
  from run_batch_event [OF tree run one unsized expected] obtain pn where
    pn: "pn \<in> set pending" "ev_path (pn_event pn) = de_path raw" "ev_type (pn_event pn) = ty"
      "ev_pid (pn_event pn) = unsigned_abs (de_pid raw)" "pn_cmd_name pn = name" by blast
  from batch_publishes [OF batch run pn(1)] obtain e where
    e: "(e, name) \<in> set (dm_published d')" "fills (pn_event pn) e" by (auto simp: pn(5))
  note e_fields = fills_same [OF e(2), unfolded pn(2-4)]
  have "selected q e" using q(3,4) e_fields(1) by (simp add: path_passes_def split: option.split)
  moreover from query_finds_published [OF writer q(1) logs] q(2) have
    "execute from_json (seen_by_query (writer_run jsonl msgs io (new_writer dir mt now))) q = Inr
       (filter (selected q) (map fst (filter (\<lambda>x. cmd_to_log_name (snd x) = cmd_to_log_name name) (dm_published d'))))"
    by simp
  ultimately show ?thesis using e(1) e_fields by force
qed

text \<open>The sample event, alone in its batch, is published once.\<close>

lemma sample_published:
  assumes d: "sample_daemon = Some d" and batch: "on_batch sample_arm_env [sample_raw] d = Some d'"
  shows "events_env sample_arm_env d = sample_env \<and> (\<exists>e. dm_published d' = [(e, CMD_GLOBAL)])"
proof -
  have m: "sample_monitor = Some (dm_monitor d)" using sample_start d by (metis option.inject)
  from d have start: "dm_tracker d = None" "dm_published d = []"
    by (auto simp: sample_daemon_def daemon_start_def split: option.splits sum.splits prod.splits)
  have env: "events_env sample_arm_env d = sample_env"
    using start by (simp add: events_env_def sample_arm_env_def drain_proc_events_def sample_env_def)
  from batch obtain pending d1 where run: "run_batch sample_arm_env [sample_raw] d = Some (pending, d1)"
    by (auto simp: on_batch_def Let_def split: bind_splits)
  have world: "ar_world sample_arm_env = sample_world" by (simp add: sample_arm_env_def)
  from run obtain m' c' where
    "process_event_batch sample_world sample_env [sample_raw] (dm_monitor d, dm_sizes d) = Some (pending, m', c')"
    by (auto simp: run_batch_def Let_def events_env_def [symmetric] env world)
  moreover have "de_rename sample_raw = None" by (simp add: sample_raw_def)
  ultimately obtain st' where
    one: "process_event sample_world sample_env sample_raw
      (dm_monitor d, \<lparr>rc_sizes = dm_sizes d, rc_tick = 0, rc_pending = []\<rparr>) = Some (m', st')"
    and pending: "pending = rc_pending st'"
    by (auto simp: process_event_batch_def split: option.splits)
  from recorded_exactly [OF sample_tree one] sample_considered [OF m] sample_types
  have "map label_of pending = [(Create, CMD_GLOBAL)]"
    by (auto simp: pending sample_opts_def sample_world_def sample_raw_def)
  then obtain pn where pn: "pending = [pn]" "pn_cmd_name pn = CMD_GLOBAL" by (auto simp: label_of_def)
  have "dm_published d1 = []" using run start(2) by (auto simp: run_batch_def Let_def)
  then have "dm_published d' = map (\<lambda>pe. (pn_event pe, pn_cmd_name pe))
      (patch_pending_events (en_api (ar_events sample_arm_env)) (ar_patch sample_arm_env)
        (dm_tracker (drain_proc_events (en_api (ar_events sample_arm_env)) (ar_after sample_arm_env) d1)) pending)"
    using batch run by (auto simp: on_batch_def Let_def send_pending_events_def split: bind_splits)
  then have "\<exists>e. dm_published d' = [(e, CMD_GLOBAL)]"
    using pn by (simp add: patch_pending_events_def conjunct2 [OF patch_fills])
  with env show ?thesis by blast
qed

text \<open>Its log line and the reader of it.\<close>

definition one_line :: "file_event \<Rightarrow> string" where "one_line e = ''{a}''"

definition read_one :: "file_event \<Rightarrow> string \<Rightarrow> file_event option" where
  "read_one e s = (if s = ''{a}'' then Some e else None)"

theorem event_reaches_query_witness:
  "\<exists>d d' e res. sample_daemon = Some d \<and> on_batch sample_arm_env [sample_raw] d = Some d' \<and>
     execute (read_one e) (seen_by_query (writer_run one_line (map (Event good_io) (dm_published d')) good_io
         (new_writer [RootDir] (metrics_new True) 0))) (sample_query (Some CMD_GLOBAL) []) = Inr res \<and>
     e \<in> set res \<and> ev_path e = de_path sample_raw \<and> ev_type e = Create"
proof -
  obtain d where d: "sample_daemon = Some d" using sample_start by blast
  have m: "sample_monitor = Some (dm_monitor d)" using sample_start d by (metis option.inject)
  have world: "ar_world sample_arm_env = sample_world" by (simp add: sample_arm_env_def)
  have tree: "well_founded_tree (w_tree (ar_world sample_arm_env))" by (simp add: world sample_tree)
  from on_batch_ok [OF tree reach_ok [OF daemon_start_reach [OF d [unfolded sample_daemon_def]]], of "[sample_raw]"]
  obtain d' where batch: "on_batch sample_arm_env [sample_raw] d = Some d'" by (auto simp: returns_iff)
  from sample_published [OF d batch] obtain e where env: "events_env sample_arm_env d = sample_env"
    and pub: "dm_published d' = [(e, CMD_GLOBAL)]" by blast
  have one: "de_rename sample_raw = None" "considered (ar_world sample_arm_env) (dm_monitor d) sample_raw"
    using sample_considered(1) [OF m] by (simp_all add: world sample_raw_def)
  have unsized: "list_all (\<lambda>x. po_size_filter (snd x) = None)
      (matching_opts_for_event (ar_world sample_arm_env) (dm_monitor d) (de_path sample_raw))"
    using sample_considered(2) [OF m] by (simp add: world sample_opts_def)
  have "mask_to_event_types (w_fan sample_world) (de_mask sample_raw) = [Attrib, Create]"
    using sample_types by (simp add: sample_world_def sample_raw_def)
  then have expected: "(Create, CMD_GLOBAL) \<in> set (expected_records (events_env sample_arm_env d)
      (mo_entries (dm_monitor d)) sample_raw
      (mask_to_event_types (w_fan (ar_world sample_arm_env)) (de_mask sample_raw))
      (matching_opts_for_event (ar_world sample_arm_env) (dm_monitor d) (de_path sample_raw)))"
    using sample_considered(2,3) [OF m] by (simp add: env world)
  have writer: "events_of (map (Event good_io) (dm_published d')) = dm_published d'"
      "list_all undisturbed (map (Event good_io) (dm_published d'))" "io_full good_io"
    by (simp_all add: pub undisturbed_def good_io_def io_full_def)
  have q: "q_log_dir (sample_query (Some CMD_GLOBAL) []) = [RootDir]"
      "q_cmd_filter (sample_query (Some CMD_GLOBAL) []) = Some CMD_GLOBAL"
      "q_time_filters (sample_query (Some CMD_GLOBAL) []) = []"
    by (simp_all add: sample_query_def)
  have paths: "list_ex (\<lambda>pf. starts_with (de_path sample_raw) pf) pfs"
    if "q_path_filters (sample_query (Some CMD_GLOBAL) []) = Some pfs" for pfs
    using that by (simp add: sample_query_def)
  have "ascii ''{a}''" by code_simp
  then have json: "list_all (\<lambda>x. event_json_ok one_line (read_one e) (fst x)) (dm_published d')"
    by (simp add: pub event_json_ok_def one_line_def read_one_def SCAN_BACK_BYTES_def)
  have times: "sorted (map ev_time (published_to [RootDir] p (dm_published d')))" for p
    by (simp add: pub published_to_def)
  from event_reaches_query [OF tree batch one unsized expected writer q paths json times, of "metrics_new True" 0]
  obtain res e' where res: "execute (read_one e) (seen_by_query (writer_run one_line
      (map (Event good_io) (dm_published d')) good_io (new_writer [RootDir] (metrics_new True) 0)))
      (sample_query (Some CMD_GLOBAL) []) = Inr res" and e': "e' \<in> set res" "ev_path e' = de_path sample_raw" "ev_type e' = Create"
    by blast
  from query_finds_published [OF writer q(1) json times, of "metrics_new True" 0] res
  have "res = filter (selected (sample_query (Some CMD_GLOBAL) [])) [e]" by (simp add: q(2) pub)
  with e'(1) have "e' = e" by (auto split: if_splits)
  with d batch res e' show ?thesis by blast
qed

section \<open>Without the condition on times\<close>

text \<open>
  The writer itself breaks it: an event buffered while its log could not be opened is written
  after later events of that log, when another log fails and its retry comes due. A query for the
  events from time 5 on then misses one of the two.
\<close>

definition late_msgs :: "writer_msg list" where
  "late_msgs =
     [Event refusing_io (Log_Query.sample_event 1 ''a'', ''x''), Event good_io (Log_Query.sample_event 5 ''b'', ''x''),
      Event refusing_io (Log_Query.sample_event 5 ''b'', ''y''),
      Event (good_io\<lparr>io_now := 20\<rparr>) (Log_Query.sample_event 5 ''b'', ''x'')]"

definition late_writer :: file_writer where
  "late_writer = writer_run sample_to_json late_msgs good_io (new_writer [RootDir] (metrics_new True) 0)"

definition late_text :: string where
  "late_text = ''{b}'' @ [NL] @ ''{a}'' @ [NL] @ ''{b}'' @ [NL]"

lemma late_log:
  "file_text late_writer [RootDir, Normal ''x_log.jsonl''] = late_text"
  by code_simp

lemma late_found:
  "find_first_event_after sample_from_json (length late_text) (Some late_text) 5 = Inr 8"
  by code_simp

lemma late_read: "read_loop sample_from_json [\<lparr>tf_op = TGe, tf_time = 5\<rparr>] None (drop 8 late_text) = Inr [Log_Query.sample_event 5 ''b'']"
  by code_simp

lemma late_event_hides_another:
  "file_text late_writer [RootDir, Normal ''x_log.jsonl''] = late_text \<and>
   execute sample_from_json (seen_by_query late_writer)
     (sample_query (Some ''x'') [\<lparr>tf_op = TGe, tf_time = 5\<rparr>]) = Inr [Log_Query.sample_event 5 ''b'']"
proof -
  let ?p = "[RootDir, Normal ''x_log.jsonl'']" and ?q = "sample_query (Some ''x'') [\<lparr>tf_op = TGe, tf_time = 5\<rparr>]"
  have "map_of (ld_names (fw_disk late_writer)) ?p \<noteq> None"
    using late_log by (auto simp: file_text_def late_text_def split: option.splits)
  then have name: "?p \<in> fst ` set (ld_names (fw_disk late_writer))" by (simp add: map_of_eq_None_iff)
  have path: "path_join [RootDir] (path_of (cmd_to_log_name ''x'')) = ?p" by code_simp
  have bounds: "extract_since ?q = Some 5" "extract_until ?q = None" by code_simp+
  have "resolve_log_files (seen_by_query late_writer) ?q = Inr [?p]"
    using name by (simp add: resolve_log_files_def seen_by_query_def sample_query_def path)
  moreover have "ld_file (seen_by_query late_writer) ?p = Some (Some late_text)"
    using name by (simp add: seen_by_query_def late_log)
  moreover have "read_events_from sample_from_json ?q (Some late_text) (Some 5) None = Inr [Log_Query.sample_event 5 ''b'']"
    using late_found late_read by (simp add: read_events_from_def sample_query_def) (simp add: late_text_def)
  ultimately have "execute sample_from_json (seen_by_query late_writer) ?q =
      Inr (filter (path_passes ?q) [Log_Query.sample_event 5 ''b''])"
    by (simp add: execute_def bounds)
  then show ?thesis using late_log by (simp add: path_passes_def sample_query_def)
qed

end
