(* ===== verification/Restart.thy ===== *)
theory Restart
  imports Cli_Props Socket_Props
begin

text \<open>
  The store and the daemon: what \<^verbatim>\<open>bin/commands/daemon.rs\<close> and \<^verbatim>\<open>Monitor::new\<close> make
  of it, that a restarted daemon agrees with the commands that edited the store and with the daemon
  that was told about them over the socket, and how far a reload of the store does.
\<close>

section \<open>From the store to the entries\<close>

text \<open>The entry of the monitor an entry of the store stands for.\<close>

definition monitored_as :: "world \<Rightarrow> path_entry \<Rightarrow> path \<times> path_options \<Rightarrow> bool" where
  "monitored_as w e x \<longleftrightarrow>
     fst x = snd (resolve_recursion_check (w_fs w) (pe_path e)) \<and>
     try_from_entry (w_parse_size w) e = Inr (snd x)"

lemma parse_path_entries_all:
  "parse_path_entries parse_sf es = Inr os \<Longrightarrow>
     list_all2 (\<lambda>e x. fst x = pe_path e \<and> try_from_entry parse_sf e = Inr (snd x)) es os"
proof (induction es arbitrary: os)
  case (Cons e es)
  then show ?case by (auto split: sum.splits)
qed simp

lemma started_entries:
  assumes "cmd_daemon env w pid lock_ok socket_ok opts fl = Started m st"
  shows "\<exists>cfg store. cli_config env = Inr cfg \<and> read_store env (cf_monitored_path cfg) fl = Inr store \<and>
    list_all2 (monitored_as w) (flatten (cl_fs env) store) (mo_entries m)"
proof -
  from assms obtain cfg store es a b c' d f g where c: "cli_config env = Inr cfg"
      "read_store env (cf_monitored_path cfg) fl = Inr store"
      "parse_path_entries (w_parse_size w) (flatten (cl_fs env) store) = Inr es"
    and n: "monitor_new w pid \<lparr>mc_paths_and_options = es, mc_log_dir = a, mc_buffer_size = b,
        mc_cache_buffer_size = c', mc_file_size_capacity = d, mc_subscribe_buf = g, mc_metrics_interval = f\<rparr> = Some (Inr m)"
      (is "monitor_new w pid ?mc = _")
    by (auto simp: cmd_daemon_def Let_def split: if_splits sum.splits option.splits)
  from n obtain paths out where col: "collect_paths w a es ([], []) = Inr (paths, out)"
    and out: "mo_entries m = out"
    by (auto simp: monitor_new_def Let_def split: if_splits sum.splits)
  have "out = [] @ map (\<lambda>(p, opts). (snd (resolve_recursion_check (w_fs w) p), opts)) es"
    by (rule conjunct1 [OF conjunct2 [OF conjunct2 [OF collect_paths_result [OF col]]]]) simp_all
  moreover have "list_all2 (monitored_as w) (flatten (cl_fs env) store)
      (map (\<lambda>(p, opts). (snd (resolve_recursion_check (w_fs w) p), opts)) es)"
    unfolding list_all2_map2
    by (rule list_all2_mono [OF parse_path_entries_all [OF c(3)]]) (auto simp: monitored_as_def split: prod.split)
  ultimately show ?thesis using c(1,2) out by auto
qed

lemma all2_member:
  "list_all2 P xs ys \<Longrightarrow> x \<in> set xs \<Longrightarrow> \<exists>y \<in> set ys. P x y"
  "list_all2 P xs ys \<Longrightarrow> y \<in> set ys \<Longrightarrow> \<exists>x \<in> set xs. P x y"
  by (induction rule: list_all2_induct) auto

lemma flatten_lookup:
  "x \<in> set (flatten fs gs) \<Longrightarrow> \<exists>c. pe_cmd x = Some c \<and> lookup_params gs c (pe_path x) \<noteq> None"
proof (induction gs)
  case (Cons g gs)
  show ?case
  proof (cases "x \<in> set (flatten fs gs)")
    case True
    with Cons.IH show ?thesis by (fastforce split: option.split)
  next
    case False
    with Cons.prems obtain p v where "(p, v) \<in> set (cg_paths g)" "x = entry_of fs (cg_cmd g) p v"
      by (auto simp: flatten_def)
    then have "bt_get (cg_paths g) p \<noteq> None" by (auto dest: weak_map_of_SomeI)
    with \<open>x = _\<close> show ?thesis by (auto simp: entry_of_def)
  qed
qed (simp add: flatten_def)

lemma entry_cmd_idem [simp]: "entry_cmd (entry_cmd c) = entry_cmd c"
  by (auto simp: entry_cmd_def split: option.split)

lemma entry_cmd_or_global [simp]: "entry_cmd (Some (cmd_or_global c)) = entry_cmd c"
  by (simp add: entry_cmd_def cmd_or_global_def split: option.split)

lemma entry_cmd_inj: "entry_cmd (Some a) = entry_cmd (Some b) \<Longrightarrow> a = b"
  by (simp add: entry_cmd_def split: if_splits)

lemma try_from_entry_cmd: "try_from_entry parse_sf e = Inr o' \<Longrightarrow> po_cmd o' = entry_cmd (pe_cmd e)"
  by (auto simp: try_from_entry_def split: option.splits sum.splits)

text \<open>The daemon told over the socket and the daemon reading the store parse the same entry.\<close>

lemma told_and_stored_agree:
  "try_from_entry parse_sf (added_entry (pe_path e) (pe_recursive e) (pe_types e) (pe_size e) (pe_cmd e) (pe_max_depth e)) =
   try_from_entry parse_sf (entry_of fs (cmd_or_global (pe_cmd e)) (pe_path e) (params_of_entry e))"
  by (simp add: try_from_entry_def added_entry_def entry_of_def params_of_entry_def split: option.split sum.split)

lemma live_entry:
  assumes run: "handle_socket_cmd w he dbg (add_request e) m0 = Some (Inr RespOk, m1)"
    and p: "p = snd (resolve_recursion_check (w_fs w) (pe_path e))"
    and there: "p \<in> set (mo_paths m0) \<or> fs_exists (w_fs w) p"
  shows "\<exists>o'. (p, o') \<in> set (mo_entries m1) \<and>
    try_from_entry (w_parse_size w) (entry_of fs (cmd_or_global (pe_cmd e)) (pe_path e) (params_of_entry e)) = Inr o'"
proof -
  let ?e = "added_entry (pe_path e) (pe_recursive e) (pe_types e) (pe_size e) (pe_cmd e) (pe_max_depth e)"
  let ?m = "without_entry (pe_path e) (entry_cmd (pe_cmd e)) m0"
  from run have h: "handle_add w (pe_path e) (pe_recursive e) (pe_types e) (pe_size e) (pe_cmd e) (pe_max_depth e) m0 =
      Some (Inr RespOk, m1)"
    by (simp add: handle_socket_cmd_def add_request_def)
  then have "check_path_allowed (pe_path e) [] = Inr ()"
    by (cases "check_path_allowed (pe_path e) []") (auto simp: handle_add_def)
  from h [unfolded handle_add_as_add_path [OF this]] obtain out where
    add: "add_path w ?e ?m = Some (out, m1)" and out: "reply_of w m1 out = Inr RespOk"
    by auto
  from out have "out = Done" by (cases out) (auto simp: reply_of_def)
  have p': "p = snd (resolve_recursion_check (w_fs w) (pe_path ?e))" by (simp add: added_entry_def p)
  from add_path_cases [OF add p'] \<open>out = Done\<close> there
  have "\<exists>o'. try_from_entry (w_parse_size w) ?e = Inr o' \<and> mo_entries m1 = mo_entries ?m @ [(p, o')]"
    by (cases "p \<in> set (mo_paths m0)") auto
  then show ?thesis by (auto simp: told_and_stored_agree [where fs = fs])
qed

section \<open>Properties\<close>

text \<open>
  C15: An entry that fsmon add has put into the store, and that the running daemon has accepted over
  the socket for a path that is watched or exists, is monitored with the same options, under the
  same resolved path, by the running daemon and by the daemon started next from that store.
\<close>

theorem restart_agrees_with_live:
  assumes "prepare_add env args fl = Inr (sp, store, e)"
    and "with_extension sp ''tmp'' \<noteq> sp" and "cl_readable env"
    and "json_round_trip (cl_to_json env) (cl_from_json env) (add_entry e store)"
    and added: "cmd_add env args fl = (Inr Added, fl', [request])"
    and live: "handle_socket_cmd w he dbg request m0 = Some (Inr RespOk, m1)"
    and started: "cmd_daemon env w pid lock_ok socket_ok opts fl' = Started m st"
    and p: "p = snd (resolve_recursion_check (w_fs w) (pe_path e))"
    and there: "p \<in> set (mo_paths m0) \<or> fs_exists (w_fs w) p"
  shows "\<exists>o'. (p, o') \<in> set (mo_entries m1) \<and> (p, o') \<in> set (mo_entries m) \<and> po_cmd o' = entry_cmd (pe_cmd e)"
proof -
  let ?x = "entry_of (cl_fs env) (cmd_or_global (pe_cmd e)) (pe_path e) (params_of_entry e)"
  have "request = add_request e"
    using added assms(1)
    by (auto simp: cmd_add_def Let_def split: sum.splits prod.splits socket_error.splits socket_response.splits)
  with live have "handle_socket_cmd w he dbg (add_request e) m0 = Some (Inr RespOk, m1)" by simp
  from live_entry [OF this p there, of "cl_fs env"] obtain o' where
    o': "(p, o') \<in> set (mo_entries m1)" "try_from_entry (w_parse_size w) ?x = Inr o'" by blast
  obtain cfg where cfg: "cli_config env = Inr cfg" "sp = cf_monitored_path cfg"
    using prepare_add_config [OF assms(1)] by blast
  with started_entries [OF started] added_store [OF assms(1-4) added]
  have all: "list_all2 (monitored_as w) (flatten (cl_fs env) (add_entry e store)) (mo_entries m)" by auto
  have "?x \<in> set (flatten (cl_fs env) (add_entry e store))"
    unfolding add_entry_def by (rule inserted_in_flatten)
  from all2_member(1) [OF all this] obtain q o2 where "(q, o2) \<in> set (mo_entries m)"
    "monitored_as w ?x (q, o2)" by auto
  then have "(p, o') \<in> set (mo_entries m)"
    using o'(2) by (simp add: monitored_as_def entry_of_def p)
  moreover have "po_cmd o' = entry_cmd (pe_cmd e)"
    using try_from_entry_cmd [OF o'(2)] by (simp add: entry_of_def)
  ultimately show ?thesis using o'(1) by blast
qed

text \<open>
  C23: What fsmon remove has taken out of the store the next daemon does not monitor: every entry it
  has for that process comes from a path of the store that was not among those removed, and there is
  none when the whole process was removed.
\<close>

theorem removed_stays_removed:
  assumes "cli_config env = Inr cfg" and "sp = cf_monitored_path cfg"
    and "read_store env sp fl = Inr store" and "with_extension sp ''tmp'' \<noteq> sp" and "cl_readable env"
    and "\<And>store'. edit_remove (map (resolve_path_arg env) raws) cmd store = Inr store' \<Longrightarrow>
           json_round_trip (cl_to_json env) (cl_from_json env) store'"
    and "cmd_remove env (Some cmd) raws fl = (Inr (), fl', sent)"
    and started: "cmd_daemon env w pid lock_ok socket_ok opts fl' = Started m st"
    and entry: "(q, o') \<in> set (mo_entries m)" and cmd: "po_cmd o' = entry_cmd (Some cmd)"
  shows "\<exists>p. q = snd (resolve_recursion_check (w_fs w) p) \<and> lookup_params store cmd p \<noteq> None \<and>
    raws \<noteq> [] \<and> p \<notin> resolve_path_arg env ` set raws"
proof -
  from removed_store [OF assms(1-7)] obtain store' where
    ed: "edit_remove (map (resolve_path_arg env) raws) cmd store = Inr store'"
    and rd: "read_store env sp fl' = Inr store'" by blast
  with started_entries [OF started] assms(1,2)
  have all: "list_all2 (monitored_as w) (flatten (cl_fs env) store') (mo_entries m)" by auto
  from all2_member(2) [OF all entry] obtain x where
    x: "x \<in> set (flatten (cl_fs env) store')" "monitored_as w x (q, o')" by blast
  from flatten_lookup [OF x(1)] obtain c where c: "pe_cmd x = Some c" "lookup_params store' c (pe_path x) \<noteq> None" by blast
  have "po_cmd o' = entry_cmd (Some c)"
    using x(2) try_from_entry_cmd [of "w_parse_size w" x o'] c(1) by (simp add: monitored_as_def)
  with cmd have "c = cmd" by (simp add: entry_cmd_inj)
  with c(2) edit_remove_lookup [OF ed, of cmd "pe_path x"]
  have "lookup_params store cmd (pe_path x) \<noteq> None" "raws \<noteq> []" "pe_path x \<notin> resolve_path_arg env ` set raws"
    by (auto split: if_splits)
  then show ?thesis using x(2) by (auto simp: monitored_as_def)
qed

section \<open>Witnesses\<close>

text \<open>A store without entries, to which the watched directory of the sample monitor is added for vim.\<close>

definition restart_args :: add_args where
  "restart_args = sample_args\<lparr>aa_path := Some sample_dir\<rparr>"

definition restart_group :: cmd_group where
  "restart_group = \<lparr>cg_cmd = ''vim'', cg_paths = [(sample_dir,
     \<lparr>pp_recursive = Some False, pp_types = None, pp_size = Some ''x'', pp_max_depth = None\<rparr>)]\<rparr>"

definition crowded_group :: cmd_group where
  "crowded_group = restart_group\<lparr>cg_paths := bt_insert [RootDir, Normal ''srv'']
     \<lparr>pp_recursive = None, pp_types = None, pp_size = None, pp_max_depth = None\<rparr> (cg_paths restart_group)\<rparr>"

definition restart_added :: path_entry where
  "restart_added = \<lparr>pe_cmd = Some ''vim'', pe_path = sample_dir, pe_recursive = Some False,
     pe_types = None, pe_size = Some ''x'', pe_max_depth = None, pe_symlink_target = None\<rparr>"

definition restart_cli :: cli_env where
  "restart_cli = (sample_cli (Inr RespOk))
     \<lparr>cl_from_json := \<lambda>s. if s = ''{w}'' then Some restart_group else if s = ''{c}'' then Some crowded_group else None,
      cl_to_json := \<lambda>g. Some (if g = restart_group then ''{w}'' else ''{c}'')\<rparr>"

definition restart_files :: files where
  "restart_files = fst (snd (cmd_add restart_cli restart_args (\<lambda>_. None)))"

lemma restart_prepared:
  "prepare_add restart_cli restart_args (\<lambda>_. None) = Inr (sample_store, [], restart_added)"
  "cl_readable restart_cli"
  "add_entry restart_added [] = [restart_group]"
  "json_round_trip (cl_to_json restart_cli) (cl_from_json restart_cli) (add_entry restart_added [])"
  "check_path_allowed sample_dir [] = Inr ()"
  by code_simp+

lemma restart_run:
  "cmd_add restart_cli restart_args (\<lambda>_. None) = (Inr Added, restart_files, [add_request restart_added])"
proof -
  have "fst (cmd_add restart_cli restart_args (\<lambda>_. None)) = Inr Added"
    "snd (snd (cmd_add restart_cli restart_args (\<lambda>_. None))) = [add_request restart_added]"
    by code_simp+
  then show ?thesis by (simp add: restart_files_def prod_eq_iff)
qed

lemma restart_config: "cli_config restart_cli = Inr (resolve_paths ''/root'' default_config)"
  by (simp add: cli_config_def restart_cli_def sample_cli_def load_config_def guess_home_def sudo_uid_def home_var_def)

lemma restart_store_path: "cf_monitored_path (resolve_paths ''/root'' default_config) = sample_store"
  by code_simp

lemma restart_started:
  assumes "read_store restart_cli sample_store fl = Inr store"
    and "parse_path_entries (w_parse_size sample_world) (flatten (cl_fs restart_cli) store) = Inr es"
    and "collect_paths sample_world (lc_path (cf_logging (resolve_paths ''/root'' default_config))) es ([], []) = Inr ps"
  shows "\<exists>m st. cmd_daemon restart_cli sample_world 7 True True (no_options None) fl = Started m st"
  using assms
  by (simp add: cmd_daemon_def restart_config restart_store_path sample_settings sample_fits two_above_one monitor_new_def Let_def
      split: prod.split)

lemma restart_group_started:
  assumes "read_store restart_cli sample_store fl = Inr [restart_group]"
  shows "\<exists>m st. cmd_daemon restart_cli sample_world 7 True True (no_options None) fl = Started m st"
proof -
  have flat: "flatten (cl_fs restart_cli) [restart_group] = [restart_added]" by code_simp
  let ?o = "\<lparr>po_size_filter = Some \<lparr>sf_op = SGe, sf_bytes = 7\<rparr>, po_event_types = None, po_recursive = False,
      po_cmd = Some ''vim'', po_max_depth = None\<rparr>"
  have parsed: "parse_path_entries (w_parse_size sample_world) (flatten (cl_fs restart_cli) [restart_group]) =
      Inr [(sample_dir, ?o)]"
    unfolding flat by (simp add: restart_added_def try_from_entry_def sample_world_def entry_cmd_def CMD_GLOBAL_def)
  have clear: "collect_paths sample_world (lc_path (cf_logging (resolve_paths ''/root'' default_config)))
      [(sample_dir, ?o)] ([], []) = Inr ([sample_dir], [(sample_dir, ?o)])"
    by code_simp
  show ?thesis by (rule restart_started [OF assms parsed clear])
qed

lemma restart_added_path:
  "sample_dir = snd (resolve_recursion_check (w_fs sample_world) (pe_path restart_added))"
  by (simp add: restart_added_def sample_world_def sample_resolve)

theorem restart_agrees_with_live_witness:
  "\<exists>request m0 m1 m st o'. cmd_add restart_cli restart_args (\<lambda>_. None) = (Inr Added, restart_files, [request]) \<and>
     sample_monitor = Some m0 \<and>
     handle_socket_cmd sample_world \<lparr>he_uptime = 1, he_channel_capacity = None, he_misses = 0,
       he_fd = (\<lambda>_. 3), he_factory_alive = True\<rparr> (\<lambda>_. []) request m0 = Some (Inr RespOk, m1) \<and>
     cmd_daemon restart_cli sample_world 7 True True (no_options None) restart_files = Started m st \<and>
     (sample_dir, o') \<in> set (mo_entries m1) \<and> (sample_dir, o') \<in> set (mo_entries m) \<and> po_cmd o' = Some ''vim''"
proof -
  let ?he = "\<lparr>he_uptime = 1, he_channel_capacity = None, he_misses = 0, he_fd = (\<lambda>_. 3), he_factory_alive = True\<rparr>"
  obtain m0 where m0: "sample_monitor = Some m0" using sample_exists by blast
  have watched: "sample_dir \<in> set (mo_paths m0)" by (simp add: sample_facts [OF m0])
  have resolved: "snd (resolve_recursion_check (w_fs sample_world) sample_dir) = sample_dir"
    by (simp add: sample_world_def sample_resolve)
  obtain r m1 where run: "handle_add sample_world sample_dir (Some False) None (Some ''x'') (Some ''vim'') None m0 = Some (r, m1)"
    using handle_add_ok [OF reach_ok [OF sample_reach [OF m0]], of sample_world sample_dir "Some False" None "Some ''x''"
      "Some ''vim''" None] by (auto simp: returns_iff)
  have "\<exists>o'. try_from_entry (w_parse_size sample_world)
      (added_entry sample_dir (Some False) None (Some ''x'') (Some ''vim'') None) = Inr o'"
    by (simp add: try_from_entry_def added_entry_def sample_world_def)
  with readd_replaces_entry [OF restart_prepared(5) watched resolved run] have "r = Inr RespOk" by blast
  with run have live: "handle_socket_cmd sample_world ?he (\<lambda>_. []) (add_request restart_added) m0 = Some (Inr RespOk, m1)"
    by (simp add: handle_socket_cmd_def add_request_def restart_added_def)
  have "read_store restart_cli sample_store restart_files = Inr [restart_group]"
    using added_store [OF restart_prepared(1) sample_prepared(2) restart_prepared(2,4) restart_run] restart_prepared(3)
    by simp
  then obtain m st where started: "cmd_daemon restart_cli sample_world 7 True True (no_options None) restart_files = Started m st"
    using restart_group_started by blast
  have there: "sample_dir \<in> set (mo_paths m0) \<or> fs_exists (w_fs sample_world) sample_dir" using watched by simp
  have "entry_cmd (pe_cmd restart_added) = Some ''vim''"
    by (simp add: restart_added_def entry_cmd_def CMD_GLOBAL_def)
  with restart_agrees_with_live [OF restart_prepared(1) sample_prepared(2) restart_prepared(2,4) restart_run live
      started restart_added_path there] restart_run m0 live started
  show ?thesis by metis
qed

text \<open>Of two watched paths of vim one is removed; the next daemon has the other.\<close>

definition crowded_file :: files where
  "crowded_file = (\<lambda>p. if p = sample_store then Some (''{c}'' @ [NL]) else None)"

theorem removed_stays_removed_witness:
  "\<exists>fl' sent m st q p. cmd_remove restart_cli (Some ''vim'') [[RootDir, Normal ''srv'']] crowded_file = (Inr (), fl', sent) \<and>
     cmd_daemon restart_cli sample_world 7 True True (no_options None) fl' = Started m st \<and>
     q = snd (resolve_recursion_check (w_fs sample_world) p) \<and> q \<in> fst ` set (mo_entries m) \<and>
     lookup_params [crowded_group] ''vim'' p \<noteq> None \<and> p \<noteq> [RootDir, Normal ''srv'']"
proof -
  let ?cfg = "resolve_paths ''/root'' default_config" and ?raws = "[[RootDir, Normal ''srv'']]"
  note sp = restart_store_path [symmetric]
  have st: "read_store restart_cli sample_store crowded_file = Inr [crowded_group]" by code_simp
  have arg: "map (resolve_path_arg restart_cli) ?raws = ?raws" by code_simp
  have ed: "edit_remove ?raws ''vim'' [crowded_group] = Inr [restart_group]" by code_simp
  have j: "json_round_trip (cl_to_json restart_cli) (cl_from_json restart_cli) store'"
    if "edit_remove (map (resolve_path_arg restart_cli) ?raws) ''vim'' [crowded_group] = Inr store'" for store'
    using that restart_prepared(3,4) unfolding arg ed by simp
  obtain fl' sent where "cmd_remove restart_cli (Some ''vim'') ?raws crowded_file =
      (fst (cmd_remove restart_cli (Some ''vim'') ?raws crowded_file), fl', sent)"
    by (metis prod.collapse)
  moreover have "fst (cmd_remove restart_cli (Some ''vim'') ?raws crowded_file) = Inr ()" by code_simp
  ultimately have run: "cmd_remove restart_cli (Some ''vim'') ?raws crowded_file = (Inr (), fl', sent)" by simp
  from removed_store [OF restart_config sp st sample_prepared(2) restart_prepared(2) j run]
  have rd: "read_store restart_cli sample_store fl' = Inr [restart_group]" unfolding arg ed by auto
  then obtain m settings where started:
    "cmd_daemon restart_cli sample_world 7 True True (no_options None) fl' = Started m settings"
    using restart_group_started by blast
  have flat: "flatten (cl_fs restart_cli) [restart_group] = [restart_added]" by code_simp
  from started_entries [OF started] rd have "list_all2 (monitored_as sample_world) [restart_added] (mo_entries m)"
    by (auto simp: restart_config restart_store_path flat)
  then obtain q o' where entry: "(q, o') \<in> set (mo_entries m)" "monitored_as sample_world restart_added (q, o')"
    by (auto simp: list_all2_Cons1)
  then have cmd: "po_cmd o' = entry_cmd (Some ''vim'')"
    using try_from_entry_cmd [of "w_parse_size sample_world" restart_added o']
    by (simp add: monitored_as_def restart_added_def)
  have "q \<in> fst ` set (mo_entries m)" using entry(1) by force
  with removed_stays_removed [OF restart_config sp st sample_prepared(2) restart_prepared(2) j run started entry(1) cmd]
    run started arg show ?thesis by (metis list.set_intros(1) list.set_map)
qed

section \<open>Reloading the store\<close>

abbreviation resolved_path :: "world \<Rightarrow> path_entry \<Rightarrow> path" where
  "resolved_path w e \<equiv> snd (resolve_recursion_check (w_fs w) (pe_path e))"

lemma reload_add_entries:
  assumes "reload_add w e m = Some m1"
  shows "set (mo_paths m) \<subseteq> set (mo_paths m1) \<and>
    (mo_entries m1 = mo_entries m \<or>
     pe_path e \<notin> set (mo_paths m) \<and> resolved_path w e \<in> set (mo_paths m1) \<and>
       (\<exists>o'. mo_entries m1 = mo_entries m @ [(resolved_path w e, o')]))"
proof (cases "pe_path e \<in> set (mo_paths m)")
  case True
  with assms show ?thesis by (simp add: reload_add_def)
next
  case False
  with assms obtain out where add: "add_path w e m = Some (out, m1)" by (auto simp: reload_add_def)
  show ?thesis
  proof (cases out)
    case Done
    with add_path_cases [OF add refl] False show ?thesis
      by (cases "resolved_path w e \<in> set (mo_paths m)"; cases "fs_exists (w_fs w) (resolved_path w e)")
        (auto dest: core_fields)
  next
    case (Failed err)
    with add_path_cases [OF add refl] show ?thesis by (auto dest: core_fields)
  qed
qed

text \<open>The entries of the store that resolve to \<open>p\<close> although they spell another path.\<close>

definition other_spellings :: "world \<Rightarrow> path_entry list \<Rightarrow> path \<Rightarrow> path_entry list" where
  "other_spellings w flat p = filter (\<lambda>e. resolved_path w e = p \<and> pe_path e \<noteq> p) flat"

lemma entries_of_simps [simp]:
  "entries_of p [] = []" "entries_of p (es @ fs) = entries_of p es @ entries_of p fs"
  "entries_of p [(q, o')] = (if q = p then [(q, o')] else [])"
  by (simp_all add: entries_of_def)

lemma reload_adds_entries:
  assumes "fold_opt (reload_add w) flat m = Some m1"
    and "p \<notin> set (mo_paths m) \<Longrightarrow> entries_of p (mo_entries m) = []"
  shows "\<exists>new. entries_of p (mo_entries m1) = entries_of p (mo_entries m) @ new \<and>
    length new \<le> length (other_spellings w flat p) + (if p \<in> set (mo_paths m) then 0 else 1)"
  using assms
proof (induction flat arbitrary: m)
  case (Cons e flat)
  from Cons.prems(1) obtain ma where one: "reload_add w e m = Some ma" and rest: "fold_opt (reload_add w) flat ma = Some m1"
    by (auto split: option.splits)
  note step = reload_add_entries [OF one]
  have sub: "p \<in> set (mo_paths m) \<Longrightarrow> p \<in> set (mo_paths ma)" using step by blast
  show ?case
  proof (cases "mo_entries ma = mo_entries m")
    case True
    with Cons.prems(2) sub have "p \<notin> set (mo_paths ma) \<Longrightarrow> entries_of p (mo_entries ma) = []" by auto
    from Cons.IH [OF rest this] obtain new where
      new: "entries_of p (mo_entries m1) = entries_of p (mo_entries m) @ new"
      "length new \<le> length (other_spellings w flat p) + (if p \<in> set (mo_paths ma) then 0 else 1)"
      using True by auto
    moreover have "length (other_spellings w flat p) \<le> length (other_spellings w (e # flat) p)"
      by (simp add: other_spellings_def)
    moreover have "(if p \<in> set (mo_paths ma) then 0 else 1) \<le> (if p \<in> set (mo_paths m) then 0 else 1 :: nat)"
      using sub by simp
    ultimately show ?thesis by (intro exI [of _ new]) linarith
  next
    case False
    with step obtain o' where added: "pe_path e \<notin> set (mo_paths m)" "resolved_path w e \<in> set (mo_paths ma)"
      "mo_entries ma = mo_entries m @ [(resolved_path w e, o')]" by blast
    have "p \<notin> set (mo_paths ma) \<Longrightarrow> entries_of p (mo_entries ma) = []"
      using Cons.prems(2) sub added by auto
    from Cons.IH [OF rest this] obtain new where
      new: "entries_of p (mo_entries m1) = entries_of p (mo_entries ma) @ new"
      "length new \<le> length (other_spellings w flat p) + (if p \<in> set (mo_paths ma) then 0 else 1)" by blast
    show ?thesis
    proof (cases "resolved_path w e = p")
      case True
      with new added have "entries_of p (mo_entries m1) = entries_of p (mo_entries m) @ (p, o') # new"
        "p \<in> set (mo_paths ma)" by simp_all
      moreover have "length ((p, o') # new) \<le>
          length (other_spellings w (e # flat) p) + (if p \<in> set (mo_paths m) then 0 else 1)"
        using True new(2) added(1) \<open>p \<in> set (mo_paths ma)\<close> by (auto simp: other_spellings_def)
      ultimately show ?thesis by blast
    next
      case False
      with new added sub show ?thesis
        by (intro exI [of _ new]) (auto simp: other_spellings_def split: if_splits)
    qed
  qed
qed simp

lemma reload_removes:
  assumes "fold_opt (reload_remove w flat) ps m = Some m1" and "monitor_ok m"
  shows "mo_entries m1 = filter (\<lambda>x. fst x \<in> set ps \<longrightarrow> fst x \<in> pe_path ` set flat) (mo_entries m)"
  using assms
proof (induction ps arbitrary: m)
  case (Cons p ps)
  from Cons.prems(1) obtain ma where one: "reload_remove w flat p m = Some ma"
    and rest: "fold_opt (reload_remove w flat) ps ma = Some m1"
    by (auto split: option.splits)
  have "monitor_ok ma \<and> mo_entries ma = filter (\<lambda>x. fst x = p \<longrightarrow> p \<in> pe_path ` set flat) (mo_entries m)"
  proof (cases "p \<in> pe_path ` set flat")
    case True
    then have "list_ex (\<lambda>e. pe_path e = p) flat" by (auto simp: list_ex_iff)
    with one Cons.prems(2) True show ?thesis by (simp add: reload_remove_def)
  next
    case False
    then have "\<not> list_ex (\<lambda>e. pe_path e = p) flat" by (auto simp: list_ex_iff)
    with one obtain out where rm: "remove_path w p None m = Some (out, ma)" by (auto simp: reload_remove_def)
    have "monitor_ok ma" using remove_path_ok [OF Cons.prems(2), of w p None] rm by (simp add: returns_iff)
    moreover have "mo_entries ma = filter (\<lambda>x. \<not> removes p None x) (mo_entries m)"
      using remove_path_cases [OF Cons.prems(2) rm] by (elim conjE)
    ultimately show ?thesis using False by (simp add: removes_def case_prod_unfold)
  qed
  with Cons.IH [OF rest] show ?case by (auto simp: filter_filter intro!: filter_cong)
qed simp

text \<open>
  C28: What a reload on SIGHUP does to the entries. It knows paths only, as the store spells them:
  every entry that is left has the path of an entry of the store letter for letter, so what a path
  of the store resolves to elsewhere is not monitored any more. Of a path that the store spells out
  every entry the daemon has is kept as it is, whatever the store now says about its options or
  processes. New entries come after these: none for a path that is watched already and one at most
  for a path that is new, however many processes the store has for it, except that every entry of
  the store that spells the path otherwise, by a symbolic link for example, may add one more.
\<close>

theorem reload_effect:
  assumes ok: "monitor_ok m" and run: "reload_config w (Some (Inr store)) m = Some (r, m')"
  shows "r \<and> fst ` set (mo_entries m') \<subseteq> pe_path ` set (flatten (w_fs w) store) \<and>
    (\<forall>p \<in> pe_path ` set (flatten (w_fs w) store).
       \<exists>new. entries_of p (mo_entries m') = entries_of p (mo_entries m) @ new \<and>
         length new \<le> length (filter (\<lambda>e. snd (resolve_recursion_check (w_fs w) (pe_path e)) = p \<and> pe_path e \<noteq> p)
             (flatten (w_fs w) store)) + (if p \<in> set (mo_paths m) then 0 else 1))"
proof -
  let ?flat = "flatten (w_fs w) store"
  from run obtain m1 where adds: "fold_opt (reload_add w) ?flat m = Some m1"
    and dels: "fold_opt (reload_remove w ?flat) (mo_paths m1) m1 = Some m'" and r
    by (auto simp: reload_config_def Let_def split: bind_splits)
  have "returns (fold_opt (reload_add w) ?flat m) monitor_ok"
  proof (rule returns_fold_opt [where P = monitor_ok, OF ok])
    fix e and x :: monitor
    assume "monitor_ok x"
    then show "returns (reload_add w e x) monitor_ok"
      using add_path_ok [of x w e] by (fastforce simp: reload_add_def returns_iff)
  qed
  with adds have ok1: "monitor_ok m1" by (simp add: returns_iff)
  then have sub: "fst ` set (mo_entries m1) \<subseteq> set (mo_paths m1)" by (simp add: monitor_ok_def)
  have left: "mo_entries m' = filter (\<lambda>x. fst x \<in> set (mo_paths m1) \<longrightarrow> fst x \<in> pe_path ` set ?flat) (mo_entries m1)"
    by (rule reload_removes [OF dels ok1])
  with sub have "fst ` set (mo_entries m') \<subseteq> pe_path ` set ?flat" by auto
  moreover have same: "entries_of p (mo_entries m') = entries_of p (mo_entries m1)" if "p \<in> pe_path ` set ?flat" for p
    unfolding left entries_of_def filter_filter using that by (intro filter_cong) auto
  moreover have "entries_of p (mo_entries m) = []" if "p \<notin> set (mo_paths m)" for p
    using ok that by (force simp: monitor_ok_def entries_of_def filter_empty_conv)
  ultimately show ?thesis
    using \<open>r\<close> reload_adds_entries [OF adds] unfolding other_spellings_def by simp
qed

text \<open>
  The store has one entry for vim, the monitor has one for all processes, and keeps it.
\<close>

theorem reload_effect_witness:
  "\<exists>m m'. sample_monitor = Some m \<and> reload_config sample_world (Some (Inr [restart_group])) m = Some (True, m') \<and>
     mo_entries m' = [(sample_dir, sample_opts)] \<and> map pe_cmd (flatten (w_fs sample_world) [restart_group]) = [Some ''vim''] \<and>
     fst ` set (mo_entries m') \<subseteq> {sample_dir}"
proof -
  obtain m where m: "sample_monitor = Some m" using sample_exists by blast
  have flat: "flatten (w_fs sample_world) [restart_group] = [restart_added]" by code_simp
  have run: "reload_config sample_world (Some (Inr [restart_group])) m = Some (True, m)"
    by (simp add: reload_config_def flat reload_add_def reload_remove_def sample_facts [OF m] restart_added_def)
  note effect = reload_effect [OF reach_ok [OF sample_reach [OF m]] run, unfolded flat]
  from effect have "fst ` set (mo_entries m) \<subseteq> {sample_dir}" by (simp add: restart_added_def)
  with m run flat sample_facts(8) [OF m] show ?thesis by (intro exI [of _ m]) (simp add: restart_added_def)
qed

end
