(* ===== verification/Bootstrap.thy ===== *)
theory Bootstrap
  imports Cli_Props Daemon_Loop Service
begin

text \<open>
  What stands between the commands and the running daemon: the flags of \<^verbatim>\<open>fsmon daemon\<close> as
  \<^verbatim>\<open>bin/commands.rs\<close> hands them over, where the sockets are (\<^verbatim>\<open>common/socket.rs\<close>), \<^verbatim>\<open>fsmon health\<close>,
  the choice of the event channel (\<^verbatim>\<open>monitor/channel.rs\<close>, \<^verbatim>\<open>monitor/init.rs\<close>), the first process
  tree (\<^verbatim>\<open>common/proc_cache.rs\<close>, \<^verbatim>\<open>proc_scan.rs\<close>), and the directories that are made on first use
  (\<^verbatim>\<open>common/config.rs\<close>, \<^verbatim>\<open>fid_parser.rs\<close>, \<^verbatim>\<open>monitor/init.rs\<close>).
\<close>

section \<open>The flags of the daemon\<close>

record daemon_flags =
  fl_debug :: bool
  fl_cache_dir_cap :: "u64 option"
  fl_cache_dir_ttl :: "u64 option"
  fl_cache_file_size :: "nat option"
  fl_cache_proc_ttl :: "u64 option"
  fl_cache_buffer :: "nat option"
  fl_cache_channel :: "nat option"
  fl_cache_subscribe :: "nat option"
  fl_logging_disk_free :: "string option"
  fl_logging_local_time :: bool
  fl_metrics_interval :: "u64 option"
  fl_watchdog_interval :: "u64 option"
  fl_watchdog_multiplier :: "u64 option"

definition daemon_options_of :: "daemon_flags \<Rightarrow> daemon_options" where
  "daemon_options_of f =
     \<lparr>do_debug = fl_debug f,
      do_cli_cache =
        \<lparr>co_dir_capacity = fl_cache_dir_cap f, co_dir_ttl_secs = fl_cache_dir_ttl f,
         co_file_size_capacity = fl_cache_file_size f, co_proc_ttl_secs = fl_cache_proc_ttl f,
         co_buffer_size = fl_cache_buffer f, co_channel_capacity = fl_cache_channel f,
         co_subscribe_buf = fl_cache_subscribe f\<rparr>,
      do_disk_min_free = fl_logging_disk_free f, do_local_time = fl_logging_local_time f,
      do_metrics_interval = fl_metrics_interval f, do_watchdog_interval = fl_watchdog_interval f,
      do_watchdog_multiplier = fl_watchdog_multiplier f\<rparr>"

text \<open>A flag that is given is what the daemon runs with, whatever the file says.\<close>

lemma flags_reach_settings:
  "fl_cache_buffer f = Some n \<Longrightarrow> rc_buffer_size (st_cache (merge_settings (daemon_options_of f) cfg)) = n"
  "fl_cache_file_size f = Some n \<Longrightarrow> rc_file_size_capacity (st_cache (merge_settings (daemon_options_of f) cfg)) = n"
  "fl_cache_channel f = Some n \<Longrightarrow> rc_channel_capacity (st_cache (merge_settings (daemon_options_of f) cfg)) = Some n"
  "fl_watchdog_multiplier f = Some k \<Longrightarrow> st_watchdog_multiplier (merge_settings (daemon_options_of f) cfg) = k"
  by (simp_all add: merge_settings_def daemon_options_of_def resolve_cache_def resolve_with_cli_fields first_of_def
      Config.or_else_def split: option.split)

section \<open>Where the sockets are\<close>

definition resolve_uid :: "identity_env \<Rightarrow> u32" where
  "resolve_uid env = fst (resolve_uid_gid env)"

definition runtime_dir :: "identity_env \<Rightarrow> path" where
  "runtime_dir env =
     path_of (case ie_var env ''XDG_RUNTIME_DIR'' of
        Some d \<Rightarrow> d | None \<Rightarrow> ''/run/user/'' @ nat_string (unat (resolve_uid env)))"

definition socket_path :: "identity_env \<Rightarrow> path" where
  "socket_path env = path_join (runtime_dir env) (path_of ''fsmon/daemon.sock'')"

definition lock_socket_path :: "identity_env \<Rightarrow> path" where
  "lock_socket_path env = path_join (runtime_dir env) (path_of ''fsmon/lock.sock'')"

lemma socket_paths:
  "socket_path env = runtime_dir env @ [Normal ''fsmon'', Normal ''daemon.sock'']"
  "lock_socket_path env = runtime_dir env @ [Normal ''fsmon'', Normal ''lock.sock'']"
proof -
  have "path_of ''fsmon/daemon.sock'' = [Normal ''fsmon'', Normal ''daemon.sock'']"
    "path_of ''fsmon/lock.sock'' = [Normal ''fsmon'', Normal ''lock.sock'']" by code_simp+
  then show "socket_path env = runtime_dir env @ [Normal ''fsmon'', Normal ''daemon.sock'']"
    "lock_socket_path env = runtime_dir env @ [Normal ''fsmon'', Normal ''lock.sock'']"
    by (simp_all add: socket_path_def lock_socket_path_def path_join_def is_absolute_def)
qed

text \<open>
  A command reaches the daemon exactly if both take the same runtime directory; the lock is next to
  the socket and never the socket itself.
\<close>

lemma command_meets_daemon:
  "socket_path env = socket_path env' \<longleftrightarrow> runtime_dir env = runtime_dir env'"
  "lock_socket_path env = lock_socket_path env' \<longleftrightarrow> runtime_dir env = runtime_dir env'"
  "socket_path env \<noteq> lock_socket_path env"
  by (auto simp: socket_paths)

text \<open>
  A daemon under sudo, without \<^verbatim>\<open>XDG_RUNTIME_DIR\<close>, and a command of the user who called sudo, with
  the usual one, meet.
\<close>

lemma sudo_daemon_meets_user:
  assumes "ie_var env ''XDG_RUNTIME_DIR'' = None" and "sudo_uid env = Some uid"
    and "ie_user env uid = Some user" and "ie_var env ''SUDO_USER'' = Some (ue_name user)"
    and "ie_var env' ''XDG_RUNTIME_DIR'' = Some (''/run/user/'' @ nat_string (unat uid))"
  shows "socket_path env = socket_path env'"
  using assms by (simp add: command_meets_daemon runtime_dir_def resolve_uid_def resolve_uid_gid_def del: nat_string.simps)

text \<open>
  The variable is taken as it is: an empty one, or a relative path, puts the sockets below the
  current directory, of the daemon on one side and of the command on the other.
\<close>

lemma socket_path_may_be_relative:
  assumes "ie_var env ''XDG_RUNTIME_DIR'' = Some []"
  shows "socket_path env = [Normal ''fsmon'', Normal ''daemon.sock''] \<and> \<not> is_absolute (socket_path env)"
proof -
  have "path_of [] = []" by code_simp
  with assms show ?thesis by (simp add: socket_paths runtime_dir_def is_absolute_def)
qed

section \<open>The health command\<close>

definition show_socket_error :: "socket_error \<Rightarrow> string" where
  "show_socket_error e =
     (case e of Permanent msg \<Rightarrow> ''Permanent error: '' @ msg | Transient msg \<Rightarrow> ''Transient error: '' @ msg)"

text \<open>What is printed, or the error; \<open>pretty\<close> is the JSON writer, which may fail.\<close>

definition cmd_health :: "(socket_response \<Rightarrow> string option) \<Rightarrow> (socket_cmd \<Rightarrow> reply) \<Rightarrow> string + string" where
  "cmd_health pretty send =
     (case send HealthCmd of
        Inr resp \<Rightarrow> Inr (case pretty resp of Some t \<Rightarrow> t | None \<Rightarrow> ''Failed to serialize response'')
      | Inl e \<Rightarrow> Inl (show_socket_error e))"

text \<open>Asked of a running daemon it shows that daemon's health; with none it is an error.\<close>

lemma health_shown:
  "\<exists>r. handle_socket_cmd w he dbg HealthCmd m = Some (r, m) \<and>
     cmd_health pretty (\<lambda>_. r) = Inr (case pretty (RespHealth (health he m)) of
       Some t \<Rightarrow> t | None \<Rightarrow> ''Failed to serialize response'')"
  "cmd_health pretty (\<lambda>cmd. send_cmd js cmd (\<lambda>_. None)) = Inl ''Transient error: Failed to connect to daemon''"
  by (simp_all add: handle_socket_cmd_def cmd_health_def send_cmd_def show_socket_error_def)

section \<open>The event channel\<close>

text \<open>
  The channel belongs to the runtime: \<open>bounded\<close> makes one of a capacity, and \<open>None\<close> is the panic
  it is documented to end in for capacity 0.
\<close>

datatype ('u, 'b) event_channel = Unbounded 'u | Bounded 'b

definition make_channel :: "(nat \<Rightarrow> 'b option) \<Rightarrow> 'u \<Rightarrow> nat option \<Rightarrow> ('u, 'b) event_channel option" where
  "make_channel bounded unbounded capacity =
     (case capacity of
        Some cap \<Rightarrow> if cap > 0 then map_option Bounded (bounded cap) else Some (Unbounded unbounded)
      | None \<Rightarrow> Some (Unbounded unbounded))"

definition try_recv ::
  "('u \<Rightarrow> decoded_event list option \<times> 'u) \<Rightarrow> ('b \<Rightarrow> decoded_event list option \<times> 'b) \<Rightarrow>
     ('u, 'b) event_channel \<Rightarrow> decoded_event list option \<times> ('u, 'b) event_channel" where
  "try_recv recv_u recv_b ch =
     (case ch of
        Unbounded u \<Rightarrow> map_prod id Unbounded (recv_u u) | Bounded b \<Rightarrow> map_prod id Bounded (recv_b b))"

text \<open>The start never asks for a channel of capacity 0, so it does not panic there.\<close>

lemma channel_made:
  assumes "\<And>cap. 0 < cap \<Longrightarrow> bounded cap \<noteq> None"
  shows "\<exists>ch. make_channel bounded unbounded capacity = Some ch \<and>
    ((\<exists>b. ch = Bounded b) \<longleftrightarrow> (\<exists>cap. capacity = Some cap \<and> 0 < cap))"
proof (cases capacity)
  case (Some cap)
  show ?thesis
  proof (cases "0 < cap")
    case True
    then obtain b where "bounded cap = Some b" using assms by blast
    with Some True show ?thesis by (simp add: make_channel_def)
  qed (use Some in \<open>simp add: make_channel_def\<close>)
qed (simp add: make_channel_def)

text \<open>
  The whole of \<^verbatim>\<open>spawn_tasks\<close>: the channel, then the readers. On a monitor of the daemon only the channel
  can panic, for a capacity above the one the runtime takes.
\<close>

definition spawn_with_channel ::
  "(nat \<Rightarrow> 'b option) \<Rightarrow> 'u \<Rightarrow> nat option \<Rightarrow> world \<Rightarrow> monitor \<Rightarrow> (('u, 'b) event_channel \<times> monitor) option" where
  "spawn_with_channel bounded unbounded capacity w m =
     (case make_channel bounded unbounded capacity of
        None \<Rightarrow> None | Some ch \<Rightarrow> map_option (Pair ch) (spawn_tasks w m))"

lemma spawn_with_channel_panics:
  assumes "monitor_ok m"
  shows "spawn_with_channel bounded unbounded capacity w m = None \<longleftrightarrow>
    (\<exists>cap. capacity = Some cap \<and> 0 < cap \<and> bounded cap = None)"
  using spawn_tasks_ok [OF assms, of w]
  by (auto simp: spawn_with_channel_def make_channel_def returns_iff split: option.split)

text \<open>The health reply names another channel for capacity 0 than the one that is used.\<close>

lemma health_names_wrong_channel:
  assumes "he_channel_capacity he = Some 0"
  shows "make_channel bounded unbounded (he_channel_capacity he) = Some (Unbounded unbounded) \<and>
    hi_channel_type (health he m) = ''bounded(0)''"
proof -
  have "nat_string 0 = ''0''" by code_simp
  with assms show ?thesis by (simp add: make_channel_def health_def del: nat_string.simps)
qed

section \<open>The first process tree\<close>

text \<open>A connector that cannot be made non-blocking is not used.\<close>

definition try_create_connector :: "'c option \<Rightarrow> ('c \<Rightarrow> bool) \<Rightarrow> 'c option" where
  "try_create_connector made set_nonblocking =
     (case made of None \<Rightarrow> None | Some c \<Rightarrow> if set_nonblocking c then Some c else None)"

definition PROC_HISTORY_CAP :: nat where "PROC_HISTORY_CAP = 65536"

text \<open>
  The calls into proc-tree: the state of a tracker is \<open>'t\<close>, a source \<open>'s\<close>, a snapshot \<open>'n\<close>. Of the
  configuration only the length of the history is a choice of the program's.
\<close>

record ('t, 'k, 's, 'n) bootstrap_api =
  bo_new :: "nat \<Rightarrow> 't"
  bo_register :: "'t \<Rightarrow> 's \<times> 't"
  bo_scan :: 'n
  bo_build :: "nat \<Rightarrow> 'n \<Rightarrow> 't option"
  bo_tgid :: "'t \<Rightarrow> 'k \<Rightarrow> u32 option"
  bo_read_metadata :: "u32 \<Rightarrow> proc_meta option"

definition enrich_one ::
  "('t, 'k) tracker_api \<Rightarrow> (u32 \<Rightarrow> proc_meta option) \<Rightarrow> 'k \<times> u32 option \<Rightarrow> 't \<Rightarrow> 't" where
  "enrich_one api read_metadata x t =
     (case snd x of
        None \<Rightarrow> t
      | Some tgid \<Rightarrow> (case read_metadata tgid of None \<Rightarrow> t | Some meta \<Rightarrow> tk_enrich api (fst x) meta t))"

definition init_tracker ::
  "('t, 'k) tracker_api \<Rightarrow> ('t, 'k, 's, 'n) bootstrap_api \<Rightarrow> nat \<Rightarrow> 't \<times> 's" where
  "init_tracker api bo config =
     (let (src, registered) = bo_register bo (bo_new bo config);
          tracker = (case bo_build bo config (bo_scan bo) of Some t \<Rightarrow> t | None \<Rightarrow> registered);
          baseline = map (\<lambda>k. (k, bo_tgid bo tracker k)) (tk_live api tracker)
      in (fold (enrich_one api (bo_read_metadata bo)) baseline tracker, src))"

definition init_process_cache ::
  "('t, 'k) tracker_api \<Rightarrow> ('t, 'k, 's, 'n) bootstrap_api \<Rightarrow> 'c option \<Rightarrow> ('c \<Rightarrow> bool) \<Rightarrow> ('t \<times> 's) \<times> 'c option" where
  "init_process_cache api bo made set_nonblocking =
     (init_tracker api bo PROC_HISTORY_CAP, try_create_connector made set_nonblocking)"

text \<open>
  When the baseline can be built, the tracker in which the source was registered is given up and only
  the number of the source is kept; the events of the connector are applied to the other tracker.
  Without a baseline the tracker with the source stays.
\<close>

lemma init_tracker_source:
  "bo_build bo config (bo_scan bo) = Some t \<Longrightarrow>
     bo_register bo (bo_new bo config) = (src, t0) \<Longrightarrow>
     init_tracker api bo config =
       (fold (enrich_one api (bo_read_metadata bo)) (map (\<lambda>k. (k, bo_tgid bo t k)) (tk_live api t)) t, src)"
  "bo_build bo config (bo_scan bo) = None \<Longrightarrow>
     bo_register bo (bo_new bo config) = (src, t0) \<Longrightarrow> tk_live api t0 = [] \<Longrightarrow>
     init_tracker api bo config = (t0, src)"
  by (simp_all add: init_tracker_def)

text \<open>Whatever enriching leaves alone is as the baseline has it.\<close>

lemma init_tracker_keeps:
  assumes "\<And>k meta t. keep (tk_enrich api k meta t) = keep t"
    and "bo_build bo config (bo_scan bo) = Some t"
  shows "keep (fst (init_tracker api bo config)) = keep t"
proof -
  have "keep (fold (enrich_one api (bo_read_metadata bo)) xs t) = keep t" for xs t
    by (induction xs arbitrary: t) (simp_all add: enrich_one_def assms(1) split: option.split)
  with assms(2) show ?thesis by (simp add: init_tracker_def split: prod.split)
qed

section \<open>Directories made on first use\<close>

text \<open>The directory of the store; a command that needs it ends when it cannot be made.\<close>

definition ensure_monitored_dir :: "cli_env \<Rightarrow> (fs_step \<Rightarrow> bool) \<Rightarrow> (cli_error + unit) \<times> fs_step list" where
  "ensure_monitored_dir env ok =
     (case cli_config env of
        Inl e \<Rightarrow> (Inl (BadConfig e), [])
      | Inr cfg \<Rightarrow>
          (case parent (cf_monitored_path cfg) of
             None \<Rightarrow> (Inl NoMonitoredDir, [])
           | Some d \<Rightarrow>
               if fs_exists (cl_fs env) d then (Inr (), [])
               else
                 (case and_then (attempt ok (CreateDir d)) (chown_to_original_user (cl_identity env) d) of
                    (Inl _, steps) \<Rightarrow> (Inl NoMonitoredDir, steps)
                  | (Inr _, steps) \<Rightarrow> (Inr (), steps))))"

text \<open>
  It never asks for more than one directory and its owner, and \<^verbatim>\<open>fsmon add\<close> ends with its error
  before it looks at anything else.
\<close>

lemma ensure_monitored_dir_steps:
  assumes "ensure_monitored_dir env ok = (r, steps)"
  shows "steps = [] \<or> (\<exists>d. \<not> fs_exists (cl_fs env) d \<and>
    (steps = [CreateDir d] \<and> r = Inl NoMonitoredDir \<or>
     (\<exists>uid gid. steps = [CreateDir d, Chown d uid gid] \<and> r = Inr ())))"
  using assms
  by (auto simp: ensure_monitored_dir_def attempt_def chown_to_original_user_def
      split: sum.splits option.splits if_splits)

lemma add_needs_monitored_dir:
  assumes "cl_mkdir_ok env \<longleftrightarrow> (\<exists>steps. ensure_monitored_dir env ok = (Inr (), steps))"
    and "ensure_monitored_dir env ok = (Inl e, steps)"
  shows "cmd_add env args fl = (Inl e, fl, [])"
  using assms
  by (auto simp: ensure_monitored_dir_def cmd_add_def prepare_add_def attempt_def chown_to_original_user_def
      split: sum.splits option.splits if_splits)

text \<open>
  What the kernel answers to a chown is \<open>None\<close>, or an error number. The result is whether the owner
  was changed; \<open>None\<close> is an error. Filesystems without owners are no error.
\<close>

definition no_ownership :: "u32 \<Rightarrow> bool" where
  "no_ownership errno \<longleftrightarrow> errno = 1 \<or> errno = 95 \<or> errno = 38"

definition chown_to_user :: "identity_env \<Rightarrow> (path \<Rightarrow> u32 \<Rightarrow> u32 \<Rightarrow> u32 option) \<Rightarrow> path \<Rightarrow> bool option" where
  "chown_to_user env chown p =
     (let (uid, gid) = resolve_uid_gid env in
      if CHR 0x00 \<in> set (path_str p) then None
      else
        (case chown p uid gid of
           None \<Rightarrow> Some True | Some errno \<Rightarrow> if no_ownership errno then Some False else None))"

datatype log_warning = NotOwned path | CannotChown path | DiskSpace disk_report

definition init_logging ::
  "identity_env \<Rightarrow> (path \<Rightarrow> bool) \<Rightarrow> (path \<Rightarrow> u32 \<Rightarrow> u32 \<Rightarrow> u32 option) \<Rightarrow>
     number_parsers \<Rightarrow> (u64 \<Rightarrow> u64 \<Rightarrow> f64) \<Rightarrow> (path \<Rightarrow> disk_stat option) \<Rightarrow>
     path option \<Rightarrow> string option \<Rightarrow> path + log_warning list" where
  "init_logging env mkdir chown np percent_of stat log_dir disk_min_free =
     (case log_dir of
        None \<Rightarrow> Inr []
      | Some d \<Rightarrow>
          if \<not> mkdir d then Inl d
          else Inr ((case chown_to_user env chown d of
                       Some True \<Rightarrow> [] | Some False \<Rightarrow> [NotOwned d] | None \<Rightarrow> [CannotChown d]) @
                    (case disk_min_free of None \<Rightarrow> [] | Some t \<Rightarrow> [DiskSpace (check_disk_space np percent_of t (stat d))])))"

text \<open>
  Only the directory itself can end the start, as \<open>Startup\<close> has it; its owner and the free space
  only warn. Without a threshold there is no warning exactly if the user owns the directory.
\<close>

lemma init_logging_fails:
  "(\<exists>d. init_logging env mkdir chown np percent_of stat log_dir t = Inl d) \<longleftrightarrow> (\<exists>d. log_dir = Some d \<and> \<not> mkdir d)"
  by (auto simp: init_logging_def split: option.split)

lemma init_logging_silent:
  assumes "mkdir d" and "CHR 0x00 \<notin> set (path_str d)"
  shows "init_logging env mkdir chown np percent_of stat (Some d) None = Inr [] \<longleftrightarrow>
    chown d (fst (resolve_uid_gid env)) (snd (resolve_uid_gid env)) = None"
  using assms by (auto simp: init_logging_def chown_to_user_def Let_def split: option.split prod.split)

end
