(* ===== verification/Spec2Isabelle.thy ===== *)
theory Spec2Isabelle
  imports Cli_Props Writer_Props Daemon_Loop Store Log_Clean Dir_Cache Metrics Seccomp Mark_Walk Monitor_Props
    Daemon_Lock Startup Factory_Msg Service Pipeline Restart Bootstrap
begin

text \<open>
  A verification development for fsmon, a file system monitor for Linux written in Rust. The
  sources are named from the directory \<^verbatim>\<open>src/\<close> of the repository; \<^verbatim>\<open>bin/\<close> stands for
  \<^verbatim>\<open>src/bin/fsmon/\<close>.

  \<^bold>\<open>The program.\<close> A daemon watches paths with fanotify, finds out which process caused an event,
  and appends a JSON line per event to one log per process name. What it watches comes from a
  store, a JSONL file of groups (process name) of paths with their options, and from commands over
  a Unix socket. The command line edits the store and tells the daemon (\<^verbatim>\<open>add\<close>, \<^verbatim>\<open>remove\<close>), reads
  the logs (\<^verbatim>\<open>query\<close>, \<^verbatim>\<open>changes\<close>), trims them (\<^verbatim>\<open>clean\<close>) and installs a service (\<^verbatim>\<open>init\<close>). A
  forked child keeps \<^verbatim>\<open>CAP_SYS_ADMIN\<close> behind a seccomp filter and creates fanotify groups and
  marks for the daemon, which drops its privileges; a reader task per group decodes events into
  batches; the event loop attributes, filters and publishes them; the log writer is a subscriber.

  \<^bold>\<open>How it is modelled.\<close> Functions are HOL functions, a struct is a record, an enum a datatype, a
  fallible function returns a sum with its own error type, and \<open>None\<close> is a panic where an operation
  can panic. Integers of fixed width are words wherever they can wrap; \<^verbatim>\<open>usize\<close> counts of things
  in memory are natural numbers. A path is the list of its components, a string a list of bytes.
  State is passed explicitly; the answers of the operating system, of serde_json, the TOML reader,
  the password database and of the crates sizefilter, fanotify-fid, proc-tree and proc-connector
  are parameters, with what the code relies on as named hypotheses. Where the order of system calls
  matters they are recorded as a list of actions.

  \<^bold>\<open>Shared theories.\<close>
  \<^item> \<open>Prelude\<close>: words and bytes, splitting and trimming text, \<open>returns\<close> (a run that does not panic
    and its postcondition) with rules for folds, and the collections \<open>store_simps\<close> and \<open>path_simps\<close>.
  \<^item> \<open>Ordered_Map\<close>: the interfaces \<open>dict\<close> and \<open>entry_dict\<close> of a map, interpreted on BTreeMap (a
    sorted association list), HashMap and on insertion-ordered maps, and later on the store.
  \<^item> \<open>Rust_Path\<close>, \<open>Text\<close>, \<open>Fs_View\<close>: \<^verbatim>\<open>std::path\<close>, lines, UTF-8 and its lossy decoding, what a
    function sees of the file system, and the path functions of \<^verbatim>\<open>common/config.rs\<close> and
    \<^verbatim>\<open>common/filters.rs\<close> that only look.

  \<^bold>\<open>Data and files.\<close>
  \<^item> \<open>Event\<close> (\<^verbatim>\<open>common.rs\<close>, \<^verbatim>\<open>common/utils.rs\<close>): event types, the JSONL line, log names.
  \<^item> \<open>Event_Mask\<close>, \<open>Filters\<close> (\<^verbatim>\<open>common/fid_parser.rs\<close>, \<^verbatim>\<open>common/filters.rs\<close>,
    \<^verbatim>\<open>common/monitor/filtering.rs\<close>): masks of marks and their decoding, scope and filters of an
    entry. Main facts: masks decode to the types they were made from; an entry collected for an
    event is never rejected by the scope check.
  \<^item> \<open>Store\<close> (\<^verbatim>\<open>common/monitored.rs\<close>): the store as a map from path and process name, atomic
    saving, and loading what was saved.
  \<^item> \<open>Log_Query\<close> (\<^verbatim>\<open>common/query/core.rs\<close>): the bisection of a log agrees with a linear search, and
    a query returns exactly the matching events. \<open>Log_Clean\<close> (\<^verbatim>\<open>common/clean/core.rs\<close>): what
    remains of a log, also when a step fails.
  \<^item> \<open>Config\<close> (\<^verbatim>\<open>common/config.rs\<close>, \<^verbatim>\<open>common/utils.rs\<close>, \<^verbatim>\<open>common/watchdog.rs\<close>): settings and their
    precedence, whose files they are, thresholds.

  \<^bold>\<open>The daemon.\<close>
  \<^item> \<open>Seccomp\<close>, \<open>Factory\<close>, \<open>Factory_Msg\<close>, \<open>Factory_Spawn\<close> (\<^verbatim>\<open>common/monitor/factory.rs\<close>): the BPF
    program is run and is a whitelist, and the child goes on only with all of it installed; the
    child closes everything it receives and answers every request once; descriptors cross a message
    in order; how the child comes up, which descriptors it is left with, and that a failed spawn
    leaves nothing behind.
  \<^item> \<open>Privileges\<close> (\<^verbatim>\<open>common/privileges.rs\<close>) and \<open>Daemon_Lock\<close> (\<^verbatim>\<open>DaemonLock\<close> in \<^verbatim>\<open>common.rs\<close>): the
    calls that drop privileges with their effect on the threads; the lock as a step relation of
    several processes, with bind and listen as two steps, calls that fail, and processes killed
    between any two of them.
  \<^item> \<open>Mark_Walk\<close> (\<^verbatim>\<open>common/fid_parser.rs\<close>): the recursive marking of a directory tree.
  \<^item> \<open>Monitor_State\<close>, \<open>Monitor_Inv\<close>, \<open>Monitor_Init\<close>, \<open>Monitor_Props\<close> (\<^verbatim>\<open>common/monitor.rs\<close>,
    \<^verbatim>\<open>monitor/live_path.rs\<close>, \<^verbatim>\<open>temp_marks.rs\<close>, \<^verbatim>\<open>dir_watcher.rs\<close>, \<^verbatim>\<open>events.rs\<close>, \<^verbatim>\<open>reader.rs\<close>,
    \<^verbatim>\<open>init.rs\<close>): the monitor, its operations, the invariant \<open>monitor_ok\<close> (parallel vectors in step,
    reference counts of groups at least the references) through the interface \<open>ref_table\<close>, and the
    states reachable by any sequence of operations, \<open>monitor_reach\<close>.
  \<^item> \<open>Dir_Cache\<close>, \<open>Metrics\<close>, \<open>Process_Info\<close> (\<^verbatim>\<open>common/dir_cache.rs\<close>, \<^verbatim>\<open>metrics.rs\<close>,
    \<^verbatim>\<open>proc_cache.rs\<close>): handles of directories with an eviction policy as the interface \<open>evictor\<close>,
    gauges and counters, and the attribution of an event to a process.
  \<^item> \<open>Event_Process\<close>, \<open>Event_Props\<close> (\<^verbatim>\<open>fid_parser.rs\<close>, \<^verbatim>\<open>monitor/events.rs\<close>): decoding a batch,
    renames, and which records a batch makes, against a reference that looks at one event and one
    entry at a time.
  \<^item> \<open>Socket_Cmd\<close>, \<open>Socket_Props\<close> (\<^verbatim>\<open>common/socket.rs\<close>, \<^verbatim>\<open>security.rs\<close>, \<^verbatim>\<open>monitor/socket_handler.rs\<close>):
    framing, the handlers and subscribers.
  \<^item> \<open>Daemon_Loop\<close> (\<^verbatim>\<open>monitor.rs\<close>, \<^verbatim>\<open>monitor/reader.rs\<close>): the arms of the event loop in any order;
    no run from a start panics. \<open>Startup\<close> (\<^verbatim>\<open>Monitor::run\<close> up to the loop, \<^verbatim>\<open>monitor/init.rs\<close>,
    \<^verbatim>\<open>watchdog.rs\<close>): the real start refines the start the loop assumes, in the order fork, marks,
    drop of privileges, readers, ready.
  \<^item> \<open>File_Writer\<close>, \<open>Writer_Props\<close> (\<^verbatim>\<open>monitor/file_writer.rs\<close>): the writer refines an append to one
    log per process name; its memory is bounded; when events are left behind.

  \<^bold>\<open>The commands.\<close>
  \<^item> \<open>Cli\<close>, \<open>Cli_Props\<close> (\<^verbatim>\<open>bin/commands/\<close>: \<^verbatim>\<open>add.rs\<close>, \<^verbatim>\<open>remove.rs\<close>, \<^verbatim>\<open>monitored.rs\<close>, \<^verbatim>\<open>query.rs\<close>,
    \<^verbatim>\<open>changes.rs\<close>, \<^verbatim>\<open>clean.rs\<close>, \<^verbatim>\<open>daemon.rs\<close>): each command on a file table with the requests it
    sends.
  \<^item> \<open>Service\<close> (\<^verbatim>\<open>bin/commands/init_cd.rs\<close>, \<^verbatim>\<open>common/config.rs\<close>): \<^verbatim>\<open>init\<close> and \<^verbatim>\<open>cd\<close> as steps on the
    file system, with the text of the unit and of the default configuration.
  \<^item> \<open>Bootstrap\<close> (\<^verbatim>\<open>bin/commands.rs\<close>, \<^verbatim>\<open>bin/commands/health.rs\<close>, \<^verbatim>\<open>common/socket.rs\<close>,
    \<^verbatim>\<open>monitor/channel.rs\<close>, \<^verbatim>\<open>proc_cache.rs\<close>): the daemon's flags on their way into its options, where
    a command and a daemon meet, \<^verbatim>\<open>health\<close>, the choice of the event channel, the first process
    tree, the directories that are made on first use, and the whole of \<^verbatim>\<open>spawn_tasks\<close> with the
    event channel it makes first (\<open>spawn_with_channel\<close>).

  \<^bold>\<open>The parts together.\<close>
  \<^item> \<open>Pipeline\<close>: decoder, event loop, writer and query in one chain. What the loop publishes is what
    a query finds, per log and in order; an event that matches an entry is found by the query for
    the entry's process name.
  \<^item> \<open>Restart\<close>: store, command and daemon. An added entry is monitored alike by the daemon that is
    told about it and by the next one started from the store; a removed one stays removed; what a
    reload (\<^verbatim>\<open>reload_config\<close> in \<^verbatim>\<open>monitor/socket_handler.rs\<close>) keeps, adds and ignores.

  \<^bold>\<open>Bounds, termination.\<close> Loops are structural recursion or \<^verbatim>\<open>function\<close> with a measure (the interval
  of the bisection, the text left to read, the distance of a BPF jump to the end of the program).
  There is no fuel. Where a constructor of a library panics for a capacity that is too large (the
  channels of tokio, \<^verbatim>\<open>LruCache\<close>), whether it accepts the configured one is a parameter; whether an
  overflow panics or wraps depends on the build, and is a parameter too. Three loops can run forever in principle and are \<^verbatim>\<open>partial_function (option)\<close>,
  where \<open>None\<close> is a run that does not return: the two walks over a directory tree return when the
  tree is well founded (no directory contains itself; symbolic links are not followed), and the
  walk over control messages returns when no header has length 0. Each result about them states
  that they return.

  \<^bold>\<open>Not modelled.\<close> The parsing of the command line by clap, the dispatch to a command, help texts
  and colours; the insides of proc-tree, proc-connector, fanotify-fid, sizefilter and tokio, whose
  functions are parameters; debug output and the notes the commands print; the bytes of a request
  in memory and of JSON and TOML; scheduling inside the runtime, which appears as the order of the
  arms of the loop and, for the lock, as interleaved steps.
\<close>

end
